(* ===== verification/Initd_Prelude.thy ===== *)
theory Initd_Prelude
  imports Main "HOL-Library.Word"
begin

text \<open>
  Shared vocabulary of the development: the machine types the code uses, how an
  operation that changes a state reports exceptions and failed assertions, the decimal
  output of \<^verbatim>\<open>operator<<\<close> for unsigned numbers, and generic lemmas on
  lists, counting and words that several components need.
\<close>

section \<open>Machine types and outcomes\<close>

text \<open>
  \<open>size_t\<close> is the 64-bit unsigned type of the platform; its arithmetic wraps.
\<close>

type_synonym size_t = "64 word"
type_synonym uint32 = "32 word"

text \<open>
  A state-changing operation returns the new state together with how it ended:
  normally, by a thrown \<^verbatim>\<open>std::runtime_error\<close> (whose message is kept), or by an
  \<^verbatim>\<open>assert\<close> that failed or undefined behaviour that was reached. After an
  exception the state holds whatever had been changed before the throw, as in C++.
\<close>

datatype outcome = Done | Threw string | Aborted string

text \<open>
  A pure computation that can only fail by an assertion or undefined behaviour. The third
  value is not one of the program: a model of a loop that recurses on fuel returns it when
  the fuel is used up, and the fuel theorems exclude it.
\<close>

datatype fault = Assertion_failed string | Undefined_behaviour string | Out_of_fuel

type_synonym 'a faulty = "fault + 'a"

definition bind_faulty :: "'a faulty \<Rightarrow> ('a \<Rightarrow> 'b faulty) \<Rightarrow> 'b faulty" where
  "bind_faulty m f = (case m of Inl e \<Rightarrow> Inl e | Inr x \<Rightarrow> f x)"

definition and_then :: "'s \<times> outcome \<Rightarrow> ('s \<Rightarrow> 's \<times> outcome) \<Rightarrow> 's \<times> outcome" where
  "and_then r f = (case r of (s, x) \<Rightarrow> (if x = Done then f s else (s, x)))"

text \<open>A range-based \<^verbatim>\<open>for\<close> loop whose body may throw: it stops at the first throw.\<close>

fun for_each :: "('a \<Rightarrow> 's \<Rightarrow> 's \<times> outcome) \<Rightarrow> 'a list \<Rightarrow> 's \<Rightarrow> 's \<times> outcome" where
  "for_each f [] s = (s, Done)"
| "for_each f (x # xs) s = and_then (f x s) (for_each f xs)"

section \<open>Collections of hints\<close>

named_theorems outcome_simps \<open>evaluation of sequencing\<close>

lemma bind_faulty_simps [simp, outcome_simps]:
  "bind_faulty (Inl e) f = Inl e"
  "bind_faulty (Inr x) f = f x"
  by (simp_all add: bind_faulty_def)

lemma bind_faulty_Inr_iff:
  "bind_faulty m f = Inr y \<longleftrightarrow> (\<exists>x. m = Inr x \<and> f x = Inr y)"
  by (cases m) auto

lemma bind_faulty_Inl_iff:
  "bind_faulty m f = Inl e \<longleftrightarrow> m = Inl e \<or> (\<exists>x. m = Inr x \<and> f x = Inl e)"
  by (cases m) auto

lemma bind_faulty_cong [fundef_cong]:
  "m = m' \<Longrightarrow> (\<And>x. m' = Inr x \<Longrightarrow> f x = g x) \<Longrightarrow> bind_faulty m f = bind_faulty m' g"
  by (cases m') auto

lemma and_then_simps [simp, outcome_simps]:
  "and_then (s, Done) f = f s"
  "and_then (s, Threw m) f = (s, Threw m)"
  "and_then (s, Aborted a) f = (s, Aborted a)"
  by (simp_all add: and_then_def)

text \<open>An invariant of the body is an invariant of the sequence, however it ends.\<close>

lemma and_then_inv:
  assumes "P (fst r)" and "\<And>s. P s \<Longrightarrow> P (fst (f s))"
  shows "P (fst (and_then r f))"
  using assms by (cases r) (auto simp: and_then_def)

lemma for_each_inv:
  assumes "P s" and "\<And>x s. x \<in> set xs \<Longrightarrow> P s \<Longrightarrow> P (fst (f x s))"
  shows "P (fst (for_each f xs s))"
  using assms
proof (induction xs arbitrary: s)
  case Nil
  then show ?case by simp
next
  case (Cons x xs)
  show ?case
    unfolding for_each.simps
    by (rule and_then_inv) (use Cons in auto)
qed

lemma and_then_fst:
  "snd r = Done \<Longrightarrow> and_then r f = f (fst r)" "snd r \<noteq> Done \<Longrightarrow> and_then r f = r"
  by (cases r; simp add: and_then_def)+

lemma and_then_DoneE:
  assumes "snd (and_then r f) = Done"
  shows "snd r = Done" "snd (f (fst r)) = Done" "and_then r f = f (fst r)"
  using assms by (cases r; auto simp: and_then_def split: if_splits)+

lemma and_then_Done_inv:
  assumes "snd (and_then r f) = Done" and "snd r = Done \<Longrightarrow> P (fst r)"
    and "\<And>s. P s \<Longrightarrow> snd (f s) = Done \<Longrightarrow> P (fst (f s))"
  shows "P (fst (and_then r f))"
  using and_then_DoneE [OF assms(1)] assms(2,3) by simp

lemma for_each_Done_inv:
  assumes "snd (for_each f xs s) = Done" and "P s"
    and "\<And>x s. x \<in> set xs \<Longrightarrow> P s \<Longrightarrow> snd (f x s) = Done \<Longrightarrow> P (fst (f x s))"
  shows "P (fst (for_each f xs s))"
  using assms
proof (induction xs arbitrary: s)
  case (Cons x xs)
  note D = and_then_DoneE [OF Cons.prems(1) [unfolded for_each.simps]]
  show ?case
    unfolding for_each.simps D(3)
    by (rule Cons.IH) (use D Cons.prems in auto)
qed simp

text \<open>A body that never aborts gives a loop that never aborts.\<close>

definition aborted :: "'s \<times> outcome \<Rightarrow> bool" where
  "aborted r = (case snd r of Aborted _ \<Rightarrow> True | _ \<Rightarrow> False)"

lemma aborted_simps [simp]:
  "\<not> aborted (s, Done)" "\<not> aborted (s, Threw m)" "aborted (s, Aborted a)"
  by (simp_all add: aborted_def)

lemma aborted_and_then: "aborted r \<Longrightarrow> aborted (and_then r f)"
  by (cases r) (auto simp: aborted_def and_then_def split: outcome.splits)

lemma and_then_not_aborted:
  assumes "\<not> aborted r" and "\<not> aborted (f (fst r))"
  shows "\<not> aborted (and_then r f)"
  using assms by (cases r) (auto simp: and_then_def)

lemma for_each_not_aborted:
  assumes "P s"
    and "\<And>x s. x \<in> set xs \<Longrightarrow> P s \<Longrightarrow> P (fst (f x s)) \<and> \<not> aborted (f x s)"
  shows "\<not> aborted (for_each f xs s)"
  using assms
proof (induction xs arbitrary: s)
  case Nil
  then show ?case by simp
next
  case (Cons x xs)
  show ?case
    unfolding for_each.simps
    by (rule and_then_not_aborted) (use Cons in auto)
qed

section \<open>Decimal output\<close>

definition digit_char :: "nat \<Rightarrow> char" where
  "digit_char d = char_of (48 + d)"

fun show_nat :: "nat \<Rightarrow> string" where
  "show_nat n = (if n < 10 then [digit_char n] else show_nat (n div 10) @ [digit_char (n mod 10)])"

declare show_nat.simps [simp del]

definition show_int :: "int \<Rightarrow> string" where
  "show_int i = (if i < 0 then ''-'' @ show_nat (nat (- i)) else show_nat (nat i))"

section \<open>Lists and counting\<close>

lemma nth_list_update_if:
  "(xs[i := x]) ! j = (if i = j \<and> i < length xs then x else xs ! j)"
  by (cases "i < length xs") (auto simp: not_less list_update_beyond nth_list_update)

text \<open>
  How the number of list elements with a property changes when the property changes at
  one point: by the multiplicity of that point. This is the arithmetic behind every
  reference counter of the task graph.
\<close>

lemma length_filter_gain:
  assumes "\<not> P i"
  shows "length (filter (\<lambda>x. x = i \<or> P x) xs) = length (filter P xs) + count_list xs i"
  using assms by (induction xs) auto

lemma length_filter_lose:
  assumes "P i"
  shows "length (filter P xs) = length (filter (\<lambda>x. x \<noteq> i \<and> P x) xs) + count_list xs i"
  using assms by (induction xs) auto

lemma of_nat_size_t_eq_0_iff:
  "n < 2 ^ 64 \<Longrightarrow> (of_nat n :: size_t) = 0 \<longleftrightarrow> n = 0"
  by (auto simp: word_of_nat_eq_0_iff dest: dvd_imp_le)

end
