(* ===== verification/Std_Multimap.thy ===== *)
theory Std_Multimap
  imports Initd_Prelude "HOL-Library.List_Lexorder" "HOL-Library.Char_ord"
begin

text \<open>
  The ordered containers of the C++ standard library that the program uses:
  \<^verbatim>\<open>std::multimap\<close> (entries ordered by key, equal keys in insertion order, as C++11
  guarantees) and \<^verbatim>\<open>std::map\<close> (an insertion of a present key does nothing).
  Keys are mostly \<^verbatim>\<open>std::string\<close>, compared as sequences of unsigned bytes, which is
  the order \<open>List_Lexorder\<close> and \<open>Char_ord\<close> give \<^typ>\<open>string\<close>.
  The clients only use the laws of the two locales below.
\<close>

section \<open>The interfaces\<close>

locale ordered_multimap =
  fixes empty :: "'m"
    and insert :: "'k::linorder \<Rightarrow> 'v \<Rightarrow> 'm \<Rightarrow> 'm"
    and find :: "'m \<Rightarrow> 'k \<Rightarrow> 'v option"
    and entries :: "'m \<Rightarrow> ('k \<times> 'v) list"
    and invar :: "'m \<Rightarrow> bool"
  assumes entries_empty: "entries empty = []"
    and entries_insert: "invar m \<Longrightarrow> \<exists>xs ys. entries m = xs @ ys \<and>
          entries (insert k v m) = xs @ (k, v) # ys \<and>
          (\<forall>e \<in> set xs. fst e \<le> k) \<and> (\<forall>e \<in> set ys. k < fst e)"
    and find_entries: "invar m \<Longrightarrow> find m k = map_of (entries m) k"
    and invar_sorted: "invar m \<Longrightarrow> sorted (map fst (entries m))"
    and invar_empty: "invar empty"
    and invar_insert: "invar m \<Longrightarrow> invar (insert k v m)"
begin

lemma set_entries_insert:
  "invar m \<Longrightarrow> set (entries (insert k v m)) = Set.insert (k, v) (set (entries m))"
  using entries_insert [of m k v] by auto

lemma length_entries_insert:
  "invar m \<Longrightarrow> length (entries (insert k v m)) = Suc (length (entries m))"
  using entries_insert [of m k v] by auto

text \<open>Equal keys keep their insertion order; other keys are not affected.\<close>

lemma equal_range_insert:
  assumes "invar m"
  shows "filter (\<lambda>e. fst e = k') (entries (insert k v m)) =
         filter (\<lambda>e. fst e = k') (entries m) @ (if k = k' then [(k, v)] else [])"
proof -
  obtain xs ys where e: "entries m = xs @ ys" "entries (insert k v m) = xs @ (k, v) # ys"
    and hi: "\<forall>e \<in> set ys. k < fst e"
    using entries_insert [OF assms, of k v] by blast
  have "filter (\<lambda>e. fst e = k) ys = []"
    using hi by (auto simp: filter_empty_conv)
  with e show ?thesis by auto
qed

text \<open>The first binding of a key stays the one that is found.\<close>

lemma find_insert:
  assumes "invar m"
  shows "find (insert k v m) k' =
         (if k' = k then (case find m k of None \<Rightarrow> Some v | Some v' \<Rightarrow> Some v') else find m k')"
proof -
  obtain xs ys where e: "entries m = xs @ ys" "entries (insert k v m) = xs @ (k, v) # ys"
    and hi: "\<forall>e \<in> set ys. k < fst e"
    using entries_insert [OF assms, of k v] by blast
  have "map_of ys k = None"
    using hi by (auto simp: map_of_eq_None_iff)
  with e show ?thesis
    using assms by (auto simp: find_entries invar_insert map_add_def split: option.splits)
qed

text \<open>A container filled by a loop over a list.\<close>

definition from_list :: "('k \<times> 'v) list \<Rightarrow> 'm" where
  "from_list kvs = foldl (\<lambda>m kv. insert (fst kv) (snd kv) m) empty kvs"

lemma from_list_snoc: "from_list (kvs @ [kv]) = insert (fst kv) (snd kv) (from_list kvs)"
  by (simp add: from_list_def)

lemma from_list_Nil: "from_list [] = empty"
  by (simp add: from_list_def)

lemma invar_from_list: "invar (from_list kvs)"
  by (induction kvs rule: rev_induct)
     (auto simp: from_list_Nil from_list_snoc invar_empty invar_insert)

lemma set_entries_from_list: "set (entries (from_list kvs)) = set kvs"
  by (induction kvs rule: rev_induct)
     (auto simp: from_list_Nil from_list_snoc entries_empty set_entries_insert invar_from_list)

lemma length_entries_from_list: "length (entries (from_list kvs)) = length kvs"
  by (induction kvs rule: rev_induct)
     (auto simp: from_list_Nil from_list_snoc entries_empty length_entries_insert invar_from_list)

lemma equal_range_from_list:
  "filter (\<lambda>e. fst e = k) (entries (from_list kvs)) = filter (\<lambda>e. fst e = k) kvs"
  by (induction kvs rule: rev_induct)
     (auto simp: from_list_Nil from_list_snoc entries_empty equal_range_insert invar_from_list)

lemma find_from_list: "find (from_list kvs) k = map_of kvs k"
proof (induction kvs rule: rev_induct)
  case Nil
  then show ?case by (simp add: from_list_Nil find_entries invar_empty entries_empty)
next
  case (snoc kv kvs)
  then show ?case
    by (auto simp: from_list_snoc find_insert invar_from_list map_add_def split: option.splits)
qed

end

locale ordered_map =
  fixes empty :: "'m"
    and insert :: "'k::linorder \<Rightarrow> 'v \<Rightarrow> 'm \<Rightarrow> 'm"
    and find :: "'m \<Rightarrow> 'k \<Rightarrow> 'v option"
    and invar :: "'m \<Rightarrow> bool"
  assumes find_empty: "find empty k = None"
    and find_insert: "invar m \<Longrightarrow> find (insert k v m) k' =
          (if k' = k then (case find m k of None \<Rightarrow> Some v | Some v' \<Rightarrow> Some v') else find m k')"
    and invar_empty: "invar empty"
    and invar_insert: "invar m \<Longrightarrow> invar (insert k v m)"
begin

text \<open>A container filled by a loop over a list: the first binding of a key wins.\<close>

definition insert_all :: "('k \<times> 'v) list \<Rightarrow> 'm \<Rightarrow> 'm" where
  "insert_all kvs m = foldl (\<lambda>m kv. insert (fst kv) (snd kv) m) m kvs"

lemma insert_all_simps:
  "insert_all [] m = m"
  "insert_all (kv # kvs) m = insert_all kvs (insert (fst kv) (snd kv) m)"
  by (simp_all add: insert_all_def)

lemma invar_insert_all: "invar m \<Longrightarrow> invar (insert_all kvs m)"
  by (induction kvs arbitrary: m) (simp_all add: insert_all_simps invar_insert)

lemma find_insert_all:
  "invar m \<Longrightarrow> find (insert_all kvs m) k =
     (case find m k of Some v \<Rightarrow> Some v | None \<Rightarrow> map_of kvs k)"
proof (induction kvs arbitrary: m)
  case Nil
  then show ?case by (simp add: insert_all_simps split: option.splits)
next
  case (Cons kv kvs)
  then show ?case
    by (cases kv) (auto simp: insert_all_simps invar_insert find_insert split: option.splits)
qed

end

section \<open>The model: sorted association lists\<close>

type_synonym ('k, 'v) multimap = "('k \<times> 'v) list"

text \<open>\<^verbatim>\<open>multimap::insert\<close> puts the entry at the upper bound of its key.\<close>

fun mm_insert :: "'k::linorder \<Rightarrow> 'v \<Rightarrow> ('k, 'v) multimap \<Rightarrow> ('k, 'v) multimap" where
  "mm_insert k v [] = [(k, v)]"
| "mm_insert k v ((k', v') # m) =
     (if k < k' then (k, v) # (k', v') # m else (k', v') # mm_insert k v m)"

text \<open>\<^verbatim>\<open>find\<close> gives the lower bound, the first of the equal keys.\<close>

fun mm_find :: "('k, 'v) multimap \<Rightarrow> 'k \<Rightarrow> 'v option" where
  "mm_find [] k = None"
| "mm_find ((k', v') # m) k = (if k' = k then Some v' else mm_find m k)"

text \<open>\<^verbatim>\<open>std::map::insert\<close>.\<close>

fun map_insert :: "'k::linorder \<Rightarrow> 'v \<Rightarrow> ('k \<times> 'v) list \<Rightarrow> ('k \<times> 'v) list" where
  "map_insert k v [] = [(k, v)]"
| "map_insert k v ((k', v') # m) =
     (if k < k' then (k, v) # (k', v') # m
      else if k = k' then (k', v') # m
      else (k', v') # map_insert k v m)"

definition map_invar :: "('k::linorder \<times> 'v) list \<Rightarrow> bool" where
  "map_invar m \<longleftrightarrow> sorted (map fst m) \<and> distinct (map fst m)"

lemma mm_find_map_of: "mm_find m k = map_of m k"
  by (induction m) auto

lemma set_mm_insert [simp]: "set (mm_insert k v m) = insert (k, v) (set m)"
  by (induction k v m rule: mm_insert.induct) auto

lemma sorted_mm_insert: "sorted (map fst m) \<Longrightarrow> sorted (map fst (mm_insert k v m))"
  by (induction k v m rule: mm_insert.induct) fastforce+

lemma mm_insert_split:
  "sorted (map fst m) \<Longrightarrow> \<exists>xs ys. m = xs @ ys \<and> mm_insert k v m = xs @ (k, v) # ys \<and>
     (\<forall>e \<in> set xs. fst e \<le> k) \<and> (\<forall>e \<in> set ys. k < fst e)"
proof (induction k v m rule: mm_insert.induct)
  case (1 k v)
  then show ?case by auto
next
  case (2 k v k' v' m)
  show ?case
  proof (cases "k < k'")
    case True
    with "2.prems" show ?thesis
      by (intro exI [of _ "[]"] exI [of _ "(k', v') # m"]) fastforce
  next
    case False
    then obtain xs ys where "m = xs @ ys" "mm_insert k v m = xs @ (k, v) # ys"
      "\<forall>e \<in> set xs. fst e \<le> k" "\<forall>e \<in> set ys. k < fst e"
      using "2.IH" "2.prems" by auto
    with False show ?thesis
      by (intro exI [of _ "(k', v') # xs"] exI [of _ ys]) auto
  qed
qed

interpretation mm: ordered_multimap "[]" mm_insert mm_find "\<lambda>m. m" "\<lambda>m. sorted (map fst m)"
  by unfold_locales (auto simp: mm_find_map_of sorted_mm_insert mm_insert_split)

lemma set_fst_map_insert: "fst ` set (map_insert k v m) = insert k (fst ` set m)"
  by (induction k v m rule: map_insert.induct) auto

lemma map_invar_map_insert: "map_invar m \<Longrightarrow> map_invar (map_insert k v m)"
proof (induction k v m rule: map_insert.induct)
  case (2 k v k' v' m)
  have "fst ` set (map_insert k v m) = insert k (fst ` set m)"
    by (rule set_fst_map_insert)
  with 2 show ?case
    by (auto simp: map_invar_def)
qed (simp add: map_invar_def)

lemma mm_find_map_insert:
  assumes "map_invar m"
  shows "mm_find (map_insert k v m) k' =
   (if k' = k then (case mm_find m k of None \<Rightarrow> Some v | Some v' \<Rightarrow> Some v') else mm_find m k')"
  using assms
proof (induction k v m rule: map_insert.induct)
  case (1 k v)
  then show ?case by simp
next
  case (2 k v k1 v1 m)
  show ?case
  proof (cases "k < k1")
    case True
    with "2.prems" have "mm_find m k = None" "k \<noteq> k1"
      by (auto simp: map_invar_def mm_find_map_of map_of_eq_None_iff)
    with True show ?thesis by simp
  next
    case False
    with 2 show ?thesis by (auto simp: map_invar_def)
  qed
qed

interpretation smap: ordered_map "[]" map_insert mm_find map_invar
  by unfold_locales (simp_all add: mm_find_map_insert map_invar_map_insert, simp add: map_invar_def)

end
