(* ===== verification/Config_Data.thy ===== *)
theory Config_Data
  imports Std_Multimap
begin

unbundle bit_operations_syntax

text \<open>
  The configuration data of \<^verbatim>\<open>libinitd-config\<close>: the payload of each kind of task, the
  task descriptions with their dependencies, and the run levels. A
  \<^verbatim>\<open>task_description*\<close> points to an element of \<^verbatim>\<open>all_tasks\<close> that is never removed or
  moved (the vector owns it through a \<^verbatim>\<open>unique_ptr\<close>), so it is modelled by the
  element's index.
\<close>

section \<open>Task data\<close>

record cmd_line =
  executable :: string
  arguments :: "string list"

record command =
  cmd :: cmd_line
  working_directory :: string

record hostname_task_data =
  hostname :: string
  no_restore :: bool

record start_stop_task_data =
  start_command :: command
  stop_command :: command

record control_task_data =
  uds_filename :: string

text \<open>
  \<^verbatim>\<open>enum class mount_options\<close> and \<^verbatim>\<open>umount_options\<close> are bit sets over the underlying
  type \<^verbatim>\<open>int\<close>; the enumerators are given by their bits.
\<close>

type_synonym mount_options = "32 word"
type_synonym umount_options = "32 word"

datatype mount_option =
    Mo_dirsync | Mo_mandlock | Mo_noatime | Mo_nodev | Mo_nodiratime | Mo_noexec
  | Mo_nosuid | Mo_rdonly | Mo_relatime | Mo_silent | Mo_strictatime

fun mount_option_value :: "mount_option \<Rightarrow> mount_options" where
  "mount_option_value Mo_dirsync = 0x001"
| "mount_option_value Mo_mandlock = 0x002"
| "mount_option_value Mo_noatime = 0x004"
| "mount_option_value Mo_nodev = 0x008"
| "mount_option_value Mo_nodiratime = 0x010"
| "mount_option_value Mo_noexec = 0x020"
| "mount_option_value Mo_nosuid = 0x040"
| "mount_option_value Mo_rdonly = 0x080"
| "mount_option_value Mo_relatime = 0x100"
| "mount_option_value Mo_silent = 0x200"
| "mount_option_value Mo_strictatime = 0x400"

definition mount_options_none :: mount_options where
  "mount_options_none = 0"

definition umount_options_none :: umount_options where
  "umount_options_none = 0"

definition umount_options_lazy :: umount_options where
  "umount_options_lazy = 0x001"

definition mount_options_and :: "mount_options \<Rightarrow> mount_options \<Rightarrow> mount_options" where
  "mount_options_and a b = a AND b"

definition mount_options_or :: "mount_options \<Rightarrow> mount_options \<Rightarrow> mount_options" where
  "mount_options_or a b = a OR b"

definition umount_options_and :: "umount_options \<Rightarrow> umount_options \<Rightarrow> umount_options" where
  "umount_options_and a b = a AND b"

definition umount_options_or :: "umount_options \<Rightarrow> umount_options \<Rightarrow> umount_options" where
  "umount_options_or a b = a OR b"

record mount_task_data =
  device_name :: string
  mount_point :: string
  filesystem_type :: string
  moptions :: mount_options
  uoptions :: umount_options

text \<open>\<^verbatim>\<open>boost::variant\<close> of the five payloads.\<close>

datatype task_data =
    Mount_task mount_task_data
  | Hostname_task hostname_task_data
  | Start_stop_task start_stop_task_data
  | Control_task control_task_data
  | Null_task

section \<open>Descriptions\<close>

record task_description =
  td_name :: string
  td_data :: task_data
  td_dependencies :: "nat list"

record task_descriptions =
  all_tasks :: "task_description list"
  task_by_name :: "(string, nat) multimap"
  run_level_by_name :: "(string \<times> nat list) list"

definition empty_descriptions :: task_descriptions where
  "empty_descriptions = \<lparr>all_tasks = [], task_by_name = [], run_level_by_name = []\<rparr>"

definition new_task_description :: "string \<Rightarrow> task_data \<Rightarrow> task_description" where
  "new_task_description name d = \<lparr>td_name = name, td_data = d, td_dependencies = []\<rparr>"

text \<open>\<^verbatim>\<open>all_tasks.back().get()\<close> is the index of the element just pushed.\<close>

definition create_task_description ::
    "string \<Rightarrow> task_data \<Rightarrow> task_descriptions \<Rightarrow> nat \<times> task_descriptions" where
  "create_task_description name d tds =
     (let tasks = all_tasks tds @ [new_task_description name d];
          p = length tasks - 1
      in (p, tds\<lparr>all_tasks := tasks,
                 task_by_name := mm_insert name p (task_by_name tds)\<rparr>))"

definition create_run_level :: "string \<Rightarrow> nat list \<Rightarrow> task_descriptions \<Rightarrow> task_descriptions" where
  "create_run_level name requisites tds =
     tds\<lparr>run_level_by_name := map_insert name requisites (run_level_by_name tds)\<rparr>"

text \<open>\<^verbatim>\<open>run_level::all\<close>: every task is a requisite.\<close>

definition run_level_all :: "task_descriptions \<Rightarrow> nat list" where
  "run_level_all tds = [0..<length (all_tasks tds)]"

text \<open>
  Appending to \<^verbatim>\<open>get_dependencies()\<close> through the reference it returns.
\<close>

definition push_dependency :: "nat \<Rightarrow> nat \<Rightarrow> task_descriptions \<Rightarrow> task_descriptions" where
  "push_dependency p dep tds =
     tds\<lparr>all_tasks := (all_tasks tds)[p := (all_tasks tds ! p)
           \<lparr>td_dependencies := td_dependencies (all_tasks tds ! p) @ [dep]\<rparr>]\<rparr>"

section \<open>Well-formed descriptions\<close>

text \<open>
  Every pointer is into \<^verbatim>\<open>all_tasks\<close>, both containers are ordered, and the name index
  holds exactly the tasks under their names.
\<close>

definition wf_descriptions :: "task_descriptions \<Rightarrow> bool" where
  "wf_descriptions tds \<longleftrightarrow>
     (\<forall>td \<in> set (all_tasks tds). \<forall>d \<in> set (td_dependencies td). d < length (all_tasks tds)) \<and>
     set (task_by_name tds) = (\<lambda>i. (td_name (all_tasks tds ! i), i)) ` {..<length (all_tasks tds)} \<and>
     sorted (map fst (task_by_name tds)) \<and>
     (\<forall>(n, rs) \<in> set (run_level_by_name tds). \<forall>r \<in> set rs. r < length (all_tasks tds)) \<and>
     map_invar (run_level_by_name tds)"

lemma wf_empty_descriptions [simp]: "wf_descriptions empty_descriptions"
  by (simp add: wf_descriptions_def empty_descriptions_def map_invar_def)

lemma set_map_insert: "set (map_insert k v m) \<subseteq> insert (k, v) (set m)"
  by (induction k v m rule: map_insert.induct) auto

lemma all_tasks_create [simp]:
  "all_tasks (snd (create_task_description name d tds)) =
     all_tasks tds @ [new_task_description name d]"
  "fst (create_task_description name d tds) = length (all_tasks tds)"
  "task_by_name (snd (create_task_description name d tds)) =
     mm_insert name (length (all_tasks tds)) (task_by_name tds)"
  "run_level_by_name (snd (create_task_description name d tds)) = run_level_by_name tds"
  by (simp_all add: create_task_description_def Let_def)

lemma wf_create_task_description:
  assumes wf: "wf_descriptions tds"
  shows "wf_descriptions (snd (create_task_description name d tds))"
proof -
  let ?n = "length (all_tasks tds)" and ?t = "new_task_description name d"
  have "(\<lambda>i. (td_name ((all_tasks tds @ [?t]) ! i), i)) ` {..<?n} =
        (\<lambda>i. (td_name (all_tasks tds ! i), i)) ` {..<?n}"
    by (rule image_cong) (simp_all add: nth_append)
  then have index: "set (mm_insert name ?n (task_by_name tds)) =
      (\<lambda>i. (td_name ((all_tasks tds @ [?t]) ! i), i)) ` {..<Suc ?n}"
    using wf by (simp add: wf_descriptions_def lessThan_Suc) (simp add: new_task_description_def)
  have deps: "\<forall>td \<in> set (all_tasks tds @ [?t]). \<forall>d \<in> set (td_dependencies td). d < Suc ?n"
    using wf by (auto simp: wf_descriptions_def new_task_description_def intro: less_SucI)
  have levels: "\<forall>(n, rs) \<in> set (run_level_by_name tds). \<forall>r \<in> set rs. r < Suc ?n"
    using wf by (fastforce simp: wf_descriptions_def intro: less_SucI)
  show ?thesis
    using wf deps levels index
    by (simp add: wf_descriptions_def sorted_mm_insert del: set_mm_insert)
qed

lemma wf_create_run_level:
  assumes "wf_descriptions tds" and "\<forall>r \<in> set rs. r < length (all_tasks tds)"
  shows "wf_descriptions (create_run_level name rs tds)"
  using assms set_map_insert [of name rs "run_level_by_name tds"]
  by (fastforce simp: wf_descriptions_def create_run_level_def map_invar_map_insert)

lemma all_tasks_push_dependency:
  "all_tasks (push_dependency p dep tds) =
     (all_tasks tds)[p := (all_tasks tds ! p)
           \<lparr>td_dependencies := td_dependencies (all_tasks tds ! p) @ [dep]\<rparr>]"
  by (simp add: push_dependency_def)

lemma wf_push_dependency:
  assumes wf: "wf_descriptions tds" and p: "p < length (all_tasks tds)"
    and dep: "dep < length (all_tasks tds)"
  shows "wf_descriptions (push_dependency p dep tds)"
proof -
  let ?t = "(all_tasks tds ! p)\<lparr>td_dependencies := td_dependencies (all_tasks tds ! p) @ [dep]\<rparr>"
  have names: "td_name ((all_tasks tds)[p := ?t] ! i) = td_name (all_tasks tds ! i)" for i
    by (simp add: nth_list_update_if)
  have "\<forall>d \<in> set (td_dependencies ?t). d < length (all_tasks tds)"
    using wf p dep by (auto simp: wf_descriptions_def dest: nth_mem)
  moreover have "set ((all_tasks tds)[p := ?t]) \<subseteq> insert ?t (set (all_tasks tds))"
    by (rule set_update_subset_insert)
  ultimately have "\<forall>td \<in> set ((all_tasks tds)[p := ?t]). \<forall>d \<in> set (td_dependencies td).
      d < length (all_tasks tds)"
    using wf unfolding wf_descriptions_def by blast
  with wf show ?thesis
    by (simp add: wf_descriptions_def push_dependency_def names)
qed

end
