(* ===== verification/Sysapi_Errors.thy ===== *)
theory Sysapi_Errors
  imports Config_Data
begin

text \<open>
  The error numbers of \<^verbatim>\<open>libsysapi/errors.cpp\<close>. An \<^verbatim>\<open>errno\<close> value is given by its
  symbolic name, because that is how the code refers to it; values the code has no name
  for are kept as their number. The text of \<^verbatim>\<open>strerror_r\<close> is a parameter.
\<close>

datatype errno =
    EPERM | ENOENT | ESRCH | EINTR | EIO | ENXIO | E2BIG | ENOEXEC | EBADF | ECHILD | EAGAIN
    | ENOMEM | EACCES | EFAULT | ENOTBLK | EBUSY | EEXIST | EXDEV | ENODEV | ENOTDIR
    | EISDIR | EINVAL | ENFILE | EMFILE | ENOTTY | ETXTBSY | EFBIG | ENOSPC | ESPIPE | EROFS
    | EMLINK | EPIPE | EDOM | ERANGE | EDEADLK | ENAMETOOLONG | ENOLCK | ENOSYS | ENOTEMPTY
    | ELOOP | ENOMSG | ECONNREFUSED
  | Errno nat

fun errno_to_name :: "errno \<Rightarrow> string" where
  "errno_to_name EPERM = ''EPERM''"
| "errno_to_name ENOENT = ''ENOENT''"
| "errno_to_name ESRCH = ''ESRCH''"
| "errno_to_name EINTR = ''EINTR''"
| "errno_to_name EIO = ''EIO''"
| "errno_to_name ENXIO = ''ENXIO''"
| "errno_to_name E2BIG = ''E2BIG''"
| "errno_to_name ENOEXEC = ''ENOEXEC''"
| "errno_to_name EBADF = ''EBADF''"
| "errno_to_name ECHILD = ''ECHILD''"
| "errno_to_name EAGAIN = ''EAGAIN''"
| "errno_to_name ENOMEM = ''ENOMEM''"
| "errno_to_name EACCES = ''EACCES''"
| "errno_to_name EFAULT = ''EFAULT''"
| "errno_to_name ENOTBLK = ''ENOTBLK''"
| "errno_to_name EBUSY = ''EBUSY''"
| "errno_to_name EEXIST = ''EEXIST''"
| "errno_to_name EXDEV = ''EXDEV''"
| "errno_to_name ENODEV = ''ENODEV''"
| "errno_to_name ENOTDIR = ''ENOTDIR''"
| "errno_to_name EISDIR = ''EISDIR''"
| "errno_to_name EINVAL = ''EINVAL''"
| "errno_to_name ENFILE = ''ENFILE''"
| "errno_to_name EMFILE = ''EMFILE''"
| "errno_to_name ENOTTY = ''ENOTTY''"
| "errno_to_name ETXTBSY = ''ETXTBSY''"
| "errno_to_name EFBIG = ''EFBIG''"
| "errno_to_name ENOSPC = ''ENOSPC''"
| "errno_to_name ESPIPE = ''ESPIPE''"
| "errno_to_name EROFS = ''EROFS''"
| "errno_to_name EMLINK = ''EMLINK''"
| "errno_to_name EPIPE = ''EPIPE''"
| "errno_to_name EDOM = ''EDOM''"
| "errno_to_name ERANGE = ''ERANGE''"
| "errno_to_name EDEADLK = ''EDEADLK''"
| "errno_to_name ENAMETOOLONG = ''ENAMETOOLONG''"
| "errno_to_name ENOLCK = ''ENOLCK''"
| "errno_to_name ENOSYS = ''ENOSYS''"
| "errno_to_name ENOTEMPTY = ''ENOTEMPTY''"
| "errno_to_name ELOOP = ''ELOOP''"
| "errno_to_name ENOMSG = ''ENOMSG''"
| "errno_to_name ECONNREFUSED = ''ECONNREFUSED''"
| "errno_to_name (Errno n) = show_nat n"

definition errno_to_text :: "(errno \<Rightarrow> string) \<Rightarrow> errno \<Rightarrow> string" where
  "errno_to_text strerror e = errno_to_name e @ '' ('' @ strerror e @ '')''"

end
