(* ===== verification/Sync_Tasks.thy ===== *)
theory Sync_Tasks
  imports Sysapi_Errors
begin

text \<open>
  The synchronous tasks of \<^verbatim>\<open>libinitd/tasks/synchronous\<close>: setting a host name, mounting
  a file system (directly or over a loop device), the control socket and the null task.
  Creating a task object acquires its effect, destroying it reverts the effect. The
  operating system is a parameter: a record of the system calls the code makes, over a
  world of any type \<open>'w\<close>; every call returns its result and the changed world.
  Output to \<^verbatim>\<open>std::cerr\<close> is not modelled.
\<close>

section \<open>The system calls\<close>

text \<open>
  What a forked child does: change to a directory and execute a program with an argument
  vector (\<^verbatim>\<open>sysapi::set_current_directory\<close>, \<^verbatim>\<open>sysapi::execv\<close>).
\<close>

record child_program =
  child_directory :: string
  child_path :: string
  child_argv :: "string list"

record 'w os =
  os_strerror :: "errno \<Rightarrow> string"
  os_ms_flag :: "mount_option \<Rightarrow> size_t"
  os_mnt_detach :: "32 word"
  os_sun_path_size :: nat
  os_fork :: "child_program \<Rightarrow> 'w \<Rightarrow> (errno + nat) \<times> 'w"
  os_waitpid_any :: "'w \<Rightarrow> (errno + (nat \<times> int) option) \<times> 'w"
  os_gethostname :: "'w \<Rightarrow> (errno + string) \<times> 'w"
  os_sethostname :: "string \<Rightarrow> 'w \<Rightarrow> errno option \<times> 'w"
  os_mount :: "string \<Rightarrow> string \<Rightarrow> string \<Rightarrow> size_t \<Rightarrow> 'w \<Rightarrow> errno option \<times> 'w"
  os_umount2 :: "string \<Rightarrow> 32 word \<Rightarrow> 'w \<Rightarrow> errno option \<times> 'w"
  os_open :: "string \<Rightarrow> 'w \<Rightarrow> (errno + nat) \<times> 'w"
  os_close :: "nat \<Rightarrow> 'w \<Rightarrow> 'w"
  os_loop_set_fd :: "nat \<Rightarrow> nat \<Rightarrow> 'w \<Rightarrow> errno option \<times> 'w"
  os_loop_clr_fd :: "nat \<Rightarrow> 'w \<Rightarrow> errno option \<times> 'w"
  os_socket :: "'w \<Rightarrow> (errno + nat) \<times> 'w"
  os_bind :: "nat \<Rightarrow> string \<Rightarrow> 'w \<Rightarrow> errno option \<times> 'w"
  os_listen :: "nat \<Rightarrow> 'w \<Rightarrow> errno option \<times> 'w"
  os_epoll_add :: "nat \<Rightarrow> 'w \<Rightarrow> errno option \<times> 'w"
  os_epoll_del :: "nat \<Rightarrow> 'w \<Rightarrow> 'w"
  os_unlink :: "string \<Rightarrow> 'w \<Rightarrow> errno option \<times> 'w"

text \<open>\<^verbatim>\<open>c_str()\<close> as the kernel reads it: up to the first NUL.\<close>

definition c_str :: "string \<Rightarrow> string" where
  "c_str s = takeWhile (\<lambda>c. c \<noteq> CHR 0x00) s"

section \<open>Host name\<close>

text \<open>The exception message of a failed call, or \<open>None\<close>.\<close>

definition set_hostname :: "'w os \<Rightarrow> string \<Rightarrow> 'w \<Rightarrow> string option \<times> 'w" where
  "set_hostname os hname w =
     (case os_sethostname os hname w of
        (None, w') \<Rightarrow> (None, w')
      | (Some err, w') \<Rightarrow>
          (Some (''unable to set hostname, error: '' @ errno_to_text (os_strerror os) err @
             (case err of
                EPERM \<Rightarrow> '', you must be a root or have the CAP_SYS_ADMIN capability to set a hostname''
              | EINVAL \<Rightarrow> '', hostname is too long ('' @ show_nat (length hname) @ '')''
              | _ \<Rightarrow> '''')), w'))"

definition get_hostname :: "'w os \<Rightarrow> 'w \<Rightarrow> (string + string) \<times> 'w" where
  "get_hostname os w =
     (case os_gethostname os w of
        (Inr h, w') \<Rightarrow> (Inr h, w')
      | (Inl err, w') \<Rightarrow>
          (Inl (''unable to set hostname, error: '' @ errno_to_text (os_strerror os) err), w'))"

text \<open>The member of a \<^verbatim>\<open>hostname_task_handle\<close> is the host name to restore, if any.\<close>

definition hostname_task_create ::
    "'w os \<Rightarrow> hostname_task_data \<Rightarrow> 'w \<Rightarrow> (string + string option) \<times> 'w" where
  "hostname_task_create os d w =
     (if no_restore d then
        (case set_hostname os (hostname d) w of
           (Some e, w') \<Rightarrow> (Inl e, w')
         | (None, w') \<Rightarrow> (Inr None, w'))
      else
        (case get_hostname os w of
           (Inl e, w') \<Rightarrow> (Inl e, w')
         | (Inr t, w') \<Rightarrow>
             (case set_hostname os (hostname d) w' of
                (Some e, w'') \<Rightarrow> (Inl e, w'')
              | (None, w'') \<Rightarrow> (Inr (Some t), w''))))"

definition hostname_task_destroy :: "'w os \<Rightarrow> string option \<Rightarrow> 'w \<Rightarrow> 'w" where
  "hostname_task_destroy os old w =
     (case old of None \<Rightarrow> w | Some h \<Rightarrow> snd (set_hostname os h w))"

section \<open>Mounting\<close>

text \<open>One \<^verbatim>\<open>if\<close> of the translation: the option's bit set gives the system's flag.\<close>

definition add_mount_flag :: "'w os \<Rightarrow> mount_options \<Rightarrow> mount_option \<Rightarrow> size_t \<Rightarrow> size_t" where
  "add_mount_flag os m f result =
     (if mount_options_and m (mount_option_value f) \<noteq> mount_options_none
      then result OR os_ms_flag os f else result)"

definition mount_options_to_system_flags :: "'w os \<Rightarrow> mount_options \<Rightarrow> size_t" where
  "mount_options_to_system_flags os m =
     add_mount_flag os m Mo_strictatime
       (add_mount_flag os m Mo_silent
         (add_mount_flag os m Mo_relatime
           (add_mount_flag os m Mo_rdonly
             (add_mount_flag os m Mo_nosuid
               (add_mount_flag os m Mo_noexec
                 (add_mount_flag os m Mo_nodiratime
                   (add_mount_flag os m Mo_nodev
                     (add_mount_flag os m Mo_noatime
                       (add_mount_flag os m Mo_mandlock
                         (add_mount_flag os m Mo_dirsync 0))))))))))"

definition umount_options_to_system_flags :: "'w os \<Rightarrow> umount_options \<Rightarrow> 32 word" where
  "umount_options_to_system_flags os u =
     (if umount_options_and u umount_options_lazy \<noteq> umount_options_none
      then 0 OR os_mnt_detach os else 0)"

definition mount_error_hint :: "string \<Rightarrow> errno \<Rightarrow> string" where
  "mount_error_hint device err =
     (case err of
        EACCES \<Rightarrow> '', a component of path was not searchable or mounting a read-only file system without RDONLY flag or block device is located on a file system mounted with NODEV option''
      | EBUSY \<Rightarrow> '', device is already mounted or mount point is busy''
      | EINVAL \<Rightarrow> '', device has invalid super block''
      | EMFILE \<Rightarrow> '', table of dummy devices is full''
      | ENODEV \<Rightarrow> '', file system type is not configured in the kernel''
      | EPERM \<Rightarrow> '', you must be a root or have the CAP_SYS_ADMIN capability to mount a file system''
      | ENOTBLK \<Rightarrow> '', \"'' @ device @ ''\" is not a block device''
      | _ \<Rightarrow> '''')"

definition mount_filesystem ::
    "'w os \<Rightarrow> string \<Rightarrow> string \<Rightarrow> string \<Rightarrow> mount_options \<Rightarrow> 'w \<Rightarrow> string option \<times> 'w" where
  "mount_filesystem os device mpoint fstype m w =
     (case os_mount os (c_str device) (c_str mpoint) (c_str fstype)
             (mount_options_to_system_flags os m) w of
        (None, w') \<Rightarrow> (None, w')
      | (Some err, w') \<Rightarrow>
          (Some (''unable to mount filesystem \"'' @ device @ ''\" to \"'' @ mpoint @
             ''\", error: '' @ errno_to_text (os_strerror os) err @ mount_error_hint device err), w'))"

definition umount_filesystem ::
    "'w os \<Rightarrow> string \<Rightarrow> umount_options \<Rightarrow> 'w \<Rightarrow> string option \<times> 'w" where
  "umount_filesystem os mpoint u w =
     (case os_umount2 os (c_str mpoint) (umount_options_to_system_flags os u) w of
        (None, w') \<Rightarrow> (None, w')
      | (Some err, w') \<Rightarrow>
          (Some (''unable to umount filesystem \"'' @ mpoint @ ''\", error: '' @
             errno_to_text (os_strerror os) err @
             (case err of
                EBUSY \<Rightarrow> '', device could not be unmounted because it is busy''
              | EINVAL \<Rightarrow> '', path is not a mount point''
              | EPERM \<Rightarrow> '', you must be a root or have the CAP_SYS_ADMIN capability to unmount a file system''
              | _ \<Rightarrow> '''')), w'))"

text \<open>\<^verbatim>\<open>mounting_guard\<close>: mounted by its constructor, unmounted by its destructor.\<close>

definition mounting_guard_create ::
    "'w os \<Rightarrow> mount_task_data \<Rightarrow> 'w \<Rightarrow> (string + string \<times> umount_options) \<times> 'w" where
  "mounting_guard_create os d w =
     (case mount_filesystem os (device_name d) (mount_point d) (filesystem_type d) (moptions d) w of
        (Some e, w') \<Rightarrow> (Inl e, w')
      | (None, w') \<Rightarrow> (Inr (mount_point d, uoptions d), w'))"

definition mounting_guard_destroy :: "'w os \<Rightarrow> string \<times> umount_options \<Rightarrow> 'w \<Rightarrow> 'w" where
  "mounting_guard_destroy os g w = snd (umount_filesystem os (fst g) (snd g) w)"

section \<open>Loop devices\<close>

definition loop_device_filename :: "nat \<Rightarrow> string" where
  "loop_device_filename i = ''/dev/loop'' @ show_nat i"

definition open_file :: "'w os \<Rightarrow> string \<Rightarrow> 'w \<Rightarrow> (string + nat) \<times> 'w" where
  "open_file os filename w =
     (case os_open os (c_str filename) w of
        (Inr fd, w') \<Rightarrow> (Inr fd, w')
      | (Inl err, w') \<Rightarrow>
          (Inl (''unable to open file \"'' @ filename @ ''\", error: '' @
                errno_to_text (os_strerror os) err), w'))"

text \<open>\<^verbatim>\<open>try_setfd\<close>: a busy device is \<open>False\<close>, any other failure throws.\<close>

definition try_setfd :: "'w os \<Rightarrow> nat \<Rightarrow> nat \<Rightarrow> 'w \<Rightarrow> (string + bool) \<times> 'w" where
  "try_setfd os dev fd w =
     (case os_loop_set_fd os dev fd w of
        (None, w') \<Rightarrow> (Inr True, w')
      | (Some err, w') \<Rightarrow>
          (if err = EBUSY then (Inr False, w')
           else (Inl (''unable to ioctl LOOP_SET_FD, error: '' @
                      errno_to_text (os_strerror os) err), w')))"

text \<open>
  The search loop: the device descriptor of each round is closed at the end of its
  scope, also when an exception leaves it.
\<close>

fun find_free_loop :: "'w os \<Rightarrow> nat \<Rightarrow> nat list \<Rightarrow> 'w \<Rightarrow> (string + string) \<times> 'w" where
  "find_free_loop os fd [] w = (Inl ''no free loop device found'', w)"
| "find_free_loop os fd (i # is) w =
     (case open_file os (loop_device_filename i) w of
        (Inl e, w1) \<Rightarrow> (Inl e, w1)
      | (Inr dev, w1) \<Rightarrow>
          (case try_setfd os dev fd w1 of
             (Inl e, w2) \<Rightarrow> (Inl e, os_close os dev w2)
           | (Inr True, w2) \<Rightarrow> (Inr (loop_device_filename i), os_close os dev w2)
           | (Inr False, w2) \<Rightarrow> find_free_loop os fd is (os_close os dev w2)))"

definition loop_guard_create :: "'w os \<Rightarrow> string \<Rightarrow> 'w \<Rightarrow> (string + string) \<times> 'w" where
  "loop_guard_create os filename w =
     (case open_file os filename w of
        (Inl e, w1) \<Rightarrow> (Inl e, w1)
      | (Inr fd, w1) \<Rightarrow>
          (case find_free_loop os fd [0..<8] w1 of (r, w2) \<Rightarrow> (r, os_close os fd w2)))"

definition loop_guard_destroy :: "'w os \<Rightarrow> string \<Rightarrow> 'w \<Rightarrow> 'w" where
  "loop_guard_destroy os dev_name w =
     (case open_file os dev_name w of
        (Inl e, w1) \<Rightarrow> w1
      | (Inr dev, w1) \<Rightarrow> os_close os dev (snd (os_loop_clr_fd os dev w1)))"

text \<open>
  \<^verbatim>\<open>loop_mount_task_handle\<close>: the loop guard is constructed first, and destroyed when
  the mount fails.
\<close>

definition loop_mount_create ::
    "'w os \<Rightarrow> mount_task_data \<Rightarrow> 'w \<Rightarrow> (string + string \<times> (string \<times> umount_options)) \<times> 'w" where
  "loop_mount_create os d w =
     (case loop_guard_create os (device_name d) w of
        (Inl e, w1) \<Rightarrow> (Inl e, w1)
      | (Inr dev, w1) \<Rightarrow>
          (case mounting_guard_create os (d\<lparr>device_name := dev\<rparr>) w1 of
             (Inl e, w2) \<Rightarrow> (Inl e, loop_guard_destroy os dev w2)
           | (Inr g, w2) \<Rightarrow> (Inr (dev, g), w2)))"

definition loop_mount_destroy ::
    "'w os \<Rightarrow> string \<times> (string \<times> umount_options) \<Rightarrow> 'w \<Rightarrow> 'w" where
  "loop_mount_destroy os h w = loop_guard_destroy os (fst h) (mounting_guard_destroy os (snd h) w)"

section \<open>The control socket\<close>

definition sys_error :: "'w os \<Rightarrow> string \<Rightarrow> errno \<Rightarrow> string" where
  "sys_error os what err = what @ errno_to_text (os_strerror os) err"

text \<open>
  \<^verbatim>\<open>socket_address::unix_domain\<close> followed by the constructor of
  \<^verbatim>\<open>stream_server_socket\<close>: create, bind, listen, register with epoll. The descriptor is
  closed when a later step throws.
\<close>

definition server_socket_create :: "'w os \<Rightarrow> string \<Rightarrow> 'w \<Rightarrow> (string + nat) \<times> 'w" where
  "server_socket_create os path w =
     (if length path > os_sun_path_size os - 1
      then (Inl (''too long address \"'' @ path @ ''\"''), w)
      else
        (case os_socket os w of
           (Inl err, w1) \<Rightarrow> (Inl (sys_error os ''unable to create socket, error: '' err), w1)
         | (Inr fd, w1) \<Rightarrow>
             (case os_bind os fd (c_str path) w1 of
                (Some err, w2) \<Rightarrow>
                  (Inl (sys_error os ''unable to bind socket, error: '' err), os_close os fd w2)
              | (None, w2) \<Rightarrow>
                  (case os_listen os fd w2 of
                     (Some err, w3) \<Rightarrow>
                       (Inl (sys_error os ''unable to listen socket, error: '' err), os_close os fd w3)
                   | (None, w3) \<Rightarrow>
                       (case os_epoll_add os fd w3 of
                          (Some err, w4) \<Rightarrow>
                            (Inl (sys_error os ''unable to add file descriptor to epoll, error: '' err),
                             os_close os fd w4)
                        | (None, w4) \<Rightarrow> (Inr fd, w4))))))"

text \<open>
  The destructor of \<^verbatim>\<open>control_task_handle\<close> unlinks the socket file (a failure is only
  logged) and then destroys its members: the registration, then the descriptor.
\<close>

definition control_task_destroy :: "'w os \<Rightarrow> string \<times> nat \<Rightarrow> 'w \<Rightarrow> 'w" where
  "control_task_destroy os h w =
     (let w1 = snd (os_unlink os (c_str (fst h)) w)
      in os_close os (snd h) (os_epoll_del os (snd h) w1))"

section \<open>Task objects\<close>

text \<open>The data \<^verbatim>\<open>sync_task_adaptor\<close> is instantiated with.\<close>

datatype sync_task_data =
    Sync_hostname hostname_task_data
  | Sync_mount mount_task_data
  | Sync_control control_task_data
  | Sync_null

datatype sync_task =
    Hostname_handle "string option"
  | Mount_handle "string \<times> umount_options"
  | Control_handle "string \<times> nat"
  | Null_handle

text \<open>The overloads of \<^verbatim>\<open>create_task\<close>, and the virtual destructor.\<close>

fun create_task :: "'w os \<Rightarrow> sync_task_data \<Rightarrow> 'w \<Rightarrow> (string + sync_task) \<times> 'w" where
  "create_task os (Sync_hostname d) w = apfst (map_sum id Hostname_handle) (hostname_task_create os d w)"
| "create_task os (Sync_mount d) w = apfst (map_sum id Mount_handle) (mounting_guard_create os d w)"
| "create_task os (Sync_control d) w =
     apfst (map_sum id (\<lambda>fd. Control_handle (uds_filename d, fd)))
       (server_socket_create os (uds_filename d) w)"
| "create_task os Sync_null w = (Inr Null_handle, w)"

fun destroy_task :: "'w os \<Rightarrow> sync_task \<Rightarrow> 'w \<Rightarrow> 'w" where
  "destroy_task os (Hostname_handle old) w = hostname_task_destroy os old w"
| "destroy_task os (Mount_handle g) w = mounting_guard_destroy os g w"
| "destroy_task os (Control_handle h) w = control_task_destroy os h w"
| "destroy_task os Null_handle w = w"

fun sync_task_status_message :: "sync_task \<Rightarrow> string" where
  "sync_task_status_message (Hostname_handle old) = ''hostname is set''"
| "sync_task_status_message (Mount_handle g) = ''mounted: \"'' @ fst g @ ''\"''"
| "sync_task_status_message (Control_handle h) = ''filename: '' @ fst h"
| "sync_task_status_message Null_handle = ''null task''"

end
