(* ===== verification/Function_Queue.thy ===== *)
theory Function_Queue
  imports Initd_Prelude
begin

text \<open>
  \<^verbatim>\<open>sysapi::function_queue\<close>: a deque of callbacks and an \<^verbatim>\<open>eventfd\<close> that wakes the
  event loop. The descriptor is not opened with \<^verbatim>\<open>EFD_SEMAPHORE\<close>: \<^verbatim>\<open>notify\<close> adds one to
  its counter, and the read in the wake-up handler fetches the whole counter and resets
  it to zero, while the handler runs one callback only.
\<close>

section \<open>The interface\<close>

text \<open>
  What the owner of a queue of deferred callbacks relies on: a push is followed by a
  wake-up, a wake-up always finds a callback, and callbacks come out in the order they
  were pushed.
\<close>

locale callback_queue =
  fixes fresh :: "'q"
    and push :: "'f \<Rightarrow> 'q \<Rightarrow> 'q \<times> outcome"
    and ready :: "'q \<Rightarrow> bool"
    and take :: "'q \<Rightarrow> ('f \<times> 'q) faulty"
    and contents :: "'q \<Rightarrow> 'f list"
    and invar :: "'q \<Rightarrow> bool"
  assumes invar_fresh: "invar fresh"
    and contents_fresh: "contents fresh = []"
    and invar_push: "invar q \<Longrightarrow> invar (fst (push f q))"
    and contents_push: "contents (fst (push f q)) = contents q @ [f]"
    and ready_push: "snd (push f q) = Done \<Longrightarrow> ready (fst (push f q))"
    and push_not_aborted: "\<not> aborted (push f q)"
    and take_ready: "invar q \<Longrightarrow> ready q \<Longrightarrow>
          \<exists>f q'. take q = Inr (f, q') \<and> contents q = f # contents q' \<and> invar q'"
begin

lemma take_is_oldest:
  assumes "invar q" "ready q" "take q = Inr (f, q')"
  shows "f = hd (contents q)" "contents q' = tl (contents q)" "invar q'"
  using take_ready [OF assms(1,2)] assms(3) by auto

lemma push_take_from_empty:
  assumes "invar q" "contents q = []" "snd (push f q) = Done"
  shows "\<exists>q'. take (fst (push f q)) = Inr (f, q') \<and> contents q' = []"
  using take_ready [OF invar_push [OF assms(1)] ready_push [OF assms(3)]] assms(2)
  by (auto simp: contents_push)

end

section \<open>The model\<close>

record 'f function_queue =
  fq_queue :: "'f list"
  fq_counter :: size_t

definition fq_new :: "'f function_queue" where
  "fq_new = \<lparr>fq_queue = [], fq_counter = 0\<rparr>"

text \<open>
  \<^verbatim>\<open>eventfd::notify\<close> writes 1. The write fails with \<^verbatim>\<open>EAGAIN\<close> when the counter would
  exceed its maximum \<open>2 ^ 64 - 2\<close>, which \<^verbatim>\<open>file_descriptor::write\<close> turns into an exception.
\<close>

definition eventfd_max :: size_t where
  "eventfd_max = 0xFFFFFFFFFFFFFFFE"

definition eventfd_notify :: "'f function_queue \<Rightarrow> 'f function_queue \<times> outcome" where
  "eventfd_notify q =
     (if fq_counter q < eventfd_max then (q\<lparr>fq_counter := fq_counter q + 1\<rparr>, Done)
      else (q, Threw ''unable to write file descriptor''))"

definition fq_push :: "'f \<Rightarrow> 'f function_queue \<Rightarrow> 'f function_queue \<times> outcome" where
  "fq_push f q = eventfd_notify (q\<lparr>fq_queue := fq_queue q @ [f]\<rparr>)"

text \<open>epoll reports the descriptor as readable while its counter is not zero.\<close>

definition fq_ready :: "'f function_queue \<Rightarrow> bool" where
  "fq_ready q \<longleftrightarrow> fq_counter q \<noteq> 0"

text \<open>
  The wake-up handler: read the counter (which resets it), move the front callback out of
  the deque; the caller then runs it. \<^verbatim>\<open>front()\<close> of an empty deque is undefined.
\<close>

definition fq_take :: "'f function_queue \<Rightarrow> ('f \<times> 'f function_queue) faulty" where
  "fq_take q =
     (case fq_queue q of
        [] \<Rightarrow> Inl (Undefined_behaviour ''front() of an empty deque'')
      | f # fs \<Rightarrow> Inr (f, q\<lparr>fq_queue := fs, fq_counter := 0\<rparr>))"

definition fq_invar :: "'f function_queue \<Rightarrow> bool" where
  "fq_invar q \<longleftrightarrow> unat (fq_counter q) \<le> length (fq_queue q)"

lemma counter_step:
  assumes "c < eventfd_max"
  shows "unat (c + 1) = Suc (unat c)" "c + 1 \<noteq> 0"
proof -
  have "unat c < 2 ^ 64 - 2"
    using assms by (simp add: eventfd_max_def word_less_nat_alt)
  then show eq: "unat (c + 1) = Suc (unat c)"
    by (simp add: unat_word_ariths)
  then show "c + 1 \<noteq> 0" by auto
qed

interpretation fq: callback_queue fq_new fq_push fq_ready fq_take fq_queue fq_invar
proof unfold_locales
  fix q :: "'f function_queue" and f :: 'f
  show "snd (fq_push f q) = Done \<Longrightarrow> fq_ready (fst (fq_push f q))"
    by (auto simp: fq_push_def eventfd_notify_def fq_ready_def counter_step split: if_splits)
  show "\<exists>f q'. fq_take q = Inr (f, q') \<and> fq_queue q = f # fq_queue q' \<and> fq_invar q'"
    if "fq_invar q" "fq_ready q"
    using that by (cases "fq_queue q") (auto simp: fq_invar_def fq_ready_def fq_take_def unat_eq_0)
qed (auto simp: fq_new_def fq_invar_def fq_push_def eventfd_notify_def counter_step)

text \<open>Every state of a queue is reached by pushes and wake-ups of a fresh one.\<close>

datatype 'f fq_event = Fq_push 'f | Fq_wake

fun fq_step :: "'f function_queue \<Rightarrow> 'f fq_event \<Rightarrow> 'f function_queue faulty" where
  "fq_step q (Fq_push f) = Inr (fst (fq_push f q))"
| "fq_step q Fq_wake = (if fq_ready q then bind_faulty (fq_take q) (\<lambda>(f, q'). Inr q') else Inr q)"

fun fq_run :: "'f function_queue \<Rightarrow> 'f fq_event list \<Rightarrow> 'f function_queue faulty" where
  "fq_run q [] = Inr q"
| "fq_run q (e # es) = bind_faulty (fq_step q e) (\<lambda>q'. fq_run q' es)"

lemma fq_step_safe: "fq_invar q \<Longrightarrow> \<exists>q'. fq_step q e = Inr q' \<and> fq_invar q'"
  using fq.take_ready [of q] by (cases e) (auto simp: fq.invar_push)

lemma fq_run_safe: "fq_invar q \<Longrightarrow> \<exists>q'. fq_run q es = Inr q' \<and> fq_invar q'"
proof (induction es arbitrary: q)
  case (Cons e es)
  then show ?case
    using fq_step_safe [of q e] by auto
qed simp

end
