(* ===== verification/Task_Handles.thy ===== *)
theory Task_Handles
  imports Sync_Tasks Function_Queue
begin

text \<open>
  The implementations of the abstract class \<^verbatim>\<open>async_task_handle\<close>:
  \<^verbatim>\<open>async_start_stop_task\<close>, which runs one child process at a time to start or stop a
  service, and \<^verbatim>\<open>sync_task_adaptor\<close>, which switches at once and reports the change
  through a callback queue. What the task graph relies on is the locale
  \<open>async_handle\<close>, interpreted for each class and for their union.
\<close>

section \<open>The environment of a handle\<close>

text \<open>
  The operating system's world, and the table of \<^verbatim>\<open>sigchild_handler\<close> from the process
  ids of running children to the registered \<^verbatim>\<open>wait_child\<close>, here the index of the task
  that owns it.
\<close>

record 'w env =
  env_world :: 'w
  env_handlers :: "nat \<Rightarrow> nat option"

definition sigchild_add :: "nat \<Rightarrow> nat \<Rightarrow> 'w env \<Rightarrow> 'w env \<times> outcome" where
  "sigchild_add pid i e =
     (if env_handlers e pid \<noteq> None
      then (e, Aborted ''assert(handlers.find(pid) == handlers.end())'')
      else (e\<lparr>env_handlers := (env_handlers e)(pid := Some i)\<rparr>, Done))"

definition sigchild_remove :: "nat \<Rightarrow> 'w env \<Rightarrow> 'w env \<times> outcome" where
  "sigchild_remove pid e =
     (if env_handlers e pid = None
      then (e, Aborted ''assert(i != handlers.end())'')
      else (e\<lparr>env_handlers := (env_handlers e)(pid := None)\<rparr>, Done))"

section \<open>The contract of a handle\<close>

text \<open>
  \<open>goal\<close> is the last value given to \<^verbatim>\<open>set_should_work\<close>; \<open>complete\<close> is the
  completion of whatever the handle has under way. A handle is settled when, unless it is in
  transition, it runs exactly if it should.
\<close>

locale async_handle =
  fixes is_running :: "'h \<Rightarrow> bool"
    and in_transition :: "'h \<Rightarrow> bool"
    and goal :: "'h \<Rightarrow> bool"
    and set_should_work :: "bool \<Rightarrow> 'h \<Rightarrow> 'e \<Rightarrow> ('h \<times> 'e) \<times> outcome"
    and complete :: "'h \<Rightarrow> 'e \<Rightarrow> ('h \<times> 'e) \<times> outcome"
  assumes goal_set: "goal (fst (fst (set_should_work b h e))) = b"
    and settled_set: "snd (set_should_work b h e) = Done \<Longrightarrow>
          \<not> in_transition (fst (fst (set_should_work b h e))) \<Longrightarrow>
          is_running (fst (fst (set_should_work b h e))) = b"
    and goal_complete: "goal (fst (fst (complete h e))) = goal h"
    and settled_complete: "snd (complete h e) = Done \<Longrightarrow>
          \<not> in_transition (fst (fst (complete h e))) \<Longrightarrow>
          is_running (fst (fst (complete h e))) = goal h"
begin

definition settled :: "'h \<Rightarrow> bool" where
  "settled h \<longleftrightarrow> (\<not> in_transition h \<longrightarrow> is_running h = goal h)"

lemma settled_after_set:
  "snd (set_should_work b h e) = Done \<Longrightarrow> settled (fst (fst (set_should_work b h e)))"
  by (simp add: settled_def goal_set settled_set)

lemma settled_after_complete:
  "snd (complete h e) = Done \<Longrightarrow> settled (fst (fst (complete h e)))"
  by (simp add: settled_def goal_complete settled_complete)

lemma started_is_active:
  "snd (set_should_work True h e) = Done \<Longrightarrow>
   is_running (fst (fst (set_should_work True h e))) \<or>
   in_transition (fst (fst (set_should_work True h e)))"
  using settled_set [of True h e] by blast

lemma stopped_is_leaving:
  "snd (set_should_work False h e) = Done \<Longrightarrow>
   \<not> is_running (fst (fst (set_should_work False h e))) \<or>
   in_transition (fst (fst (set_should_work False h e)))"
  using settled_set [of False h e] by blast

text \<open>Requests and completions in any order: the last request is the goal.\<close>

fun drive :: "bool option list \<Rightarrow> 'h \<Rightarrow> 'e \<Rightarrow> ('h \<times> 'e) \<times> outcome" where
  "drive [] h e = ((h, e), Done)"
| "drive (None # rs) h e = and_then (complete h e) (\<lambda>(h, e). drive rs h e)"
| "drive (Some b # rs) h e = and_then (set_should_work b h e) (\<lambda>(h, e). drive rs h e)"

fun last_request :: "bool \<Rightarrow> bool option list \<Rightarrow> bool" where
  "last_request g [] = g"
| "last_request g (None # rs) = last_request g rs"
| "last_request g (Some b # rs) = last_request b rs"

lemma drive_goal:
  "snd (drive rs h e) = Done \<Longrightarrow> goal (fst (fst (drive rs h e))) = last_request (goal h) rs"
proof (induction rs h e rule: drive.induct)
  case (2 rs h e)
  then show ?case
    using goal_complete [of h e]
    by (cases "complete h e") (auto simp: and_then_def split: if_splits prod.splits)
next
  case (3 b rs h e)
  then show ?case
    using goal_set [of b h e]
    by (cases "set_should_work b h e") (auto simp: and_then_def split: if_splits prod.splits)
qed simp

lemma drive_settled:
  "snd (drive rs h e) = Done \<Longrightarrow> settled h \<Longrightarrow> settled (fst (fst (drive rs h e)))"
proof (induction rs h e rule: drive.induct)
  case (2 rs h e)
  then show ?case
    using settled_after_complete [of h e]
    by (cases "complete h e") (auto simp: and_then_def split: if_splits prod.splits)
next
  case (3 b rs h e)
  then show ?case
    using settled_after_set [of b h e]
    by (cases "set_should_work b h e") (auto simp: and_then_def split: if_splits prod.splits)
qed simp

end

section \<open>Start/stop tasks\<close>

datatype operation = Start_operation | Stop_operation

record start_stop_task =
  ss_task_data :: start_stop_task_data
  ss_running :: bool
  ss_should_work :: bool
  ss_current_operation :: "(nat \<times> operation) option"

definition new_start_stop_task :: "start_stop_task_data \<Rightarrow> start_stop_task" where
  "new_start_stop_task d =
     \<lparr>ss_task_data = d, ss_running = False, ss_should_work = False, ss_current_operation = None\<rparr>"

definition ss_is_in_transition :: "start_stop_task \<Rightarrow> bool" where
  "ss_is_in_transition h \<longleftrightarrow> ss_current_operation h \<noteq> None"

text \<open>
  The child: \<^verbatim>\<open>chdir\<close> to the working directory, then \<^verbatim>\<open>execv\<close> with the executable as
  the first element of the argument vector.
\<close>

definition child_of_command :: "command \<Rightarrow> child_program" where
  "child_of_command c =
     \<lparr>child_directory = c_str (working_directory c),
      child_path = c_str (executable (cmd c)),
      child_argv = map c_str (executable (cmd c) # arguments (cmd c))\<rparr>"

text \<open>\<^verbatim>\<open>sysapi::fork\<close>, then \<^verbatim>\<open>wait_child\<close> constructed in \<^verbatim>\<open>current_operation\<close>.\<close>

definition ss_launch ::
    "'w os \<Rightarrow> nat \<Rightarrow> operation \<Rightarrow> command \<Rightarrow> start_stop_task \<Rightarrow> 'w env \<Rightarrow>
     (start_stop_task \<times> 'w env) \<times> outcome" where
  "ss_launch os i op c h e =
     (case os_fork os (child_of_command c) (env_world e) of
        (Inl err, w) \<Rightarrow>
          ((h, e\<lparr>env_world := w\<rparr>), Threw (sys_error os ''unable to fork, error: '' err))
      | (Inr pid, w) \<Rightarrow>
          (case sigchild_add pid i (e\<lparr>env_world := w\<rparr>) of
             (e', r) \<Rightarrow> ((if r = Done then h\<lparr>ss_current_operation := Some (pid, op)\<rparr> else h, e'), r)))"

definition ss_enqueue_job ::
    "'w os \<Rightarrow> nat \<Rightarrow> start_stop_task \<Rightarrow> 'w env \<Rightarrow> (start_stop_task \<times> 'w env) \<times> outcome" where
  "ss_enqueue_job os i h e =
     (if ss_current_operation h \<noteq> None then ((h, e), Done)
      else if ss_running h = ss_should_work h then ((h, e), Done)
      else if ss_should_work h
      then ss_launch os i Start_operation (start_command (ss_task_data h)) h e
      else ss_launch os i Stop_operation (stop_command (ss_task_data h)) h e)"

definition ss_set_should_work ::
    "'w os \<Rightarrow> nat \<Rightarrow> bool \<Rightarrow> start_stop_task \<Rightarrow> 'w env \<Rightarrow>
     (start_stop_task \<times> 'w env) \<times> outcome" where
  "ss_set_should_work os i s h e = ss_enqueue_job os i (h\<lparr>ss_should_work := s\<rparr>) e"

text \<open>
  The two callbacks given to \<^verbatim>\<open>wait_child\<close>, up to the call of
  \<^verbatim>\<open>current_state_changed\<close>: the exit status of the child is ignored. Resetting
  \<^verbatim>\<open>current_operation\<close> unregisters the process id.
\<close>

definition ss_operation_finished ::
    "'w os \<Rightarrow> nat \<Rightarrow> start_stop_task \<Rightarrow> 'w env \<Rightarrow> (start_stop_task \<times> 'w env) \<times> outcome" where
  "ss_operation_finished os i h e =
     (case ss_current_operation h of
        None \<Rightarrow> ((h, e), Aborted ''no operation under way'')
      | Some (pid, op) \<Rightarrow>
          if ss_running h = (op = Start_operation)
          then ((h, e), Aborted (if op = Start_operation then ''assert(!that->running)''
                                 else ''assert(that->running)''))
          else
            (case sigchild_remove pid e of
               (e', r) \<Rightarrow>
                 and_then ((h\<lparr>ss_running := (op = Start_operation), ss_current_operation := None\<rparr>, e'), r)
                   (\<lambda>(h, e). ss_enqueue_job os i h e)))"

definition ss_status_message :: "start_stop_task \<Rightarrow> string" where
  "ss_status_message h =
     (if ss_running h
      then (if ss_should_work h
            then (if ss_current_operation h \<noteq> None then ''restarting'' else ''running'')
            else ''stopping'')
      else (if ss_should_work h then ''starting''
            else (if ss_current_operation h \<noteq> None then ''cancelling'' else ''stopped'')))"

lemma ss_launch_fields [simp]:
  "ss_task_data (fst (fst (ss_launch os i op c h e))) = ss_task_data h"
  "ss_running (fst (fst (ss_launch os i op c h e))) = ss_running h"
  "ss_should_work (fst (fst (ss_launch os i op c h e))) = ss_should_work h"
  by (auto simp: ss_launch_def split: prod.splits sum.splits)

lemma ss_launch_Done:
  "snd (ss_launch os i op c h e) = Done \<Longrightarrow>
   ss_current_operation (fst (fst (ss_launch os i op c h e))) \<noteq> None"
  by (auto simp: ss_launch_def split: prod.splits sum.splits)

lemma ss_enqueue_job_fields [simp]:
  "ss_task_data (fst (fst (ss_enqueue_job os i h e))) = ss_task_data h"
  "ss_running (fst (fst (ss_enqueue_job os i h e))) = ss_running h"
  "ss_should_work (fst (fst (ss_enqueue_job os i h e))) = ss_should_work h"
  by (simp_all add: ss_enqueue_job_def)

lemma ss_enqueue_job_settles:
  "snd (ss_enqueue_job os i h e) = Done \<Longrightarrow>
   \<not> ss_is_in_transition (fst (fst (ss_enqueue_job os i h e))) \<Longrightarrow>
   ss_running h = ss_should_work h"
  by (auto simp: ss_enqueue_job_def ss_is_in_transition_def dest: ss_launch_Done split: if_splits)

lemma ss_operation_finished_Done:
  assumes "snd (ss_operation_finished os i h e) = Done"
  shows "\<exists>pid op e'. ss_current_operation h = Some (pid, op) \<and>
    sigchild_remove pid e = (e', Done) \<and> ss_running h \<noteq> (op = Start_operation) \<and>
    ss_operation_finished os i h e =
      ss_enqueue_job os i (h\<lparr>ss_running := (op = Start_operation), ss_current_operation := None\<rparr>) e'"
  using assms
  by (auto simp: ss_operation_finished_def and_then_def split: option.splits if_splits prod.splits)

lemma ss_operation_finished_goal [simp]:
  "ss_should_work (fst (fst (ss_operation_finished os i h e))) = ss_should_work h"
  by (auto simp: ss_operation_finished_def and_then_def split: option.splits prod.splits)

interpretation ss: async_handle ss_running ss_is_in_transition ss_should_work
    "ss_set_should_work os i" "ss_operation_finished os i" for os :: "'w os" and i
proof unfold_locales
  fix b h and e :: "'w env"
  show "ss_should_work (fst (fst (ss_set_should_work os i b h e))) = b"
    by (simp add: ss_set_should_work_def)
  show "ss_running (fst (fst (ss_set_should_work os i b h e))) = b"
    if "snd (ss_set_should_work os i b h e) = Done"
      "\<not> ss_is_in_transition (fst (fst (ss_set_should_work os i b h e)))"
    using ss_enqueue_job_settles [of os i "h\<lparr>ss_should_work := b\<rparr>" e] that
    by (simp add: ss_set_should_work_def)
next
  fix h and e :: "'w env"
  show "ss_should_work (fst (fst (ss_operation_finished os i h e))) = ss_should_work h"
    by simp
  show "ss_running (fst (fst (ss_operation_finished os i h e))) = ss_should_work h"
    if ended: "snd (ss_operation_finished os i h e) = Done"
      and idle: "\<not> ss_is_in_transition (fst (fst (ss_operation_finished os i h e)))"
  proof -
    obtain op e' where eq: "ss_operation_finished os i h e =
        ss_enqueue_job os i (h\<lparr>ss_running := (op = Start_operation), ss_current_operation := None\<rparr>) e'"
      using ss_operation_finished_Done [OF ended] by auto
    show ?thesis
      using ended idle unfolding eq by (auto dest: ss_enqueue_job_settles)
  qed
qed

section \<open>Adapted synchronous tasks\<close>

text \<open>
  Every callback in the queue is the same closure, a call of \<^verbatim>\<open>current_state_changed\<close>,
  so the queue holds units.
\<close>

record sync_adaptor =
  sa_task_data :: sync_task_data
  sa_running :: bool
  sa_handle :: "sync_task option"
  sa_queue :: "unit function_queue"

definition new_sync_adaptor :: "sync_task_data \<Rightarrow> sync_adaptor" where
  "new_sync_adaptor d =
     \<lparr>sa_task_data = d, sa_running = False, sa_handle = None, sa_queue = fq_new\<rparr>"

definition sa_push :: "sync_adaptor \<Rightarrow> 'w env \<Rightarrow> (sync_adaptor \<times> 'w env) \<times> outcome" where
  "sa_push a e = (case fq_push () (sa_queue a) of (q, r) \<Rightarrow> ((a\<lparr>sa_queue := q\<rparr>, e), r))"

text \<open>
  A task whose creation throws counts as running all the same: the exception is logged
  and the handle stays empty.
\<close>

definition sa_set_should_work ::
    "'w os \<Rightarrow> bool \<Rightarrow> sync_adaptor \<Rightarrow> 'w env \<Rightarrow> (sync_adaptor \<times> 'w env) \<times> outcome" where
  "sa_set_should_work os s a e =
     (let a1 = a\<lparr>sa_running := s\<rparr> in
      if s then
        (case sa_handle a1 of
           Some _ \<Rightarrow> sa_push a1 e
         | None \<Rightarrow>
             (case create_task os (sa_task_data a1) (env_world e) of
                (Inl what, w) \<Rightarrow> sa_push a1 (e\<lparr>env_world := w\<rparr>)
              | (Inr t, w) \<Rightarrow> sa_push (a1\<lparr>sa_handle := Some t\<rparr>) (e\<lparr>env_world := w\<rparr>)))
      else
        (case sa_handle a1 of
           None \<Rightarrow> sa_push a1 e
         | Some t \<Rightarrow>
             sa_push (a1\<lparr>sa_handle := None\<rparr>) (e\<lparr>env_world := destroy_task os t (env_world e)\<rparr>)))"

text \<open>The wake-up of the queue, up to the call of \<^verbatim>\<open>current_state_changed\<close>.\<close>

definition sa_wake :: "sync_adaptor \<Rightarrow> 'w env \<Rightarrow> (sync_adaptor \<times> 'w env) \<times> outcome" where
  "sa_wake a e =
     (case fq_take (sa_queue a) of
        Inl _ \<Rightarrow> ((a, e), Aborted ''front() of an empty deque'')
      | Inr (f, q) \<Rightarrow> ((a\<lparr>sa_queue := q\<rparr>, e), Done))"

definition sa_status_message :: "sync_adaptor \<Rightarrow> string" where
  "sa_status_message a =
     (if sa_running a
      then (case sa_handle a of
              Some t \<Rightarrow> ''running: '' @ sync_task_status_message t
            | None \<Rightarrow> ''error'')
      else ''stopped'')"

lemma sa_push_fields [simp]:
  "sa_running (fst (fst (sa_push a e))) = sa_running a"
  "sa_task_data (fst (fst (sa_push a e))) = sa_task_data a"
  "sa_handle (fst (fst (sa_push a e))) = sa_handle a"
  "snd (fst (sa_push a e)) = e"
  by (simp_all add: sa_push_def split: prod.splits)

lemma sa_set_should_work_running [simp]:
  "sa_running (fst (fst (sa_set_should_work os b a e))) = b"
  by (auto simp: sa_set_should_work_def Let_def split: option.splits prod.splits sum.splits)

lemma sa_wake_fields [simp]:
  "sa_running (fst (fst (sa_wake a e))) = sa_running a"
  "snd (fst (sa_wake a e)) = e"
  by (auto simp: sa_wake_def split: sum.splits)

interpretation sa: async_handle sa_running "\<lambda>_. False" sa_running
    "sa_set_should_work os" sa_wake for os :: "'w os"
  by unfold_locales simp_all

section \<open>The union of the classes\<close>

datatype async_task_handle =
    Sync_handle sync_adaptor
  | Start_stop_handle start_stop_task

fun h_is_running :: "async_task_handle \<Rightarrow> bool" where
  "h_is_running (Sync_handle a) = sa_running a"
| "h_is_running (Start_stop_handle h) = ss_running h"

fun h_is_in_transition :: "async_task_handle \<Rightarrow> bool" where
  "h_is_in_transition (Sync_handle a) = False"
| "h_is_in_transition (Start_stop_handle h) = ss_is_in_transition h"

fun h_get_should_work :: "async_task_handle \<Rightarrow> bool" where
  "h_get_should_work (Sync_handle a) = sa_running a"
| "h_get_should_work (Start_stop_handle h) = ss_should_work h"

fun h_set_should_work ::
    "'w os \<Rightarrow> nat \<Rightarrow> bool \<Rightarrow> async_task_handle \<Rightarrow> 'w env \<Rightarrow>
     (async_task_handle \<times> 'w env) \<times> outcome" where
  "h_set_should_work os i b (Sync_handle a) e = apfst (apfst Sync_handle) (sa_set_should_work os b a e)"
| "h_set_should_work os i b (Start_stop_handle h) e =
     apfst (apfst Start_stop_handle) (ss_set_should_work os i b h e)"

text \<open>The completion of what a handle has under way: a wake-up, or the exit of its child.\<close>

fun h_complete ::
    "'w os \<Rightarrow> nat \<Rightarrow> async_task_handle \<Rightarrow> 'w env \<Rightarrow> (async_task_handle \<times> 'w env) \<times> outcome" where
  "h_complete os i (Sync_handle a) e = apfst (apfst Sync_handle) (sa_wake a e)"
| "h_complete os i (Start_stop_handle h) e =
     apfst (apfst Start_stop_handle) (ss_operation_finished os i h e)"

fun h_status_message :: "async_task_handle \<Rightarrow> string" where
  "h_status_message (Sync_handle a) = sa_status_message a"
| "h_status_message (Start_stop_handle h) = ss_status_message h"

fun create_async_task_handle :: "task_data \<Rightarrow> async_task_handle" where
  "create_async_task_handle (Mount_task d) = Sync_handle (new_sync_adaptor (Sync_mount d))"
| "create_async_task_handle (Hostname_task d) = Sync_handle (new_sync_adaptor (Sync_hostname d))"
| "create_async_task_handle (Start_stop_task d) = Start_stop_handle (new_start_stop_task d)"
| "create_async_task_handle (Control_task d) = Sync_handle (new_sync_adaptor (Sync_control d))"
| "create_async_task_handle Null_task = Sync_handle (new_sync_adaptor Sync_null)"

interpretation th: async_handle h_is_running h_is_in_transition h_get_should_work
    "h_set_should_work os i" "h_complete os i" for os :: "'w os" and i
proof unfold_locales
  fix b h and e :: "'w env"
  show "h_get_should_work (fst (fst (h_set_should_work os i b h e))) = b"
    by (cases h) (simp_all add: ss.goal_set)
  show "h_is_running (fst (fst (h_set_should_work os i b h e))) = b"
    if "snd (h_set_should_work os i b h e) = Done"
      "\<not> h_is_in_transition (fst (fst (h_set_should_work os i b h e)))"
    using that ss.settled_set [of os i b _ e] by (cases h) simp_all
next
  fix h and e :: "'w env"
  show "h_get_should_work (fst (fst (h_complete os i h e))) = h_get_should_work h"
    by (cases h) simp_all
  show "h_is_running (fst (fst (h_complete os i h e))) = h_get_should_work h"
    if "snd (h_complete os i h e) = Done"
      "\<not> h_is_in_transition (fst (fst (h_complete os i h e)))"
    using that ss.settled_complete [of os i _ e] by (cases h) simp_all
qed

lemma new_handle_idle [simp]:
  "\<not> h_is_running (create_async_task_handle d)"
  "\<not> h_is_in_transition (create_async_task_handle d)"
  "\<not> h_get_should_work (create_async_task_handle d)"
  by (cases d; simp add: new_sync_adaptor_def new_start_stop_task_def ss_is_in_transition_def)+

end
