(* ===== verification/Task_Graph.thy ===== *)
theory Task_Graph
  imports Task_Handles
begin

text \<open>
  The scheduler: \<^verbatim>\<open>libinitd/task.cpp\<close> and \<^verbatim>\<open>libinitd/initd_state.cpp\<close>. A
  \<^verbatim>\<open>task*\<close> is the index of the task in the vector \<^verbatim>\<open>tasks\<close>, which is filled by the
  constructor and never resized afterwards. Each task counts how many of its dependencies
  are not known to be running and how many of its dependants are not known to be stopped;
  the flags \<^verbatim>\<open>counted_in_*\<close> remember what the task itself last told its neighbours.
\<close>

section \<open>Tasks\<close>

record task =
  t_handle :: async_task_handle
  t_should_work :: bool
  t_dependencies :: "nat list"
  t_dependants :: "nat list"
  t_stopped_dependencies :: size_t
  t_running_dependants :: size_t
  t_counted_in_dependencies :: bool
  t_counted_in_dependants :: bool
  t_counted_in_pending_tasks :: bool

definition new_task :: "async_task_handle \<Rightarrow> task" where
  "new_task h =
     \<lparr>t_handle = h, t_should_work = False, t_dependencies = [], t_dependants = [],
      t_stopped_dependencies = 0, t_running_dependants = 0,
      t_counted_in_dependencies = False, t_counted_in_dependants = False,
      t_counted_in_pending_tasks = False\<rparr>"

record 'w initd_state =
  st_tasks :: "task list"
  st_run_levels :: "(string \<times> nat list) list"
  st_pending_tasks :: size_t
  st_env :: "'w env"

definition update_task :: "nat \<Rightarrow> (task \<Rightarrow> task) \<Rightarrow> 'w initd_state \<Rightarrow> 'w initd_state" where
  "update_task i f s = s\<lparr>st_tasks := (st_tasks s)[i := f (st_tasks s ! i)]\<rparr>"

definition is_running :: "nat \<Rightarrow> 'w initd_state \<Rightarrow> bool" where
  "is_running i s = h_is_running (t_handle (st_tasks s ! i))"

definition is_in_transition :: "nat \<Rightarrow> 'w initd_state \<Rightarrow> bool" where
  "is_in_transition i s = h_is_in_transition (t_handle (st_tasks s ! i))"

section \<open>task.cpp\<close>

definition add_task_dependency :: "nat \<Rightarrow> nat \<Rightarrow> 'w initd_state \<Rightarrow> 'w initd_state \<times> outcome" where
  "add_task_dependency dependant dependency s =
     (if is_running dependency s then (s, Aborted ''assert(!dependency.handle->is_running())'')
      else
        (let s1 = update_task dependant
                    (\<lambda>t. t\<lparr>t_dependencies := t_dependencies t @ [dependency]\<rparr>) s;
             s2 = update_task dependency
                    (\<lambda>t. t\<lparr>t_dependants := t_dependants t @ [dependant]\<rparr>) s1
         in (update_task dependant
               (\<lambda>t. t\<lparr>t_stopped_dependencies := t_stopped_dependencies t + 1\<rparr>) s2, Done)))"

definition clear_should_work :: "nat \<Rightarrow> 'w initd_state \<Rightarrow> 'w initd_state" where
  "clear_should_work i = update_task i (\<lambda>t. t\<lparr>t_should_work := False\<rparr>)"

text \<open>
  The recursion of \<^verbatim>\<open>mark_should_work\<close> follows the dependency edges, which may form
  cycles; it ends because a marked task is not entered again. The fuel bounds its depth;
  \<open>mark_should_work_fuel\<close> below shows that one more than the number of tasks is always
  enough.
\<close>

fun mark_should_work :: "nat \<Rightarrow> nat \<Rightarrow> task list \<Rightarrow> task list" where
  "mark_should_work 0 i ts = ts"
| "mark_should_work (Suc fuel) i ts =
     (let old = t_should_work (ts ! i);
          ts' = ts[i := (ts ! i)\<lparr>t_should_work := True\<rparr>]
      in if \<not> old
         then foldl (\<lambda>ts dep. mark_should_work fuel dep ts) ts' (t_dependencies (ts ! i))
         else ts')"

definition increment_counter_in_dependencies ::
    "nat \<Rightarrow> size_t \<Rightarrow> 'w initd_state \<Rightarrow> 'w initd_state" where
  "increment_counter_in_dependencies i delta s =
     foldl (\<lambda>s dep. update_task dep
              (\<lambda>t. t\<lparr>t_running_dependants := t_running_dependants t + delta\<rparr>) s)
       s (t_dependencies (st_tasks s ! i))"

definition increment_counter_in_dependants ::
    "nat \<Rightarrow> size_t \<Rightarrow> 'w initd_state \<Rightarrow> 'w initd_state" where
  "increment_counter_in_dependants i delta s =
     foldl (\<lambda>s dep. update_task dep
              (\<lambda>t. t\<lparr>t_stopped_dependencies := t_stopped_dependencies t + delta\<rparr>) s)
       s (t_dependants (st_tasks s ! i))"

text \<open>The three paragraphs of \<^verbatim>\<open>task::sync\<close>.\<close>

definition sync_in_dependencies :: "nat \<Rightarrow> 'w initd_state \<Rightarrow> 'w initd_state" where
  "sync_in_dependencies i s =
     (let affect_dependencies = is_running i s \<or> is_in_transition i s in
      if affect_dependencies \<noteq> t_counted_in_dependencies (st_tasks s ! i)
      then update_task i (\<lambda>t. t\<lparr>t_counted_in_dependencies := affect_dependencies\<rparr>)
             (increment_counter_in_dependencies i (if affect_dependencies then 1 else -1) s)
      else s)"

definition sync_in_dependants :: "nat \<Rightarrow> 'w initd_state \<Rightarrow> 'w initd_state" where
  "sync_in_dependants i s =
     (let affect_dependants = is_running i s \<and> \<not> is_in_transition i s in
      if affect_dependants \<noteq> t_counted_in_dependants (st_tasks s ! i)
      then update_task i (\<lambda>t. t\<lparr>t_counted_in_dependants := affect_dependants\<rparr>)
             (increment_counter_in_dependants i (if affect_dependants then -1 else 1) s)
      else s)"

definition sync_in_pending_tasks :: "nat \<Rightarrow> 'w initd_state \<Rightarrow> 'w initd_state" where
  "sync_in_pending_tasks i s =
     (let affect_pending_tasks =
            is_in_transition i s \<or> is_running i s \<noteq> t_should_work (st_tasks s ! i) in
      if affect_pending_tasks \<noteq> t_counted_in_pending_tasks (st_tasks s ! i)
      then update_task i (\<lambda>t. t\<lparr>t_counted_in_pending_tasks := affect_pending_tasks\<rparr>)
             (s\<lparr>st_pending_tasks := st_pending_tasks s + (if affect_pending_tasks then 1 else -1)\<rparr>)
      else s)"

definition task_sync :: "nat \<Rightarrow> 'w initd_state \<Rightarrow> 'w initd_state" where
  "task_sync i s = sync_in_pending_tasks i (sync_in_dependants i (sync_in_dependencies i s))"

definition are_dependencies_running :: "nat \<Rightarrow> 'w initd_state \<Rightarrow> bool" where
  "are_dependencies_running i s \<longleftrightarrow> t_stopped_dependencies (st_tasks s ! i) = 0"

definition are_dependants_stopped :: "nat \<Rightarrow> 'w initd_state \<Rightarrow> bool" where
  "are_dependants_stopped i s \<longleftrightarrow> t_running_dependants (st_tasks s ! i) = 0"

text \<open>A virtual call on the task's handle, which may fork and so change the environment.\<close>

definition call_handle ::
    "(async_task_handle \<Rightarrow> 'w env \<Rightarrow> (async_task_handle \<times> 'w env) \<times> outcome) \<Rightarrow>
     nat \<Rightarrow> 'w initd_state \<Rightarrow> 'w initd_state \<times> outcome" where
  "call_handle f i s =
     (case f (t_handle (st_tasks s ! i)) (st_env s) of
        ((h, e), r) \<Rightarrow> (update_task i (\<lambda>t. t\<lparr>t_handle := h\<rparr>) (s\<lparr>st_env := e\<rparr>), r))"

definition enqueue_this :: "'w os \<Rightarrow> nat \<Rightarrow> 'w initd_state \<Rightarrow> 'w initd_state \<times> outcome" where
  "enqueue_this os i s =
     and_then
       (if (\<not> is_running i s \<or> is_in_transition i s) \<and>
           t_should_work (st_tasks s ! i) \<and> are_dependencies_running i s
        then call_handle (h_set_should_work os i True) i s else (s, Done))
       (\<lambda>s. if (is_running i s \<or> is_in_transition i s) \<and>
               \<not> t_should_work (st_tasks s ! i) \<and> are_dependants_stopped i s
            then call_handle (h_set_should_work os i False) i s else (s, Done))"

section \<open>initd_state.cpp\<close>

definition clear_should_work_flag :: "'w initd_state \<Rightarrow> 'w initd_state" where
  "clear_should_work_flag s = foldl (\<lambda>s i. clear_should_work i s) s [0..<length (st_tasks s)]"

definition sync_all :: "'w initd_state \<Rightarrow> 'w initd_state" where
  "sync_all s = foldl (\<lambda>s i. task_sync i s) s [0..<length (st_tasks s)]"

definition enqueue_tasks :: "'w os \<Rightarrow> nat list \<Rightarrow> 'w initd_state \<Rightarrow> 'w initd_state \<times> outcome" where
  "enqueue_tasks os tts s = for_each (enqueue_this os) tts s"

definition enqueue_all :: "'w os \<Rightarrow> 'w initd_state \<Rightarrow> 'w initd_state \<times> outcome" where
  "enqueue_all os s = enqueue_tasks os [0..<length (st_tasks s)] s"

text \<open>The loop that marks the requisites of a run level.\<close>

definition mark_requisites :: "nat list \<Rightarrow> 'w initd_state \<Rightarrow> 'w initd_state" where
  "mark_requisites rs s =
     s\<lparr>st_tasks := foldl (\<lambda>ts d. mark_should_work (Suc (length ts)) d ts) (st_tasks s) rs\<rparr>"

definition set_run_level ::
    "'w os \<Rightarrow> string \<Rightarrow> 'w initd_state \<Rightarrow> 'w initd_state \<times> outcome" where
  "set_run_level os run_level_name s =
     (case mm_find (st_run_levels s) run_level_name of
        None \<Rightarrow> (s, Threw (''run level \"'' @ run_level_name @ ''\" is not found''))
      | Some requisites \<Rightarrow>
          enqueue_all os (sync_all (mark_requisites requisites (clear_should_work_flag s))))"

definition set_empty_run_level :: "'w os \<Rightarrow> 'w initd_state \<Rightarrow> 'w initd_state \<times> outcome" where
  "set_empty_run_level os s = enqueue_all os (sync_all (clear_should_work_flag s))"

definition has_pending_operations :: "'w initd_state \<Rightarrow> bool" where
  "has_pending_operations s \<longleftrightarrow> st_pending_tasks s \<noteq> 0"

text \<open>The closure passed to each handle as \<^verbatim>\<open>current_state_changed\<close>.\<close>

definition current_state_changed ::
    "'w os \<Rightarrow> nat \<Rightarrow> 'w initd_state \<Rightarrow> 'w initd_state \<times> outcome" where
  "current_state_changed os i s =
     (let s1 = task_sync i s in
      if is_running i s1 then enqueue_tasks os (t_dependants (st_tasks s1 ! i)) s1
      else enqueue_tasks os (t_dependencies (st_tasks s1 ! i)) s1)"

text \<open>
  The whole callback of a handle: the handle's own part, then the closure above. It is
  run by the wake-up of a callback queue, or by the exit of a child.
\<close>

definition task_completed :: "'w os \<Rightarrow> nat \<Rightarrow> 'w initd_state \<Rightarrow> 'w initd_state \<times> outcome" where
  "task_completed os i s = and_then (call_handle (h_complete os i) i s) (current_state_changed os i)"

text \<open>\<^verbatim>\<open>sysapi::reap_child\<close>: the next exited child, none, or an exception.\<close>

definition reap_child :: "'w os \<Rightarrow> 'w \<Rightarrow> (string + (nat \<times> int) option) \<times> 'w" where
  "reap_child os w =
     (case os_waitpid_any os w of
        (Inr r, w') \<Rightarrow> (Inr r, w')
      | (Inl err, w') \<Rightarrow>
          (if err = ECHILD then (Inr None, w')
           else (Inl (sys_error os ''unable to waitpid, error: '' err), w')))"

text \<open>
  The loop of \<^verbatim>\<open>sigchild_handler\<close>. It ends when there is no exited child left, or when a
  callback throws; \<open>None\<close> is a run in which the system never stops reporting children.
\<close>

partial_function (option) reap_children ::
    "'w os \<Rightarrow> 'w initd_state \<Rightarrow> ('w initd_state \<times> outcome) option" where
  "reap_children os s =
     (case reap_child os (env_world (st_env s)) of
        (Inl msg, w) \<Rightarrow> Some (s\<lparr>st_env := (st_env s)\<lparr>env_world := w\<rparr>\<rparr>, Threw msg)
      | (Inr None, w) \<Rightarrow> Some (s\<lparr>st_env := (st_env s)\<lparr>env_world := w\<rparr>\<rparr>, Done)
      | (Inr (Some (pid, status)), w) \<Rightarrow>
          (let s1 = s\<lparr>st_env := (st_env s)\<lparr>env_world := w\<rparr>\<rparr> in
           case env_handlers (st_env s1) pid of
             None \<Rightarrow> reap_children os s1
           | Some i \<Rightarrow>
               (case task_completed os i s1 of
                  (s2, r) \<Rightarrow> if r = Done then reap_children os s2 else Some (s2, r))))"

declare reap_children.simps [code]

text \<open>The constructor. \<^verbatim>\<open>descr_to_task\<close> maps the i-th description to the i-th task.\<close>

definition make_tasks :: "task_descriptions \<Rightarrow> task list" where
  "make_tasks tds = map (\<lambda>td. new_task (create_async_task_handle (td_data td))) (all_tasks tds)"

definition add_dependencies_of ::
    "task_descriptions \<Rightarrow> nat \<Rightarrow> 'w initd_state \<Rightarrow> 'w initd_state \<times> outcome" where
  "add_dependencies_of tds i s =
     for_each (\<lambda>dep s. if dep < length (st_tasks s) then add_task_dependency i dep s
                       else (s, Aborted ''descr_to_task.find(dep)->second''))
       (td_dependencies (all_tasks tds ! i)) s"

definition make_run_levels :: "task_descriptions \<Rightarrow> (string \<times> nat list) list" where
  "make_run_levels tds = foldl (\<lambda>m rl. map_insert (fst rl) (snd rl) m) [] (run_level_by_name tds)"

definition initd_state_construct ::
    "task_descriptions \<Rightarrow> 'w env \<Rightarrow> 'w initd_state \<times> outcome" where
  "initd_state_construct tds e =
     and_then
       (for_each (add_dependencies_of tds) [0..<length (all_tasks tds)]
          \<lparr>st_tasks = make_tasks tds, st_run_levels = [], st_pending_tasks = 0, st_env = e\<rparr>)
       (\<lambda>s. if \<forall>rl \<in> set (run_level_by_name tds). \<forall>req \<in> set (snd rl). req < length (st_tasks s)
            then (s\<lparr>st_run_levels := make_run_levels tds\<rparr>, Done)
            else (s, Aborted ''descr_to_task.find(req)->second''))"

end
