(* ===== verification/Task_Graph_Inv.thy ===== *)
theory Task_Graph_Inv
  imports Task_Graph
begin

text \<open>
  Structure of the task graph and exactness of its counters: what each operation of
  \<open>Task_Graph\<close> changes, the invariant that dependency and dependant edges mirror each
  other, and the invariant that every counter is the number of neighbours it stands for.
\<close>

lemma of_nat_length_filter_update:
  "(of_nat (length (filter (\<lambda>x. if x = i then b else P x) xs)) :: 'a::ring_1) =
   of_nat (length (filter P xs)) +
     (if b = P i then 0 else of_nat (count_list xs i) * (if b then 1 else -1))"
  by (induction xs) (auto simp: algebra_simps)

lemma count_list_upt: "i < n \<Longrightarrow> count_list [0..<n] i = 1"
  by (induction n) (auto simp: less_Suc_eq count_list_0_iff)

section \<open>Views of a task\<close>

definition t_active :: "task \<Rightarrow> bool" where
  "t_active t \<longleftrightarrow> h_is_running (t_handle t) \<or> h_is_in_transition (t_handle t)"

definition t_up :: "task \<Rightarrow> bool" where
  "t_up t \<longleftrightarrow> h_is_running (t_handle t) \<and> \<not> h_is_in_transition (t_handle t)"

definition t_pending :: "task \<Rightarrow> bool" where
  "t_pending t \<longleftrightarrow> h_is_in_transition (t_handle t) \<or> h_is_running (t_handle t) \<noteq> t_should_work t"

lemmas task_views = t_active_def t_up_def t_pending_def is_running_def is_in_transition_def

lemma t_up_active: "t_up t \<Longrightarrow> t_active t"
  by (simp add: task_views)

section \<open>Updates\<close>

lemma update_task_fields [simp]:
  "length (st_tasks (update_task i f s)) = length (st_tasks s)"
  "st_run_levels (update_task i f s) = st_run_levels s"
  "st_pending_tasks (update_task i f s) = st_pending_tasks s"
  "st_env (update_task i f s) = st_env s"
  by (simp_all add: update_task_def)

lemma nth_update_task:
  "j < length (st_tasks s) \<Longrightarrow>
   st_tasks (update_task i f s) ! j = (if j = i then f (st_tasks s ! j) else st_tasks s ! j)"
  by (auto simp: update_task_def nth_list_update_if)

lemma fold_update_task_fields:
  "length (st_tasks (foldl (\<lambda>s d. update_task d f s) s ds)) = length (st_tasks s)"
  "st_run_levels (foldl (\<lambda>s d. update_task d f s) s ds) = st_run_levels s"
  "st_pending_tasks (foldl (\<lambda>s d. update_task d f s) s ds) = st_pending_tasks s"
  "st_env (foldl (\<lambda>s d. update_task d f s) s ds) = st_env s"
  by (induction ds arbitrary: s) simp_all

text \<open>A loop that updates the tasks of a list touches each as often as it occurs.\<close>

lemma nth_fold_update_task:
  "j < length (st_tasks s) \<Longrightarrow>
   st_tasks (foldl (\<lambda>s d. update_task d f s) s ds) ! j = (f ^^ count_list ds j) (st_tasks s ! j)"
  by (induction ds arbitrary: s) (simp_all add: nth_update_task funpow_swap1)

lemma funpow_add_running_dependants:
  "((\<lambda>t. t\<lparr>t_running_dependants := t_running_dependants t + d\<rparr>) ^^ n) t =
   t\<lparr>t_running_dependants := t_running_dependants t + of_nat n * d\<rparr>"
  by (induction n) (simp_all add: algebra_simps)

lemma funpow_add_stopped_dependencies:
  "((\<lambda>t. t\<lparr>t_stopped_dependencies := t_stopped_dependencies t + d\<rparr>) ^^ n) t =
   t\<lparr>t_stopped_dependencies := t_stopped_dependencies t + of_nat n * d\<rparr>"
  by (induction n) (simp_all add: algebra_simps)

section \<open>What sync changes\<close>

lemma sync_frame [simp]:
  "length (st_tasks (task_sync i s)) = length (st_tasks s)"
  "st_run_levels (task_sync i s) = st_run_levels s"
  "st_env (task_sync i s) = st_env s"
  by (simp_all add: task_sync_def sync_in_pending_tasks_def sync_in_dependants_def
        sync_in_dependencies_def increment_counter_in_dependants_def
        increment_counter_in_dependencies_def fold_update_task_fields Let_def)

lemma sync_in_dependencies_nth:
  assumes "i < length (st_tasks s)" "j < length (st_tasks s)"
  shows "st_tasks (sync_in_dependencies i s) ! j =
    (st_tasks s ! j)
      \<lparr>t_running_dependants := t_running_dependants (st_tasks s ! j) +
         (if t_active (st_tasks s ! i) = t_counted_in_dependencies (st_tasks s ! i) then 0
          else of_nat (count_list (t_dependencies (st_tasks s ! i)) j) *
               (if t_active (st_tasks s ! i) then 1 else -1)),
       t_counted_in_dependencies :=
         (if j = i then t_active (st_tasks s ! i) else t_counted_in_dependencies (st_tasks s ! j))\<rparr>"
  using assms
  by (simp add: sync_in_dependencies_def increment_counter_in_dependencies_def Let_def task_views
        nth_update_task nth_fold_update_task fold_update_task_fields funpow_add_running_dependants)

lemma sync_in_dependants_nth:
  assumes "i < length (st_tasks s)" "j < length (st_tasks s)"
  shows "st_tasks (sync_in_dependants i s) ! j =
    (st_tasks s ! j)
      \<lparr>t_stopped_dependencies := t_stopped_dependencies (st_tasks s ! j) +
         (if t_up (st_tasks s ! i) = t_counted_in_dependants (st_tasks s ! i) then 0
          else of_nat (count_list (t_dependants (st_tasks s ! i)) j) *
               (if t_up (st_tasks s ! i) then -1 else 1)),
       t_counted_in_dependants :=
         (if j = i then t_up (st_tasks s ! i) else t_counted_in_dependants (st_tasks s ! j))\<rparr>"
  using assms
  by (simp add: sync_in_dependants_def increment_counter_in_dependants_def Let_def task_views
        nth_update_task nth_fold_update_task fold_update_task_fields funpow_add_stopped_dependencies)

lemma sync_in_pending_tasks_nth:
  assumes "i < length (st_tasks s)" "j < length (st_tasks s)"
  shows "st_tasks (sync_in_pending_tasks i s) ! j =
    (st_tasks s ! j)
      \<lparr>t_counted_in_pending_tasks :=
         (if j = i then t_pending (st_tasks s ! i) else t_counted_in_pending_tasks (st_tasks s ! j))\<rparr>"
  using assms
  by (simp add: sync_in_pending_tasks_def Let_def task_views update_task_def nth_list_update_if)

text \<open>All of \<^verbatim>\<open>sync\<close> at once.\<close>

lemma task_sync_nth:
  assumes i: "i < length (st_tasks s)" and j: "j < length (st_tasks s)"
  shows "st_tasks (task_sync i s) ! j =
    (st_tasks s ! j)
      \<lparr>t_running_dependants := t_running_dependants (st_tasks s ! j) +
         (if t_active (st_tasks s ! i) = t_counted_in_dependencies (st_tasks s ! i) then 0
          else of_nat (count_list (t_dependencies (st_tasks s ! i)) j) *
               (if t_active (st_tasks s ! i) then 1 else -1)),
       t_counted_in_dependencies :=
         (if j = i then t_active (st_tasks s ! i) else t_counted_in_dependencies (st_tasks s ! j)),
       t_stopped_dependencies := t_stopped_dependencies (st_tasks s ! j) +
         (if t_up (st_tasks s ! i) = t_counted_in_dependants (st_tasks s ! i) then 0
          else of_nat (count_list (t_dependants (st_tasks s ! i)) j) *
               (if t_up (st_tasks s ! i) then -1 else 1)),
       t_counted_in_dependants :=
         (if j = i then t_up (st_tasks s ! i) else t_counted_in_dependants (st_tasks s ! j)),
       t_counted_in_pending_tasks :=
         (if j = i then t_pending (st_tasks s ! i) else t_counted_in_pending_tasks (st_tasks s ! j))\<rparr>"
proof -
  have l: "length (st_tasks (sync_in_dependencies i s)) = length (st_tasks s)"
    "length (st_tasks (sync_in_dependants i (sync_in_dependencies i s))) = length (st_tasks s)"
    by (simp_all add: sync_in_dependants_def sync_in_dependencies_def Let_def
          increment_counter_in_dependants_def increment_counter_in_dependencies_def
          fold_update_task_fields)
  show ?thesis
    using i j by (simp add: task_sync_def l sync_in_pending_tasks_nth sync_in_dependants_nth
        sync_in_dependencies_nth t_active_def t_up_def t_pending_def)
qed

lemma task_sync_pending:
  assumes "i < length (st_tasks s)"
  shows "st_pending_tasks (task_sync i s) = st_pending_tasks s +
    (if t_pending (st_tasks s ! i) = t_counted_in_pending_tasks (st_tasks s ! i) then 0
     else if t_pending (st_tasks s ! i) then 1 else -1)"
proof -
  let ?s2 = "sync_in_dependants i (sync_in_dependencies i s)"
  have l: "length (st_tasks (sync_in_dependencies i s)) = length (st_tasks s)"
    by (simp add: sync_in_dependencies_def Let_def
        increment_counter_in_dependencies_def fold_update_task_fields)
  have "t_handle (st_tasks ?s2 ! i) = t_handle (st_tasks s ! i)"
    "t_should_work (st_tasks ?s2 ! i) = t_should_work (st_tasks s ! i)"
    "t_counted_in_pending_tasks (st_tasks ?s2 ! i) = t_counted_in_pending_tasks (st_tasks s ! i)"
    using assms by (simp_all add: l sync_in_dependants_nth sync_in_dependencies_nth)
  moreover have "st_pending_tasks ?s2 = st_pending_tasks s"
    by (simp add: sync_in_dependants_def sync_in_dependencies_def Let_def
          increment_counter_in_dependants_def increment_counter_in_dependencies_def
          fold_update_task_fields)
  ultimately show ?thesis
    by (auto simp: task_sync_def sync_in_pending_tasks_def Let_def task_views)
qed

section \<open>The graph and its counters\<close>

text \<open>
  Edges stay inside the vector, a dependency edge is recorded at both ends with the same
  multiplicity, and no vector is longer than its \<open>size_t\<close> size can tell.
\<close>

definition graph_wf :: "task list \<Rightarrow> bool" where
  "graph_wf ts \<longleftrightarrow> length ts < 2 ^ 64 \<and>
     (\<forall>i < length ts.
        set (t_dependencies (ts ! i)) \<subseteq> {..<length ts} \<and>
        set (t_dependants (ts ! i)) \<subseteq> {..<length ts} \<and>
        length (t_dependencies (ts ! i)) < 2 ^ 64 \<and>
        length (t_dependants (ts ! i)) < 2 ^ 64 \<and>
        (\<forall>j < length ts. count_list (t_dependencies (ts ! i)) j = count_list (t_dependants (ts ! j)) i))"

definition unready_dependencies :: "task list \<Rightarrow> nat \<Rightarrow> nat list" where
  "unready_dependencies ts i =
     filter (\<lambda>d. \<not> t_counted_in_dependants (ts ! d)) (t_dependencies (ts ! i))"

definition busy_dependants :: "task list \<Rightarrow> nat \<Rightarrow> nat list" where
  "busy_dependants ts i = filter (\<lambda>u. t_counted_in_dependencies (ts ! u)) (t_dependants (ts ! i))"

definition pending_list :: "task list \<Rightarrow> nat list" where
  "pending_list ts = filter (\<lambda>i. t_counted_in_pending_tasks (ts ! i)) [0..<length ts]"

definition counters_exact :: "'w initd_state \<Rightarrow> bool" where
  "counters_exact s \<longleftrightarrow>
     (\<forall>i < length (st_tasks s).
        t_stopped_dependencies (st_tasks s ! i) =
          of_nat (length (unready_dependencies (st_tasks s) i)) \<and>
        t_running_dependants (st_tasks s ! i) =
          of_nat (length (busy_dependants (st_tasks s) i))) \<and>
     st_pending_tasks s = of_nat (length (pending_list (st_tasks s)))"

lemma graph_wf_sync [simp]:
  assumes "i < length (st_tasks s)"
  shows "graph_wf (st_tasks (task_sync i s)) = graph_wf (st_tasks s)"
  using assms by (simp add: graph_wf_def task_sync_nth cong: conj_cong)

lemma unready_dependencies_sync:
  assumes "i < length (st_tasks s)" "j < length (st_tasks s)" "graph_wf (st_tasks s)"
  shows "unready_dependencies (st_tasks (task_sync i s)) j =
    filter (\<lambda>d. if d = i then \<not> t_up (st_tasks s ! i) else \<not> t_counted_in_dependants (st_tasks s ! d))
      (t_dependencies (st_tasks s ! j))"
proof -
  have "d < length (st_tasks s)" if "d \<in> set (t_dependencies (st_tasks s ! j))" for d
    using assms that by (auto simp: graph_wf_def)
  then show ?thesis
    using assms unfolding unready_dependencies_def
    by (intro filter_cong) (simp_all add: task_sync_nth)
qed

lemma busy_dependants_sync:
  assumes "i < length (st_tasks s)" "j < length (st_tasks s)" "graph_wf (st_tasks s)"
  shows "busy_dependants (st_tasks (task_sync i s)) j =
    filter (\<lambda>u. if u = i then t_active (st_tasks s ! i) else t_counted_in_dependencies (st_tasks s ! u))
      (t_dependants (st_tasks s ! j))"
proof -
  have "u < length (st_tasks s)" if "u \<in> set (t_dependants (st_tasks s ! j))" for u
    using assms that by (auto simp: graph_wf_def)
  then show ?thesis
    using assms unfolding busy_dependants_def
    by (intro filter_cong) (simp_all add: task_sync_nth)
qed

lemma pending_list_sync:
  assumes "i < length (st_tasks s)"
  shows "pending_list (st_tasks (task_sync i s)) =
    filter (\<lambda>k. if k = i then t_pending (st_tasks s ! i) else t_counted_in_pending_tasks (st_tasks s ! k))
      [0..<length (st_tasks s)]"
  using assms unfolding pending_list_def
  by (intro filter_cong) (simp_all add: task_sync_nth)

text \<open>The counters stay exact: \<^verbatim>\<open>sync\<close> corrects those of all neighbours.\<close>

lemma counters_exact_sync:
  assumes i: "i < length (st_tasks s)" and wf: "graph_wf (st_tasks s)" and cnt: "counters_exact s"
  shows "counters_exact (task_sync i s)"
proof -
  have edges: "count_list (t_dependencies (st_tasks s ! j)) k = count_list (t_dependants (st_tasks s ! k)) j"
    if "j < length (st_tasks s)" "k < length (st_tasks s)" for j k
    using wf that by (simp add: graph_wf_def)
  show ?thesis
    using cnt i unfolding counters_exact_def
    by (simp add: unready_dependencies_sync busy_dependants_sync pending_list_sync wf
          of_nat_length_filter_update task_sync_nth task_sync_pending count_list_upt edges)
       (simp add: unready_dependencies_def busy_dependants_def pending_list_def)
qed

text \<open>Changes of a task's handle or mark are not visible to the graph and its counters.\<close>

definition same_graph :: "'w initd_state \<Rightarrow> 'w initd_state \<Rightarrow> bool" where
  "same_graph s s' \<longleftrightarrow>
     length (st_tasks s') = length (st_tasks s) \<and> st_pending_tasks s' = st_pending_tasks s \<and>
     (\<forall>j < length (st_tasks s).
        t_dependencies (st_tasks s' ! j) = t_dependencies (st_tasks s ! j) \<and>
        t_dependants (st_tasks s' ! j) = t_dependants (st_tasks s ! j) \<and>
        t_stopped_dependencies (st_tasks s' ! j) = t_stopped_dependencies (st_tasks s ! j) \<and>
        t_running_dependants (st_tasks s' ! j) = t_running_dependants (st_tasks s ! j) \<and>
        t_counted_in_dependencies (st_tasks s' ! j) = t_counted_in_dependencies (st_tasks s ! j) \<and>
        t_counted_in_dependants (st_tasks s' ! j) = t_counted_in_dependants (st_tasks s ! j) \<and>
        t_counted_in_pending_tasks (st_tasks s' ! j) = t_counted_in_pending_tasks (st_tasks s ! j))"

lemma same_graph_refl [simp]: "same_graph s s"
  by (simp add: same_graph_def)

lemma same_graph_trans: "same_graph s s' \<Longrightarrow> same_graph s' s'' \<Longrightarrow> same_graph s s''"
  by (auto simp: same_graph_def)

lemma same_graph_wf:
  assumes "same_graph s s'"
  shows "graph_wf (st_tasks s') = graph_wf (st_tasks s)"
proof -
  have "(\<forall>i < n. P i) = (\<forall>i < n. Q i)" if "\<And>i. i < n \<Longrightarrow> P i = Q i" for n :: nat and P Q
    using that by auto
  then show ?thesis
    using assms unfolding graph_wf_def same_graph_def by auto
qed

lemma same_graph_counters:
  assumes sg: "same_graph s s'" and wf: "graph_wf (st_tasks s)"
  shows "counters_exact s' = counters_exact s"
proof -
  have "unready_dependencies (st_tasks s') j = unready_dependencies (st_tasks s) j"
    "busy_dependants (st_tasks s') j = busy_dependants (st_tasks s) j"
    if "j < length (st_tasks s)" for j
  proof -
    have "set (t_dependencies (st_tasks s ! j)) \<subseteq> {..<length (st_tasks s)}"
      "set (t_dependants (st_tasks s ! j)) \<subseteq> {..<length (st_tasks s)}"
      using wf that by (auto simp: graph_wf_def)
    then show "unready_dependencies (st_tasks s') j = unready_dependencies (st_tasks s) j"
      "busy_dependants (st_tasks s') j = busy_dependants (st_tasks s) j"
      using sg that unfolding unready_dependencies_def busy_dependants_def same_graph_def
      by (auto intro!: filter_cong)
  qed
  moreover have "pending_list (st_tasks s') = pending_list (st_tasks s)"
    using sg unfolding pending_list_def same_graph_def by (auto intro!: filter_cong)
  ultimately show ?thesis
    using sg by (auto simp: counters_exact_def same_graph_def)
qed

end
