(* ===== verification/Task_Graph_Marks.thy ===== *)
theory Task_Graph_Marks
  imports Task_Graph_Inv
begin

text \<open>
  What a run level marks: the recursion of \<^verbatim>\<open>mark_should_work\<close> computes the tasks that
  are reachable from the requisites along dependency edges. The recursion is compared with
  a loop over an explicit stack, which needs no fuel.
\<close>

section \<open>The recursion as a loop over a stack\<close>

definition unmarked :: "task list \<Rightarrow> nat" where
  "unmarked ts = length (filter (\<lambda>t. \<not> t_should_work t) ts)"

definition set_mark :: "nat \<Rightarrow> task list \<Rightarrow> task list" where
  "set_mark i ts = ts[i := (ts ! i)\<lparr>t_should_work := True\<rparr>]"

lemma length_set_mark [simp]: "length (set_mark i ts) = length ts"
  by (simp add: set_mark_def)

lemma nth_set_mark:
  "j < length ts \<Longrightarrow>
   set_mark i ts ! j = (if j = i then (ts ! j)\<lparr>t_should_work := True\<rparr> else ts ! j)"
  by (simp add: set_mark_def nth_list_update_if)

lemma unmarked_set_mark:
  assumes "i < length ts" "\<not> t_should_work (ts ! i)"
  shows "unmarked (set_mark i ts) < unmarked ts"
  using assms
proof (induction ts arbitrary: i)
  case (Cons t ts)
  then show ?case
    by (cases i) (auto simp: unmarked_def set_mark_def)
qed simp

function mark_stack :: "nat list \<Rightarrow> task list \<Rightarrow> task list" where
  "mark_stack [] ts = ts"
| "mark_stack (i # is) ts =
     (if i < length ts \<and> \<not> t_should_work (ts ! i)
      then mark_stack (t_dependencies (ts ! i) @ is) (set_mark i ts)
      else mark_stack is ts)"
  by pat_completeness auto
termination
  by (relation "measures [\<lambda>(is, ts). unmarked ts, \<lambda>(is, ts). length is]")
     (auto simp: unmarked_set_mark)

lemma mark_stack_append: "mark_stack (xs @ ys) ts = mark_stack ys (mark_stack xs ts)"
  by (induction xs ts rule: mark_stack.induct) auto

lemma length_mark_stack [simp]: "length (mark_stack is ts) = length ts"
  by (induction "is" ts rule: mark_stack.induct) auto

lemma unmarked_mark_stack: "unmarked (mark_stack is ts) \<le> unmarked ts"
proof (induction "is" ts rule: mark_stack.induct)
  case (2 i "is" ts)
  then show ?case
    using unmarked_set_mark [of i ts] by auto
qed simp

text \<open>Only marks change.\<close>

lemma nth_mark_stack:
  "j < length ts \<Longrightarrow>
   mark_stack is ts ! j = (ts ! j)\<lparr>t_should_work := t_should_work (mark_stack is ts ! j)\<rparr>"
proof (induction "is" ts rule: mark_stack.induct)
  case (2 i "is" ts)
  show ?case
  proof (cases "i < length ts \<and> \<not> t_should_work (ts ! i)")
    case True
    then have "mark_stack (i # is) ts ! j =
        (set_mark i ts ! j)\<lparr>t_should_work := t_should_work (mark_stack (i # is) ts ! j)\<rparr>"
      using "2.IH"(1) "2.prems" by simp
    then show ?thesis
      using "2.prems" by (cases "j = i") (simp_all add: nth_set_mark del: mark_stack.simps)
  qed (use 2 in auto)
qed simp

definition edges_in_range :: "task list \<Rightarrow> bool" where
  "edges_in_range ts \<longleftrightarrow> (\<forall>j < length ts. \<forall>d \<in> set (t_dependencies (ts ! j)). d < length ts)"

lemma edges_in_range_mark_stack [simp]: "edges_in_range (mark_stack is ts) = edges_in_range ts"
proof -
  have "t_dependencies (mark_stack is ts ! j) = t_dependencies (ts ! j)" if "j < length ts" for j
    by (subst nth_mark_stack [OF that]) simp
  then show ?thesis by (simp add: edges_in_range_def)
qed

lemma edges_in_range_set_mark [simp]: "edges_in_range (set_mark i ts) = edges_in_range ts"
  by (auto simp: edges_in_range_def nth_set_mark)

lemma graph_wf_edges_in_range: "graph_wf ts \<Longrightarrow> edges_in_range ts"
  by (auto simp: graph_wf_def edges_in_range_def)

text \<open>
  With more fuel than unmarked tasks the recursion and the loop agree: every level of the
  recursion has marked one more task.
\<close>

lemma foldl_mark_should_work:
  assumes "\<And>d ts. d < length ts \<Longrightarrow> edges_in_range ts \<Longrightarrow> unmarked ts < fuel \<Longrightarrow>
      mark_should_work fuel d ts = mark_stack [d] ts"
    and "\<forall>d \<in> set ds. d < length ts" "edges_in_range ts" "unmarked ts < fuel"
  shows "foldl (\<lambda>ts d. mark_should_work fuel d ts) ts ds = mark_stack ds ts"
  using assms(2-)
proof (induction ds arbitrary: ts)
  case (Cons d ds)
  have "unmarked (mark_stack [d] ts) < fuel"
    using Cons.prems(3) unmarked_mark_stack [of "[d]" ts] by linarith
  then have "foldl (\<lambda>ts d. mark_should_work fuel d ts) ts (d # ds) =
      mark_stack ds (mark_stack [d] ts)"
    using Cons assms(1) [of d ts] by (simp del: mark_stack.simps)
  then show ?case
    using mark_stack_append [of "[d]" ds ts] by (simp only: append.simps)
qed simp

lemma mark_should_work_stack:
  "i < length ts \<Longrightarrow> edges_in_range ts \<Longrightarrow> unmarked ts < fuel \<Longrightarrow>
   mark_should_work fuel i ts = mark_stack [i] ts"
proof (induction fuel arbitrary: i ts)
  case (Suc fuel)
  show ?case
  proof (cases "t_should_work (ts ! i)")
    case True
    then have "(ts ! i)\<lparr>t_should_work := True\<rparr> = ts ! i"
      by simp
    then have "ts[i := (ts ! i)\<lparr>t_should_work := True\<rparr>] = ts"
      by (simp only: list_update_id)
    with True show ?thesis by simp
  next
    case False
    have "\<forall>d \<in> set (t_dependencies (ts ! i)). d < length (set_mark i ts)"
      using Suc.prems by (auto simp: edges_in_range_def)
    moreover have "unmarked (set_mark i ts) < fuel"
      using unmarked_set_mark [OF Suc.prems(1) False] Suc.prems(3) by linarith
    ultimately have "foldl (\<lambda>ts d. mark_should_work fuel d ts) (set_mark i ts)
          (t_dependencies (ts ! i)) = mark_stack (t_dependencies (ts ! i)) (set_mark i ts)"
      using Suc by (intro foldl_mark_should_work) simp_all
    with False Suc.prems show ?thesis
      by (simp add: Let_def set_mark_def)
  qed
qed simp

lemma unmarked_le: "unmarked ts \<le> length ts"
  by (simp add: unmarked_def)

lemma mark_should_work_fuel:
  assumes "i < length ts" "edges_in_range ts" "length ts < fuel"
  shows "mark_should_work fuel i ts = mark_should_work (Suc (length ts)) i ts"
  using assms unmarked_le [of ts] by (simp add: mark_should_work_stack del: mark_should_work.simps)

lemma foldl_mark_length:
  "\<forall>d \<in> set rs. d < length ts \<Longrightarrow> edges_in_range ts \<Longrightarrow>
   foldl (\<lambda>ts d. mark_should_work (Suc (length ts)) d ts) ts rs = mark_stack rs ts"
proof (induction rs arbitrary: ts)
  case (Cons d rs)
  have "mark_should_work (Suc (length ts)) d ts = mark_stack [d] ts"
    using Cons.prems unmarked_le [of ts] by (intro mark_should_work_stack) auto
  then have "foldl (\<lambda>ts d. mark_should_work (Suc (length ts)) d ts) ts (d # rs) =
      mark_stack rs (mark_stack [d] ts)"
    using Cons by (simp del: mark_should_work.simps mark_stack.simps)
  then show ?case
    using mark_stack_append [of "[d]" rs ts] by (simp only: append.simps)
qed simp

lemma mark_requisites_stack:
  assumes "\<forall>d \<in> set rs. d < length (st_tasks s)" "graph_wf (st_tasks s)"
  shows "st_tasks (mark_requisites rs s) = mark_stack rs (st_tasks s)"
  using assms foldl_mark_length [of rs "st_tasks s"]
  by (simp add: mark_requisites_def graph_wf_edges_in_range del: mark_should_work.simps)

section \<open>What is marked\<close>

definition depends_on :: "task list \<Rightarrow> (nat \<times> nat) set" where
  "depends_on ts = {(i, d). i < length ts \<and> d \<in> set (t_dependencies (ts ! i))}"

lemma depends_on_mark_stack [simp]: "depends_on (mark_stack is ts) = depends_on ts"
proof -
  have "t_dependencies (mark_stack is ts ! j) = t_dependencies (ts ! j)" if "j < length ts" for j
    by (subst nth_mark_stack [OF that]) simp
  then show ?thesis by (auto simp: depends_on_def)
qed

lemma depends_on_set_mark [simp]: "depends_on (set_mark i ts) = depends_on ts"
  by (auto simp: depends_on_def nth_set_mark split: if_splits)

lemma mark_stack_sound:
  "j < length ts \<Longrightarrow> t_should_work (mark_stack is ts ! j) \<Longrightarrow>
   t_should_work (ts ! j) \<or> (\<exists>r \<in> set is. (r, j) \<in> (depends_on ts)\<^sup>*)"
proof (induction "is" ts rule: mark_stack.induct)
  case (2 i "is" ts)
  show ?case
  proof (cases "i < length ts \<and> \<not> t_should_work (ts ! i)")
    case True
    then have "t_should_work (set_mark i ts ! j) \<or>
        (\<exists>r \<in> set (t_dependencies (ts ! i) @ is). (r, j) \<in> (depends_on ts)\<^sup>*)"
      using 2 by simp
    moreover have "(i, j) \<in> (depends_on ts)\<^sup>*"
      if "r \<in> set (t_dependencies (ts ! i))" "(r, j) \<in> (depends_on ts)\<^sup>*" for r
      using that True by (auto simp: depends_on_def intro: converse_rtrancl_into_rtrancl)
    ultimately show ?thesis
      using 2(3) by (auto simp: nth_set_mark split: if_splits)
  qed (use 2 in auto)
qed simp

lemma mark_stack_keeps:
  "j < length ts \<Longrightarrow> t_should_work (ts ! j) \<Longrightarrow> t_should_work (mark_stack is ts ! j)"
  by (induction "is" ts rule: mark_stack.induct) (auto simp: nth_set_mark)

lemma mark_stack_roots:
  "r \<in> set is \<Longrightarrow> r < length ts \<Longrightarrow> t_should_work (mark_stack is ts ! r)"
proof (induction "is" ts rule: mark_stack.induct)
  case (2 i "is" ts)
  then show ?case
    by (cases "r = i") (auto simp: mark_stack_keeps nth_set_mark)
qed simp

text \<open>Every dependency of a marked task is marked or still on the stack.\<close>

definition marks_covered :: "nat list \<Rightarrow> task list \<Rightarrow> bool" where
  "marks_covered is ts \<longleftrightarrow>
     (\<forall>i < length ts. t_should_work (ts ! i) \<longrightarrow>
        (\<forall>d \<in> set (t_dependencies (ts ! i)). t_should_work (ts ! d) \<or> d \<in> set is))"

lemma marks_covered_mark_stack:
  "edges_in_range ts \<Longrightarrow> marks_covered is ts \<Longrightarrow> marks_covered [] (mark_stack is ts)"
proof (induction "is" ts rule: mark_stack.induct)
  case (2 i "is" ts)
  show ?case
  proof (cases "i < length ts \<and> \<not> t_should_work (ts ! i)")
    case True
    have "marks_covered (t_dependencies (ts ! i) @ is) (set_mark i ts)"
      using "2.prems" unfolding marks_covered_def edges_in_range_def
      by (simp add: nth_set_mark) (metis nth_set_mark task.select_convs(2) task.update_convs(2))
    then show ?thesis using True 2 by simp
  next
    case False
    then have "marks_covered is ts"
      using "2.prems" unfolding marks_covered_def edges_in_range_def by auto
    then show ?thesis using False 2 by auto
  qed
qed simp

lemma mark_stack_complete:
  assumes range: "edges_in_range ts" and cov: "marks_covered is ts"
    and r: "r \<in> set is" "r < length ts" and reach: "(r, j) \<in> (depends_on ts)\<^sup>*"
  shows "j < length ts \<and> t_should_work (mark_stack is ts ! j)"
  using reach
proof (induction rule: rtrancl_induct)
  case base
  then show ?case using r by (simp add: mark_stack_roots)
next
  case (step y z)
  have "z \<in> set (t_dependencies (mark_stack is ts ! y))"
    using step by (subst nth_mark_stack) (auto simp: depends_on_def)
  moreover have "z < length ts"
    using step range by (auto simp: depends_on_def edges_in_range_def)
  ultimately show ?case
    using step marks_covered_mark_stack [OF range cov] by (auto simp: marks_covered_def)
qed

lemma mark_stack_marks:
  assumes "edges_in_range ts" "\<forall>t \<in> set ts. \<not> t_should_work t"
    "\<forall>r \<in> set is. r < length ts" "j < length ts"
  shows "t_should_work (mark_stack is ts ! j) \<longleftrightarrow> (\<exists>r \<in> set is. (r, j) \<in> (depends_on ts)\<^sup>*)"
proof -
  have "marks_covered is ts"
    using assms(2) by (auto simp: marks_covered_def)
  then show ?thesis
    using assms mark_stack_sound [of j ts "is"] mark_stack_complete [of ts "is" _ j] by auto
qed

end
