(* ===== verification/Task_Graph_Safety.thy ===== *)
theory Task_Graph_Safety
  imports Task_Graph_Inv Task_Graph_Marks
begin

text \<open>
  The scheduling invariant: a task runs, starts or stops only while everything it depends
  on is running, whatever its handles do and whichever system call fails.
\<close>

section \<open>The invariant\<close>

text \<open>Whoever should work has everything it depends on marked as well.\<close>

definition closed_marks :: "task list \<Rightarrow> bool" where
  "closed_marks ts \<longleftrightarrow>
     (\<forall>i < length ts. t_should_work (ts ! i) \<longrightarrow>
        (\<forall>d \<in> set (t_dependencies (ts ! i)). t_should_work (ts ! d)))"

text \<open>
  What a task has told its neighbours may lag behind its state, but only in one
  direction: an unannounced activity is a start, an outdated claim to be up is a stop, and
  an open change is counted as pending.
\<close>

definition told :: "task \<Rightarrow> bool" where
  "told t \<longleftrightarrow>
     (t_active t \<and> \<not> t_counted_in_dependencies t \<longrightarrow> t_should_work t) \<and>
     (t_counted_in_dependants t \<and> \<not> t_up t \<longrightarrow> \<not> t_should_work t) \<and>
     (t_pending t \<longrightarrow> t_counted_in_pending_tasks t)"

definition ordered :: "task list \<Rightarrow> bool" where
  "ordered ts \<longleftrightarrow>
     (\<forall>i < length ts. t_active (ts ! i) \<longrightarrow> (\<forall>d \<in> set (t_dependencies (ts ! i)). t_up (ts ! d)))"

text \<open>A task on a dependency cycle is never started: something it needs is never up first.\<close>

definition cycles_idle :: "task list \<Rightarrow> bool" where
  "cycles_idle ts \<longleftrightarrow> (\<forall>i < length ts. (i, i) \<in> (depends_on ts)\<^sup>+ \<longrightarrow> \<not> t_active (ts ! i))"

definition sched_inv :: "'w initd_state \<Rightarrow> bool" where
  "sched_inv s \<longleftrightarrow>
     graph_wf (st_tasks s) \<and> counters_exact s \<and> closed_marks (st_tasks s) \<and>
     (\<forall>t \<in> set (st_tasks s). told t) \<and> ordered (st_tasks s) \<and> cycles_idle (st_tasks s)"

lemma sched_invD:
  assumes "sched_inv s"
  shows "graph_wf (st_tasks s)" "counters_exact s" "closed_marks (st_tasks s)"
    "ordered (st_tasks s)" "i < length (st_tasks s) \<Longrightarrow> told (st_tasks s ! i)"
    "cycles_idle (st_tasks s)"
  using assms by (auto simp: sched_inv_def)

lemma graph_wfD:
  assumes "graph_wf ts" "i < length ts"
  shows "d \<in> set (t_dependencies (ts ! i)) \<Longrightarrow> d < length ts"
    "u \<in> set (t_dependants (ts ! i)) \<Longrightarrow> u < length ts"
    "j < length ts \<Longrightarrow> j \<in> set (t_dependencies (ts ! i)) \<longleftrightarrow> i \<in> set (t_dependants (ts ! j))"
    "length (t_dependencies (ts ! i)) < 2 ^ 64" "length (t_dependants (ts ! i)) < 2 ^ 64"
proof -
  show "j \<in> set (t_dependencies (ts ! i)) \<longleftrightarrow> i \<in> set (t_dependants (ts ! j))" if "j < length ts"
    using assms that unfolding graph_wf_def by (metis count_list_0_iff)
qed (use assms in \<open>auto simp: graph_wf_def\<close>)

text \<open>Both relations between neighbours only look at what they mention.\<close>

lemma closed_marks_cong:
  assumes closed: "closed_marks ts" and wf: "graph_wf ts" and len: "length ts' = length ts"
    and eq: "\<And>j. j < length ts \<Longrightarrow> t_should_work (ts' ! j) = t_should_work (ts ! j) \<and>
      t_dependencies (ts' ! j) = t_dependencies (ts ! j)"
  shows "closed_marks ts'"
  unfolding closed_marks_def
proof (intro allI impI ballI)
  fix i d
  assume i: "i < length ts'" and "t_should_work (ts' ! i)" and "d \<in> set (t_dependencies (ts' ! i))"
  then have "t_should_work (ts ! i)" and d: "d \<in> set (t_dependencies (ts ! i))"
    using eq [of i] len by auto
  then have "t_should_work (ts ! d)"
    using closed i len unfolding closed_marks_def by metis
  then show "t_should_work (ts' ! d)"
    using eq [of d] graph_wfD(1) [OF wf _ d] i len by simp
qed

lemma ordered_cong:
  assumes ord: "ordered ts" and wf: "graph_wf ts" and len: "length ts' = length ts"
    and eq: "\<And>j. j < length ts \<Longrightarrow> t_handle (ts' ! j) = t_handle (ts ! j) \<and>
      t_dependencies (ts' ! j) = t_dependencies (ts ! j)"
  shows "ordered ts'"
  unfolding ordered_def
proof (intro allI impI ballI)
  fix i d
  assume i: "i < length ts'" and "t_active (ts' ! i)" and "d \<in> set (t_dependencies (ts' ! i))"
  then have "t_active (ts ! i)" and d: "d \<in> set (t_dependencies (ts ! i))"
    using eq [of i] len by (auto simp: task_views)
  then have "t_up (ts ! d)"
    using ord i len unfolding ordered_def by metis
  then show "t_up (ts' ! d)"
    using eq [of d] graph_wfD(1) [OF wf _ d] i len by (simp add: task_views)
qed

lemma depends_on_cong:
  assumes "length ts' = length ts"
    and "\<And>j. j < length ts \<Longrightarrow> t_dependencies (ts' ! j) = t_dependencies (ts ! j)"
  shows "depends_on ts' = depends_on ts"
  using assms by (auto simp: depends_on_def)

lemma cycles_idle_cong:
  assumes idle: "cycles_idle ts" and len: "length ts' = length ts"
    and eq: "\<And>j. j < length ts \<Longrightarrow> t_active (ts' ! j) = t_active (ts ! j) \<and>
      t_dependencies (ts' ! j) = t_dependencies (ts ! j)"
  shows "cycles_idle ts'"
proof -
  have "depends_on ts' = depends_on ts"
    by (rule depends_on_cong) (use len eq in auto)
  then show ?thesis
    using idle len eq by (simp add: cycles_idle_def)
qed

text \<open>Whoever lies on a cycle has a dependency on a cycle.\<close>

lemma cycle_dependency:
  assumes "(i, i) \<in> (depends_on ts)\<^sup>+"
  shows "\<exists>d \<in> set (t_dependencies (ts ! i)). (d, d) \<in> (depends_on ts)\<^sup>+"
proof -
  obtain d where d: "(i, d) \<in> depends_on ts" "(d, i) \<in> (depends_on ts)\<^sup>*"
    using assms by (meson tranclD)
  then have "(d, d) \<in> (depends_on ts)\<^sup>+"
    by (rule_tac rtrancl_into_trancl1)
  then show ?thesis
    using d by (auto simp: depends_on_def)
qed

section \<open>Reading the counters\<close>

lemma are_dependencies_running_iff:
  assumes "graph_wf (st_tasks s)" "counters_exact s" "i < length (st_tasks s)"
  shows "are_dependencies_running i s \<longleftrightarrow>
    (\<forall>d \<in> set (t_dependencies (st_tasks s ! i)). t_counted_in_dependants (st_tasks s ! d))"
proof -
  have "length (unready_dependencies (st_tasks s) i) < 2 ^ 64"
    using graph_wfD(4) [OF assms(1,3)] length_filter_le unfolding unready_dependencies_def
    by (rule le_less_trans [rotated])
  then show ?thesis
    using assms by (simp add: are_dependencies_running_def counters_exact_def of_nat_size_t_eq_0_iff)
      (auto simp: unready_dependencies_def filter_empty_conv)
qed

lemma are_dependants_stopped_iff:
  assumes "graph_wf (st_tasks s)" "counters_exact s" "i < length (st_tasks s)"
  shows "are_dependants_stopped i s \<longleftrightarrow>
    (\<forall>u \<in> set (t_dependants (st_tasks s ! i)). \<not> t_counted_in_dependencies (st_tasks s ! u))"
proof -
  have "length (busy_dependants (st_tasks s) i) < 2 ^ 64"
    using graph_wfD(5) [OF assms(1,3)] length_filter_le unfolding busy_dependants_def
    by (rule le_less_trans [rotated])
  then show ?thesis
    using assms by (simp add: are_dependants_stopped_def counters_exact_def of_nat_size_t_eq_0_iff)
      (auto simp: busy_dependants_def filter_empty_conv)
qed

lemma has_pending_operations_iff:
  assumes "graph_wf (st_tasks s)" "counters_exact s"
  shows "has_pending_operations s \<longleftrightarrow> (\<exists>t \<in> set (st_tasks s). t_counted_in_pending_tasks t)"
proof -
  have "length (pending_list (st_tasks s)) \<le> length (st_tasks s)"
    unfolding pending_list_def using length_filter_le [of _ "[0..<length (st_tasks s)]"] by simp
  then have "length (pending_list (st_tasks s)) < 2 ^ 64"
    using assms(1) by (simp add: graph_wf_def)
  then show ?thesis
    using assms(2) by (simp add: has_pending_operations_def counters_exact_def of_nat_size_t_eq_0_iff)
      (auto simp: pending_list_def filter_empty_conv, auto simp: in_set_conv_nth)
qed

section \<open>Changing one handle\<close>

lemma call_handle_fields [simp]:
  "length (st_tasks (fst (call_handle f i s))) = length (st_tasks s)"
  "st_run_levels (fst (call_handle f i s)) = st_run_levels s"
  "st_pending_tasks (fst (call_handle f i s)) = st_pending_tasks s"
  "snd (call_handle f i s) = snd (f (t_handle (st_tasks s ! i)) (st_env s))"
  "st_env (fst (call_handle f i s)) = snd (fst (f (t_handle (st_tasks s ! i)) (st_env s)))"
  by (simp_all add: call_handle_def split: prod.splits)

lemma nth_call_handle:
  "j < length (st_tasks s) \<Longrightarrow>
   st_tasks (fst (call_handle f i s)) ! j =
     (if j = i then (st_tasks s ! j)\<lparr>t_handle := fst (fst (f (t_handle (st_tasks s ! i)) (st_env s)))\<rparr>
      else st_tasks s ! j)"
  by (simp add: call_handle_def update_task_def nth_list_update_if split: prod.splits)

lemma call_handle_same_graph: "same_graph s (fst (call_handle f i s))"
  by (simp add: same_graph_def nth_call_handle)

lemma call_handle_graph [simp]:
  "graph_wf (st_tasks (fst (call_handle f i s))) = graph_wf (st_tasks s)"
  "graph_wf (st_tasks s) \<Longrightarrow> counters_exact (fst (call_handle f i s)) = counters_exact s"
  using call_handle_same_graph [of s f i] by (simp_all add: same_graph_wf same_graph_counters)

text \<open>A task is free to change when its dependencies are up and no dependant is active.\<close>

definition free_to_change :: "nat \<Rightarrow> 'w initd_state \<Rightarrow> bool" where
  "free_to_change i s \<longleftrightarrow>
     (\<forall>d \<in> set (t_dependencies (st_tasks s ! i)). d \<noteq> i \<and> t_up (st_tasks s ! d)) \<and>
     (\<forall>u < length (st_tasks s). i \<in> set (t_dependencies (st_tasks s ! u)) \<longrightarrow>
        \<not> t_active (st_tasks s ! u))"

lemma start_free:
  assumes inv: "sched_inv s" and i: "i < length (st_tasks s)"
    and idle: "\<not> t_up (st_tasks s ! i)" and marked: "t_should_work (st_tasks s ! i)"
    and ready: "are_dependencies_running i s"
  shows "free_to_change i s"
proof -
  note wf = sched_invD(1) [OF inv]
  have "t_up (st_tasks s ! d)" if d: "d \<in> set (t_dependencies (st_tasks s ! i))" for d
  proof -
    have "d < length (st_tasks s)" using graph_wfD(1) [OF wf i] d .
    moreover have "t_counted_in_dependants (st_tasks s ! d)"
      using ready d are_dependencies_running_iff [OF wf sched_invD(2) [OF inv] i] by blast
    moreover have "t_should_work (st_tasks s ! d)"
      using sched_invD(3) [OF inv] i marked d by (auto simp: closed_marks_def)
    ultimately show ?thesis
      using sched_invD(5) [OF inv, of d] by (auto simp: told_def)
  qed
  with idle show ?thesis
    using sched_invD(4) [OF inv] by (auto simp: free_to_change_def ordered_def)
qed

lemma stop_free:
  assumes inv: "sched_inv s" and i: "i < length (st_tasks s)"
    and act: "t_active (st_tasks s ! i)" and unmarked: "\<not> t_should_work (st_tasks s ! i)"
    and idle: "are_dependants_stopped i s"
  shows "free_to_change i s"
proof -
  note wf = sched_invD(1) [OF inv]
  have "\<not> t_active (st_tasks s ! u)"
    if u: "u < length (st_tasks s)" and dep: "i \<in> set (t_dependencies (st_tasks s ! u))" for u
  proof
    assume "t_active (st_tasks s ! u)"
    moreover have "u \<in> set (t_dependants (st_tasks s ! i))"
      using graph_wfD(3) [OF wf u i] dep by simp
    ultimately have "t_should_work (st_tasks s ! u)"
      using idle are_dependants_stopped_iff [OF wf sched_invD(2) [OF inv] i]
        sched_invD(5) [OF inv u] by (auto simp: told_def)
    then show False
      using sched_invD(3) [OF inv] u dep unmarked by (auto simp: closed_marks_def)
  qed
  then show ?thesis
    using act i sched_invD(4) [OF inv] unfolding free_to_change_def ordered_def by metis
qed

lemma transition_free:
  assumes inv: "sched_inv s" and i: "i < length (st_tasks s)" and trans: "is_in_transition i s"
  shows "free_to_change i s"
proof -
  have "t_active (st_tasks s ! i)" "\<not> t_up (st_tasks s ! i)"
    using trans by (auto simp: task_views)
  then show ?thesis
    using sched_invD(4) [OF inv] i by (auto simp: free_to_change_def ordered_def)
qed

text \<open>
  Any change of the handle of a task that is free keeps the invariant if the task's own flags
  stay on the safe side.
\<close>

lemma call_handle_sched_inv:
  assumes inv: "sched_inv s" and i: "i < length (st_tasks s)" and free: "free_to_change i s"
    and told: "told (st_tasks (fst (call_handle f i s)) ! i)"
  shows "sched_inv (fst (call_handle f i s))"
proof -
  have deps: "\<forall>d \<in> set (t_dependencies (st_tasks s ! i)). d \<noteq> i \<and> t_up (st_tasks s ! d)"
    and dependants: "\<forall>u < length (st_tasks s).
      i \<in> set (t_dependencies (st_tasks s ! u)) \<longrightarrow> \<not> t_active (st_tasks s ! u)"
    using free by (simp_all add: free_to_change_def)
  note wf = sched_invD(1) [OF inv]
  have "closed_marks (st_tasks (fst (call_handle f i s)))"
    using sched_invD(3) [OF inv] graph_wfD(1) [OF wf]
    by (auto simp: closed_marks_def nth_call_handle)
  moreover have "told t" if "t \<in> set (st_tasks (fst (call_handle f i s)))" for t
    using that told sched_invD(5) [OF inv] by (auto simp: in_set_conv_nth nth_call_handle)
  moreover have "ordered (st_tasks (fst (call_handle f i s)))"
    unfolding ordered_def
  proof (intro allI impI ballI)
    fix u d
    assume u: "u < length (st_tasks (fst (call_handle f i s)))"
      and act: "t_active (st_tasks (fst (call_handle f i s)) ! u)"
      and d: "d \<in> set (t_dependencies (st_tasks (fst (call_handle f i s)) ! u))"
    have d': "d \<in> set (t_dependencies (st_tasks s ! u))" "d < length (st_tasks s)"
      using u d graph_wfD(1) [OF wf, of u] by (auto simp: nth_call_handle split: if_splits)
    show "t_up (st_tasks (fst (call_handle f i s)) ! d)"
    proof (cases "u = i")
      case True
      then show ?thesis using deps d' by (simp add: nth_call_handle)
    next
      case False
      then have "t_active (st_tasks s ! u)"
        using act u by (simp add: nth_call_handle)
      then show ?thesis
        using False u d' dependants sched_invD(4) [OF inv] by (auto simp: nth_call_handle ordered_def)
    qed
  qed
  moreover have "cycles_idle (st_tasks (fst (call_handle f i s)))"
  proof -
    have same: "depends_on (st_tasks (fst (call_handle f i s))) = depends_on (st_tasks s)"
      by (rule depends_on_cong) (simp_all add: nth_call_handle)
    have "(i, i) \<notin> (depends_on (st_tasks s))\<^sup>+"
    proof
      assume "(i, i) \<in> (depends_on (st_tasks s))\<^sup>+"
      then obtain d where d: "d \<in> set (t_dependencies (st_tasks s ! i))"
          "(d, d) \<in> (depends_on (st_tasks s))\<^sup>+"
        using cycle_dependency by blast
      then show False
        using deps sched_invD(6) [OF inv] graph_wfD(1) [OF wf i] t_up_active
        unfolding cycles_idle_def by blast
    qed
    then show ?thesis
      using sched_invD(6) [OF inv] by (auto simp: cycles_idle_def same nth_call_handle)
  qed
  ultimately show ?thesis
    using inv wf by (auto simp: sched_inv_def)
qed

lemma start_sched_inv:
  assumes inv: "sched_inv s" and i: "i < length (st_tasks s)"
    and idle: "\<not> t_up (st_tasks s ! i)" and marked: "t_should_work (st_tasks s ! i)"
    and ready: "are_dependencies_running i s"
  shows "sched_inv (fst (call_handle f i s))"
  by (rule call_handle_sched_inv [OF inv i start_free [OF assms]])
     (use sched_invD(5) [OF inv i] i idle marked in \<open>auto simp: nth_call_handle told_def task_views\<close>)

lemma stop_sched_inv:
  assumes inv: "sched_inv s" and i: "i < length (st_tasks s)"
    and act: "t_active (st_tasks s ! i)" and unmarked: "\<not> t_should_work (st_tasks s ! i)"
    and idle: "are_dependants_stopped i s"
  shows "sched_inv (fst (call_handle f i s))"
  by (rule call_handle_sched_inv [OF inv i stop_free [OF assms]])
     (use sched_invD(5) [OF inv i] i act unmarked in \<open>auto simp: nth_call_handle told_def task_views\<close>)

lemma transition_sched_inv:
  assumes inv: "sched_inv s" and i: "i < length (st_tasks s)" and trans: "is_in_transition i s"
  shows "sched_inv (fst (call_handle f i s))"
  by (rule call_handle_sched_inv [OF inv i transition_free [OF assms]])
     (use sched_invD(5) [OF inv i] i trans in \<open>auto simp: nth_call_handle told_def task_views\<close>)

section \<open>Enqueueing\<close>

definition levels_wf :: "'w initd_state \<Rightarrow> bool" where
  "levels_wf s \<longleftrightarrow>
     (\<forall>(n, rs) \<in> set (st_run_levels s). \<forall>r \<in> set rs. r < length (st_tasks s))"

text \<open>The invariant of the whole scheduler state, with the number of tasks fixed.\<close>

definition initd_inv :: "nat \<Rightarrow> 'w initd_state \<Rightarrow> bool" where
  "initd_inv n s \<longleftrightarrow> sched_inv s \<and> levels_wf s \<and> length (st_tasks s) = n"

lemma initd_invD:
  assumes "initd_inv n s"
  shows "sched_inv s" "levels_wf s" "length (st_tasks s) = n"
  using assms by (simp_all add: initd_inv_def)

lemma levels_wf_call_handle [simp]: "levels_wf (fst (call_handle f i s)) = levels_wf s"
  by (simp add: levels_wf_def)

lemma enqueue_this_inv:
  assumes inv: "initd_inv n s" and i: "i < n"
  shows "initd_inv n (fst (enqueue_this os i s))"
  unfolding enqueue_this_def
proof (rule and_then_inv)
  show "initd_inv n (fst (if (\<not> is_running i s \<or> is_in_transition i s) \<and>
      t_should_work (st_tasks s ! i) \<and> are_dependencies_running i s
      then call_handle (h_set_should_work os i True) i s else (s, Done)))"
    using inv i start_sched_inv [of s i]
    by (auto simp: initd_inv_def task_views)
next
  fix s :: "'a initd_state"
  assume "initd_inv n s"
  then show "initd_inv n (fst (if (is_running i s \<or> is_in_transition i s) \<and>
      \<not> t_should_work (st_tasks s ! i) \<and> are_dependants_stopped i s
      then call_handle (h_set_should_work os i False) i s else (s, Done)))"
    using i stop_sched_inv [of s i]
    by (auto simp: initd_inv_def task_views)
qed

lemma enqueue_tasks_inv:
  assumes "initd_inv n s" and "\<forall>i \<in> set tts. i < n"
  shows "initd_inv n (fst (enqueue_tasks os tts s))"
  unfolding enqueue_tasks_def
  by (rule for_each_inv) (use assms in \<open>auto intro: enqueue_this_inv\<close>)

lemma enqueue_all_inv:
  assumes "initd_inv n s"
  shows "initd_inv n (fst (enqueue_all os s))"
  unfolding enqueue_all_def
  by (rule enqueue_tasks_inv) (use assms in \<open>auto dest: initd_invD(3)\<close>)

section \<open>Synchronising\<close>

text \<open>A task that has told its neighbours everything.\<close>

definition announced :: "task \<Rightarrow> bool" where
  "announced t \<longleftrightarrow>
     t_counted_in_dependencies t = t_active t \<and> t_counted_in_dependants t = t_up t \<and>
     t_counted_in_pending_tasks t = t_pending t"

lemma announced_told: "announced t \<Longrightarrow> told t"
  by (auto simp: announced_def told_def task_views)

lemma task_sync_task_fields:
  assumes "i < length (st_tasks s)" "j < length (st_tasks s)"
  shows "t_handle (st_tasks (task_sync i s) ! j) = t_handle (st_tasks s ! j)"
    "t_should_work (st_tasks (task_sync i s) ! j) = t_should_work (st_tasks s ! j)"
    "t_dependencies (st_tasks (task_sync i s) ! j) = t_dependencies (st_tasks s ! j)"
    "t_dependants (st_tasks (task_sync i s) ! j) = t_dependants (st_tasks s ! j)"
  using assms by (simp_all add: task_sync_nth)

lemma task_sync_flags:
  assumes "i < length (st_tasks s)" "j < length (st_tasks s)"
  shows "t_counted_in_dependencies (st_tasks (task_sync i s) ! j) =
      (if j = i then t_active (st_tasks s ! i) else t_counted_in_dependencies (st_tasks s ! j))"
    "t_counted_in_dependants (st_tasks (task_sync i s) ! j) =
      (if j = i then t_up (st_tasks s ! i) else t_counted_in_dependants (st_tasks s ! j))"
    "t_counted_in_pending_tasks (st_tasks (task_sync i s) ! j) =
      (if j = i then t_pending (st_tasks s ! i) else t_counted_in_pending_tasks (st_tasks s ! j))"
  using assms by (simp_all add: task_sync_nth)

lemma task_sync_views:
  assumes "i < length (st_tasks s)" "j < length (st_tasks s)"
  shows "t_active (st_tasks (task_sync i s) ! j) = t_active (st_tasks s ! j)"
    "t_up (st_tasks (task_sync i s) ! j) = t_up (st_tasks s ! j)"
    "t_pending (st_tasks (task_sync i s) ! j) = t_pending (st_tasks s ! j)"
  using task_sync_task_fields [OF assms] by (simp_all add: task_views)

lemmas task_sync_facts = task_sync_task_fields task_sync_flags task_sync_views

lemma announced_sync:
  assumes "i < length (st_tasks s)" "j < length (st_tasks s)" "j = i \<or> announced (st_tasks s ! j)"
  shows "announced (st_tasks (task_sync i s) ! j)"
  using assms by (auto simp: announced_def task_sync_facts)

lemma told_sync:
  assumes "i < length (st_tasks s)" "j < length (st_tasks s)" "told (st_tasks s ! j)"
  shows "told (st_tasks (task_sync i s) ! j)"
proof (cases "j = i")
  case True
  then show ?thesis using assms by (simp add: announced_sync announced_told)
next
  case False
  then show ?thesis using assms by (simp add: told_def task_sync_facts)
qed

text \<open>The part of the invariant that holds while marks are being changed.\<close>

definition core_inv :: "nat \<Rightarrow> 'w initd_state \<Rightarrow> bool" where
  "core_inv n s \<longleftrightarrow> graph_wf (st_tasks s) \<and> counters_exact s \<and> ordered (st_tasks s) \<and>
     cycles_idle (st_tasks s) \<and> levels_wf s \<and> length (st_tasks s) = n"

lemma initd_inv_core:
  "initd_inv n s \<longleftrightarrow>
     core_inv n s \<and> closed_marks (st_tasks s) \<and> (\<forall>t \<in> set (st_tasks s). told t)"
  by (auto simp: initd_inv_def core_inv_def sched_inv_def)

lemma core_invD:
  assumes "core_inv n s"
  shows "graph_wf (st_tasks s)" "counters_exact s" "ordered (st_tasks s)" "levels_wf s"
    "length (st_tasks s) = n" "cycles_idle (st_tasks s)"
  using assms by (simp_all add: core_inv_def)

lemma ordered_sync:
  assumes "ordered (st_tasks s)" "graph_wf (st_tasks s)" "i < length (st_tasks s)"
  shows "ordered (st_tasks (task_sync i s))"
  by (rule ordered_cong [OF assms(1,2)]) (simp_all add: task_sync_facts assms(3))

lemma closed_marks_sync:
  assumes "closed_marks (st_tasks s)" "graph_wf (st_tasks s)" "i < length (st_tasks s)"
  shows "closed_marks (st_tasks (task_sync i s))"
  by (rule closed_marks_cong [OF assms(1,2)]) (simp_all add: task_sync_facts assms(3))

lemma core_inv_sync:
  assumes "core_inv n s" "i < n"
  shows "core_inv n (task_sync i s)"
proof -
  have "levels_wf (task_sync i s)"
    using core_invD(4) [OF assms(1)] by (simp add: levels_wf_def)
  moreover have "cycles_idle (st_tasks (task_sync i s))"
    by (rule cycles_idle_cong [OF core_invD(6) [OF assms(1)]])
       (use core_invD(5) [OF assms(1)] assms(2) in \<open>simp_all add: task_sync_facts\<close>)
  ultimately show ?thesis
    using assms core_invD [OF assms(1)] by (simp add: core_inv_def counters_exact_sync ordered_sync)
qed

lemma all_told_sync:
  assumes "\<forall>t \<in> set (st_tasks s). told t" "i < length (st_tasks s)"
  shows "\<forall>t \<in> set (st_tasks (task_sync i s)). told t"
  using assms told_sync [of i s] by (auto simp: all_set_conv_all_nth)

lemma sync_inv:
  assumes "initd_inv n s" "i < n"
  shows "initd_inv n (task_sync i s)"
proof -
  have "core_inv n s" "closed_marks (st_tasks s)" "\<forall>t \<in> set (st_tasks s). told t"
    using assms(1) by (auto simp: initd_inv_core)
  then show ?thesis
    using assms(2) core_invD [of n s]
    by (simp add: initd_inv_core core_inv_sync closed_marks_sync all_told_sync)
qed

lemma foldl_sync:
  assumes "core_inv n s" "closed_marks (st_tasks s)" "\<forall>i \<in> set xs. i < n"
    and "\<forall>j < n. j \<notin> set xs \<longrightarrow> announced (st_tasks s ! j)"
  shows "core_inv n (foldl (\<lambda>s i. task_sync i s) s xs) \<and>
    closed_marks (st_tasks (foldl (\<lambda>s i. task_sync i s) s xs)) \<and>
    (\<forall>t \<in> set (st_tasks (foldl (\<lambda>s i. task_sync i s) s xs)). announced t)"
  using assms
proof (induction xs arbitrary: s)
  case Nil
  then show ?case by (auto simp: all_set_conv_all_nth core_inv_def)
next
  case (Cons i xs)
  have n: "length (st_tasks s) = n" using Cons.prems(1) by (simp add: core_inv_def)
  have "\<forall>j < n. j \<notin> set xs \<longrightarrow> announced (st_tasks (task_sync i s) ! j)"
    using Cons.prems(3,4) n announced_sync [of i s] by auto
  moreover have "core_inv n (task_sync i s)" "closed_marks (st_tasks (task_sync i s))"
    using Cons.prems(1-3) n core_invD(1) [OF Cons.prems(1)]
    by (simp_all add: core_inv_sync closed_marks_sync)
  ultimately have "core_inv n (foldl (\<lambda>s i. task_sync i s) (task_sync i s) xs) \<and>
    closed_marks (st_tasks (foldl (\<lambda>s i. task_sync i s) (task_sync i s) xs)) \<and>
    (\<forall>t \<in> set (st_tasks (foldl (\<lambda>s i. task_sync i s) (task_sync i s) xs)). announced t)"
    using Cons.prems(3) by (intro Cons.IH) auto
  then show ?case by simp
qed

lemma sync_all_inv:
  assumes "core_inv n s" "closed_marks (st_tasks s)"
  shows "initd_inv n (sync_all s)" "\<forall>t \<in> set (st_tasks (sync_all s)). announced t"
proof -
  have "length (st_tasks s) = n" using assms by (simp add: core_inv_def)
  then have "core_inv n (sync_all s) \<and> closed_marks (st_tasks (sync_all s)) \<and>
      (\<forall>t \<in> set (st_tasks (sync_all s)). announced t)"
    unfolding sync_all_def by (intro foldl_sync) (use assms in auto)
  then show "initd_inv n (sync_all s)" "\<forall>t \<in> set (st_tasks (sync_all s)). announced t"
    by (auto simp: initd_inv_core announced_told)
qed

section \<open>Changing the run level\<close>

lemma clear_should_work_flag_nth:
  assumes "j < length (st_tasks s)"
  shows "st_tasks (clear_should_work_flag s) ! j = (st_tasks s ! j)\<lparr>t_should_work := False\<rparr>"
  using assms by (simp add: clear_should_work_flag_def clear_should_work_def nth_fold_update_task
      count_list_upt)

lemma clear_should_work_flag_fields [simp]:
  "length (st_tasks (clear_should_work_flag s)) = length (st_tasks s)"
  "st_run_levels (clear_should_work_flag s) = st_run_levels s"
  "st_pending_tasks (clear_should_work_flag s) = st_pending_tasks s"
  "st_env (clear_should_work_flag s) = st_env s"
  by (simp_all add: clear_should_work_flag_def clear_should_work_def fold_update_task_fields)

lemma core_inv_same_graph:
  assumes core: "core_inv n s" and sg: "same_graph s s'"
    and rl: "st_run_levels s' = st_run_levels s"
    and h: "\<forall>j < length (st_tasks s). t_handle (st_tasks s' ! j) = t_handle (st_tasks s ! j)"
  shows "core_inv n s'"
proof -
  have len: "length (st_tasks s') = n"
    using sg core_invD(5) [OF core] by (simp add: same_graph_def)
  have "ordered (st_tasks s')"
    by (rule ordered_cong [OF core_invD(3,1) [OF core]])
       (use sg h in \<open>auto simp: same_graph_def\<close>)
  moreover have "cycles_idle (st_tasks s')"
    by (rule cycles_idle_cong [OF core_invD(6) [OF core]])
       (use sg h in \<open>auto simp: same_graph_def task_views\<close>)
  moreover have "levels_wf s'"
    using core_invD(4,5) [OF core] len rl by (simp add: levels_wf_def)
  ultimately show ?thesis
    using core_invD [OF core] sg len
    by (simp add: core_inv_def same_graph_wf same_graph_counters)
qed

lemma core_inv_clear:
  "core_inv n s \<Longrightarrow> core_inv n (clear_should_work_flag s)"
  by (erule core_inv_same_graph) (simp_all add: same_graph_def clear_should_work_flag_nth)

lemma closed_marks_clear: "closed_marks (st_tasks (clear_should_work_flag s))"
  by (simp add: closed_marks_def clear_should_work_flag_nth)

lemma mark_requisites_fields [simp]:
  "st_run_levels (mark_requisites rs s) = st_run_levels s"
  "st_pending_tasks (mark_requisites rs s) = st_pending_tasks s"
  "st_env (mark_requisites rs s) = st_env s"
  by (simp_all add: mark_requisites_def)

lemma mark_requisites_nth:
  assumes "graph_wf (st_tasks s)" "\<forall>r \<in> set rs. r < length (st_tasks s)" "j < length (st_tasks s)"
  shows "st_tasks (mark_requisites rs s) ! j =
    (st_tasks s ! j)\<lparr>t_should_work := t_should_work (st_tasks (mark_requisites rs s) ! j)\<rparr>"
  using assms by (simp add: mark_requisites_stack nth_mark_stack [symmetric])

lemma same_graph_mark:
  assumes "graph_wf (st_tasks s)" "\<forall>r \<in> set rs. r < length (st_tasks s)"
  shows "same_graph s (mark_requisites rs s)"
    "\<forall>j < length (st_tasks s). t_handle (st_tasks (mark_requisites rs s) ! j) = t_handle (st_tasks s ! j)"
proof -
  have len: "length (st_tasks (mark_requisites rs s)) = length (st_tasks s)"
    using assms by (simp add: mark_requisites_stack)
  have fields: "t_dependencies (st_tasks (mark_requisites rs s) ! j) = t_dependencies (st_tasks s ! j)"
    "t_dependants (st_tasks (mark_requisites rs s) ! j) = t_dependants (st_tasks s ! j)"
    "t_stopped_dependencies (st_tasks (mark_requisites rs s) ! j) = t_stopped_dependencies (st_tasks s ! j)"
    "t_running_dependants (st_tasks (mark_requisites rs s) ! j) = t_running_dependants (st_tasks s ! j)"
    "t_counted_in_dependencies (st_tasks (mark_requisites rs s) ! j) = t_counted_in_dependencies (st_tasks s ! j)"
    "t_counted_in_dependants (st_tasks (mark_requisites rs s) ! j) = t_counted_in_dependants (st_tasks s ! j)"
    "t_counted_in_pending_tasks (st_tasks (mark_requisites rs s) ! j) = t_counted_in_pending_tasks (st_tasks s ! j)"
    "t_handle (st_tasks (mark_requisites rs s) ! j) = t_handle (st_tasks s ! j)"
    if "j < length (st_tasks s)" for j
    by (subst mark_requisites_nth [OF assms that], simp)+
  show "same_graph s (mark_requisites rs s)"
    by (simp add: same_graph_def len fields)
  show "\<forall>j < length (st_tasks s). t_handle (st_tasks (mark_requisites rs s) ! j) = t_handle (st_tasks s ! j)"
    by (simp add: fields)
qed

lemma core_inv_mark:
  assumes core: "core_inv n s" and rs: "\<forall>r \<in> set rs. r < n"
  shows "core_inv n (mark_requisites rs s)"
  using core_invD [OF core] rs same_graph_mark [of s rs]
  by (intro core_inv_same_graph [OF core]) auto

lemma closed_marks_mark:
  assumes core: "core_inv n s" and rs: "\<forall>r \<in> set rs. r < n"
    and clear: "\<forall>t \<in> set (st_tasks s). \<not> t_should_work t"
  shows "closed_marks (st_tasks (mark_requisites rs s))"
proof -
  have "marks_covered rs (st_tasks s)"
    using clear by (auto simp: marks_covered_def)
  then have "marks_covered [] (st_tasks (mark_requisites rs s))"
    using core_invD [OF core] rs
    by (simp add: mark_requisites_stack marks_covered_mark_stack graph_wf_edges_in_range)
  then show ?thesis
    by (auto simp: marks_covered_def closed_marks_def)
qed

text \<open>The state in which a new run level has been computed and announced, before anything starts.\<close>

definition retargeted :: "nat list \<Rightarrow> 'w initd_state \<Rightarrow> 'w initd_state" where
  "retargeted rs s = sync_all (mark_requisites rs (clear_should_work_flag s))"

lemma mark_requisites_Nil [simp]: "mark_requisites [] s = s"
  by (simp add: mark_requisites_def)

lemma set_run_level_retargeted:
  "set_run_level os name s =
     (case mm_find (st_run_levels s) name of
        None \<Rightarrow> (s, Threw (''run level \"'' @ name @ ''\" is not found''))
      | Some rs \<Rightarrow> enqueue_all os (retargeted rs s))"
  "set_empty_run_level os s = enqueue_all os (retargeted [] s)"
  by (simp_all add: set_run_level_def set_empty_run_level_def retargeted_def split: option.splits)

lemma retargeted_inv:
  assumes core: "core_inv n s" and rs: "\<forall>r \<in> set rs. r < n"
  shows "initd_inv n (retargeted rs s)"
    "\<forall>t \<in> set (st_tasks (retargeted rs s)). announced t"
proof -
  have clear: "core_inv n (clear_should_work_flag s)"
    by (rule core_inv_clear [OF core])
  have "\<forall>t \<in> set (st_tasks (clear_should_work_flag s)). \<not> t_should_work t"
    by (simp add: all_set_conv_all_nth clear_should_work_flag_nth)
  then have "closed_marks (st_tasks (mark_requisites rs (clear_should_work_flag s)))"
    by (rule closed_marks_mark [OF clear rs])
  with core_inv_mark [OF clear rs]
  show "initd_inv n (retargeted rs s)"
    "\<forall>t \<in> set (st_tasks (retargeted rs s)). announced t"
    unfolding retargeted_def by (rule sync_all_inv)+
qed

lemma find_level_in_range:
  assumes "levels_wf s" "mm_find (st_run_levels s) name = Some rs"
  shows "\<forall>r \<in> set rs. r < length (st_tasks s)"
  using assms by (auto simp: levels_wf_def mm_find_map_of dest: map_of_SomeD)

lemma set_run_level_inv:
  assumes inv: "initd_inv n s"
  shows "initd_inv n (fst (set_run_level os name s))"
proof (cases "mm_find (st_run_levels s) name")
  case None
  then show ?thesis using inv by (simp add: set_run_level_retargeted)
next
  case (Some rs)
  then have "\<forall>r \<in> set rs. r < n"
    using find_level_in_range inv by (fastforce simp: initd_inv_def)
  moreover have "core_inv n s"
    using inv by (simp add: initd_inv_core)
  ultimately show ?thesis
    using Some by (simp add: set_run_level_retargeted enqueue_all_inv retargeted_inv)
qed

lemma set_empty_run_level_inv:
  assumes "initd_inv n s"
  shows "initd_inv n (fst (set_empty_run_level os s))"
proof -
  have "core_inv n s" using assms by (simp add: initd_inv_core)
  then show ?thesis by (simp add: set_run_level_retargeted enqueue_all_inv retargeted_inv)
qed

section \<open>Callbacks\<close>

lemma current_state_changed_inv:
  assumes inv: "initd_inv n s" and i: "i < n"
  shows "initd_inv n (fst (current_state_changed os i s))"
proof -
  have sync: "initd_inv n (task_sync i s)" by (rule sync_inv [OF inv i])
  have "\<forall>j \<in> set (t_dependants (st_tasks (task_sync i s) ! i)). j < n"
    "\<forall>j \<in> set (t_dependencies (st_tasks (task_sync i s) ! i)). j < n"
    using graph_wfD(1,2) [OF sched_invD(1) [OF initd_invD(1) [OF sync]], of i] initd_invD(3) [OF sync] i
    by auto
  with sync show ?thesis
    by (simp add: current_state_changed_def Let_def enqueue_tasks_inv)
qed

lemma h_complete_keeps_views:
  assumes "\<not> h_is_in_transition h"
  shows "h_is_running (fst (fst (h_complete os i h e))) = h_is_running h"
    "h_is_in_transition (fst (fst (h_complete os i h e))) = h_is_in_transition h"
proof -
  have "fst (fst (h_complete os i h e)) = h" if "h = Start_stop_handle t" for t
    using assms that
    by (cases "ss_current_operation t") (simp_all add: ss_is_in_transition_def ss_operation_finished_def)
  then show "h_is_running (fst (fst (h_complete os i h e))) = h_is_running h"
    "h_is_in_transition (fst (fst (h_complete os i h e))) = h_is_in_transition h"
    by (cases h; simp)+
qed

lemma unchanged_views_inv:
  assumes inv: "sched_inv s" and i: "i < length (st_tasks s)"
    and views: "h_is_running (fst (fst (f (t_handle (st_tasks s ! i)) (st_env s)))) = is_running i s"
      "h_is_in_transition (fst (fst (f (t_handle (st_tasks s ! i)) (st_env s)))) = is_in_transition i s"
  shows "sched_inv (fst (call_handle f i s))"
proof -
  let ?s' = "fst (call_handle f i s)"
  have same: "t_active (st_tasks ?s' ! j) = t_active (st_tasks s ! j)"
    "t_up (st_tasks ?s' ! j) = t_up (st_tasks s ! j)"
    "t_pending (st_tasks ?s' ! j) = t_pending (st_tasks s ! j)"
    if "j < length (st_tasks s)" for j
    using views that by (auto simp: nth_call_handle task_views)
  note wf = sched_invD(1) [OF inv]
  have "closed_marks (st_tasks ?s')"
    by (rule closed_marks_cong [OF sched_invD(3,1) [OF inv]]) (auto simp: nth_call_handle)
  moreover have "\<forall>t \<in> set (st_tasks ?s'). told t"
    using sched_invD(5) [OF inv] same by (auto simp: all_set_conv_all_nth told_def nth_call_handle)
  moreover have "ordered (st_tasks ?s')"
    unfolding ordered_def
  proof (intro allI impI ballI)
    fix j d
    assume j: "j < length (st_tasks ?s')" and act: "t_active (st_tasks ?s' ! j)"
      and "d \<in> set (t_dependencies (st_tasks ?s' ! j))"
    then have d: "d \<in> set (t_dependencies (st_tasks s ! j))"
      by (auto simp: nth_call_handle split: if_splits)
    then have "t_up (st_tasks s ! d)"
      using sched_invD(4) [OF inv] j act same(1) [of j] by (auto simp: ordered_def)
    then show "t_up (st_tasks ?s' ! d)"
      using same(2) [of d] graph_wfD(1) [OF wf _ d] j by simp
  qed
  moreover have "cycles_idle (st_tasks ?s')"
    by (rule cycles_idle_cong [OF sched_invD(6) [OF inv]])
       (use same in \<open>auto simp: nth_call_handle\<close>)
  ultimately show ?thesis
    using inv wf by (simp add: sched_inv_def)
qed

lemma complete_inv:
  assumes inv: "initd_inv n s" and i: "i < n"
  shows "initd_inv n (fst (call_handle (h_complete os i) i s))"
proof -
  have "sched_inv (fst (call_handle (h_complete os i) i s))"
  proof (cases "is_in_transition i s")
    case True
    then show ?thesis using inv i by (intro transition_sched_inv) (auto simp: initd_inv_def)
  next
    case False
    then show ?thesis
      using inv i h_complete_keeps_views [of "t_handle (st_tasks s ! i)" os i "st_env s"]
      by (intro unchanged_views_inv) (auto simp: initd_inv_def is_running_def is_in_transition_def)
  qed
  with inv show ?thesis by (simp add: initd_inv_def)
qed

lemma task_completed_inv:
  assumes "initd_inv n s" and "i < n"
  shows "initd_inv n (fst (task_completed os i s))"
  unfolding task_completed_def
  by (rule and_then_inv) (use assms in \<open>auto intro: complete_inv current_state_changed_inv\<close>)

end
