(* ===== verification/Task_Graph_Init.thy ===== *)
theory Task_Graph_Init
  imports Task_Graph_Safety
begin

text \<open>
  The constructor of \<^verbatim>\<open>initd_state\<close> builds the graph the descriptions state and
  establishes the scheduling invariant; the loop of \<^verbatim>\<open>sigchild_handler\<close> keeps it.
\<close>

section \<open>Edges\<close>

lemma for_each_append: "for_each f (xs @ ys) s = and_then (for_each f xs s) (for_each f ys)"
proof (induction xs arbitrary: s)
  case (Cons x xs)
  show ?case
    by (cases "f x s") (auto simp: and_then_def Cons.IH)
qed (simp add: and_then_def)

definition add_edges :: "(nat \<times> nat) list \<Rightarrow> 'w initd_state \<Rightarrow> 'w initd_state \<times> outcome" where
  "add_edges es = for_each (\<lambda>(i, d). add_task_dependency i d) es"

definition edges_of :: "task_descriptions \<Rightarrow> nat \<Rightarrow> (nat \<times> nat) list" where
  "edges_of tds i = map (Pair i) (td_dependencies (all_tasks tds ! i))"

definition all_edges :: "task_descriptions \<Rightarrow> (nat \<times> nat) list" where
  "all_edges tds = concat (map (edges_of tds) [0..<length (all_tasks tds)])"

text \<open>What a task looks like once the edges \<open>es\<close> have been entered.\<close>

definition edge_task :: "async_task_handle \<Rightarrow> nat \<Rightarrow> (nat \<times> nat) list \<Rightarrow> task" where
  "edge_task h j es =
     (new_task h)
       \<lparr>t_dependencies := map snd (filter (\<lambda>e. fst e = j) es),
        t_dependants := map fst (filter (\<lambda>e. snd e = j) es),
        t_stopped_dependencies := of_nat (length (filter (\<lambda>e. fst e = j) es))\<rparr>"

definition built :: "async_task_handle list \<Rightarrow> (nat \<times> nat) list \<Rightarrow> 'w env \<Rightarrow> 'w initd_state \<Rightarrow> bool" where
  "built hs es e s \<longleftrightarrow>
     s = \<lparr>st_tasks = map (\<lambda>j. edge_task (hs ! j) j es) [0..<length hs], st_run_levels = [],
          st_pending_tasks = 0, st_env = e\<rparr>"

lemma built_add_task_dependency:
  assumes b: "built hs es e s" and idle: "\<forall>h \<in> set hs. \<not> h_is_running h"
    and i: "i < length hs" and d: "d < length hs"
  shows "snd (add_task_dependency i d s) = Done \<and>
    built hs (es @ [(i, d)]) e (fst (add_task_dependency i d s))"
proof -
  have "\<not> is_running d s"
    using b d idle by (simp add: built_def is_running_def edge_task_def new_task_def)
  then have eq: "add_task_dependency i d s =
     (update_task i (\<lambda>t. t\<lparr>t_stopped_dependencies := t_stopped_dependencies t + 1\<rparr>)
       (update_task d (\<lambda>t. t\<lparr>t_dependants := t_dependants t @ [i]\<rparr>)
         (update_task i (\<lambda>t. t\<lparr>t_dependencies := t_dependencies t @ [d]\<rparr>) s)), Done)"
    by (simp add: add_task_dependency_def Let_def)
  have len: "length (st_tasks s) = length hs"
    and nth: "\<And>j. j < length hs \<Longrightarrow> st_tasks s ! j = edge_task (hs ! j) j es"
    using b by (simp_all add: built_def)
  have "st_tasks (fst (add_task_dependency i d s)) ! j = edge_task (hs ! j) j (es @ [(i, d)])"
    if "j < length hs" for j
    using that i d unfolding eq by (simp add: nth_update_task len nth) (simp add: edge_task_def)
  then have "st_tasks (fst (add_task_dependency i d s)) =
      map (\<lambda>j. edge_task (hs ! j) j (es @ [(i, d)])) [0..<length hs]"
    by (intro nth_equalityI) (simp_all add: eq len)
  moreover have "st_run_levels (fst (add_task_dependency i d s)) = []"
    "st_pending_tasks (fst (add_task_dependency i d s)) = 0"
    "st_env (fst (add_task_dependency i d s)) = e"
    using b by (simp_all add: eq) (simp_all add: built_def)
  ultimately show ?thesis
    by (simp add: eq built_def initd_state.equality)
qed

lemma built_add_edges:
  assumes "built hs es e s" and "\<forall>h \<in> set hs. \<not> h_is_running h"
    and "\<forall>(i, d) \<in> set es'. i < length hs \<and> d < length hs"
  shows "snd (add_edges es' s) = Done \<and> built hs (es @ es') e (fst (add_edges es' s))"
  using assms
proof (induction es' arbitrary: es s)
  case Nil
  then show ?case by (simp add: add_edges_def)
next
  case (Cons ed es')
  obtain i d where ed: "ed = (i, d)" by force
  obtain s1 where s1: "add_task_dependency i d s = (s1, Done)" "built hs (es @ [(i, d)]) e s1"
    using built_add_task_dependency [OF Cons.prems(1,2), of i d] Cons.prems(3) ed
    by (cases "add_task_dependency i d s") auto
  then show ?case
    using Cons.IH [OF s1(2)] Cons.prems(2,3) ed by (auto simp: add_edges_def)
qed

section \<open>The constructor\<close>

lemma for_each_cong_inv:
  assumes "P s" and "\<And>x s. x \<in> set xs \<Longrightarrow> P s \<Longrightarrow> f x s = g x s \<and> P (fst (g x s))"
  shows "for_each f xs s = for_each g xs s"
  using assms
proof (induction xs arbitrary: s)
  case (Cons x xs)
  then have "f x s = g x s" "P (fst (g x s))" by auto
  then show ?case
    using Cons by (cases "g x s") (auto simp: and_then_def)
qed simp

lemma for_each_concat:
  "for_each f (concat (map g xs)) s = for_each (\<lambda>x. for_each f (g x)) xs s"
proof (induction xs arbitrary: s)
  case (Cons x xs)
  show ?case
    by (cases "for_each f (g x) s") (auto simp: for_each_append and_then_def Cons.IH)
qed simp

lemma for_each_map: "for_each f (map g xs) s = for_each (\<lambda>x. f (g x)) xs s"
  by (induction xs arbitrary: s) (auto simp: and_then_def split: prod.splits)

lemma length_add_task_dependency [simp]:
  "length (st_tasks (fst (add_task_dependency i d s))) = length (st_tasks s)"
  by (simp add: add_task_dependency_def Let_def)

lemma add_dependencies_of_edges:
  assumes wf: "wf_descriptions tds" and i: "i < length (all_tasks tds)"
    and len: "length (st_tasks s) = length (all_tasks tds)"
  shows "add_dependencies_of tds i s = add_edges (edges_of tds i) s"
    "length (st_tasks (fst (add_edges (edges_of tds i) s))) = length (all_tasks tds)"
proof -
  let ?n = "length (all_tasks tds)"
  have deps: "\<forall>d \<in> set (td_dependencies (all_tasks tds ! i)). d < ?n"
    using wf i by (auto simp: wf_descriptions_def)
  have "for_each (\<lambda>dep s. if dep < length (st_tasks s) then add_task_dependency i dep s
                       else (s, Aborted ''descr_to_task.find(dep)->second''))
         (td_dependencies (all_tasks tds ! i)) s =
       for_each (\<lambda>dep. add_task_dependency i dep) (td_dependencies (all_tasks tds ! i)) s"
    by (rule for_each_cong_inv [where P = "\<lambda>s. length (st_tasks s) = ?n"]) (use len deps in auto)
  then show "add_dependencies_of tds i s = add_edges (edges_of tds i) s"
    by (simp add: add_dependencies_of_def add_edges_def edges_of_def for_each_map)
  show "length (st_tasks (fst (add_edges (edges_of tds i) s))) = ?n"
    unfolding add_edges_def
    by (rule for_each_inv [where P = "\<lambda>s. length (st_tasks s) = ?n"]) (use len in auto)
qed

text \<open>Vectors the program can hold: their sizes fit \<open>size_t\<close>.\<close>

definition sizes_fit :: "task_descriptions \<Rightarrow> bool" where
  "sizes_fit tds \<longleftrightarrow> length (all_tasks tds) < 2 ^ 64 \<and> length (all_edges tds) < 2 ^ 64"

definition task_handles :: "task_descriptions \<Rightarrow> async_task_handle list" where
  "task_handles tds = map (\<lambda>td. create_async_task_handle (td_data td)) (all_tasks tds)"

lemma length_task_handles [simp]: "length (task_handles tds) = length (all_tasks tds)"
  by (simp add: task_handles_def)

lemma set_make_run_levels: "set (make_run_levels tds) \<subseteq> set (run_level_by_name tds)"
proof -
  have "set (foldl (\<lambda>m rl. map_insert (fst rl) (snd rl) m) m rls) \<subseteq> set m \<union> set rls"
    for m :: "(string \<times> nat list) list" and rls
  proof (induction rls arbitrary: m)
    case (Cons rl rls)
    then show ?case using set_map_insert [of "fst rl" "snd rl" m] by (cases rl) fastforce
  qed simp
  from this [of "[]" "run_level_by_name tds"] show ?thesis
    by (simp add: make_run_levels_def)
qed

text \<open>
  On well-formed descriptions the constructor succeeds, and its result is known: one task
  per description, in order, with the edges of the descriptions.
\<close>

lemma initd_state_construct_eq:
  assumes wf: "wf_descriptions tds"
  shows "initd_state_construct tds e =
    (\<lparr>st_tasks = map (\<lambda>j. edge_task (task_handles tds ! j) j (all_edges tds)) [0..<length (all_tasks tds)],
      st_run_levels = make_run_levels tds, st_pending_tasks = 0, st_env = e\<rparr>, Done)"
proof -
  let ?n = "length (all_tasks tds)"
  let ?s0 = "\<lparr>st_tasks = make_tasks tds, st_run_levels = [], st_pending_tasks = 0, st_env = e\<rparr>"
  have b0: "built (task_handles tds) [] e ?s0"
    by (auto simp: built_def make_tasks_def task_handles_def edge_task_def new_task_def intro: nth_equalityI)
  have "for_each (add_dependencies_of tds) [0..<?n] ?s0 =
        for_each (\<lambda>i. add_edges (edges_of tds i)) [0..<?n] ?s0"
    by (rule for_each_cong_inv [where P = "\<lambda>s. length (st_tasks s) = ?n"])
       (use add_dependencies_of_edges [OF wf] in \<open>auto simp: make_tasks_def\<close>)
  then have loop: "for_each (add_dependencies_of tds) [0..<?n] ?s0 = add_edges (all_edges tds) ?s0"
    by (simp add: add_edges_def all_edges_def for_each_concat)
  have range: "\<forall>(i, d) \<in> set (all_edges tds). i < ?n \<and> d < ?n"
    using wf by (auto simp: all_edges_def edges_of_def wf_descriptions_def)
  have idle: "\<forall>h \<in> set (task_handles tds). \<not> h_is_running h"
    by (auto simp: task_handles_def)
  obtain s1 where s1: "add_edges (all_edges tds) ?s0 = (s1, Done)"
      "built (task_handles tds) (all_edges tds) e s1"
    using built_add_edges [OF b0 idle, of "all_edges tds"] range
    by (cases "add_edges (all_edges tds) ?s0") auto
  have "\<forall>rl \<in> set (run_level_by_name tds). \<forall>req \<in> set (snd rl). req < ?n"
    using wf by (auto simp: wf_descriptions_def)
  then show ?thesis
    using s1 unfolding initd_state_construct_def loop by (simp add: built_def)
qed

lemma count_list_edges:
  "count_list (map snd (filter (\<lambda>e. fst e = i) es)) j = count_list es (i, j)"
  "count_list (map fst (filter (\<lambda>e. snd e = j) es)) i = count_list es (i, j)"
  by (induction es) auto

lemma edge_task_fields [simp]:
  "t_handle (edge_task h j es) = h"
  "t_should_work (edge_task h j es) = False"
  "t_dependencies (edge_task h j es) = map snd (filter (\<lambda>e. fst e = j) es)"
  "t_dependants (edge_task h j es) = map fst (filter (\<lambda>e. snd e = j) es)"
  "t_stopped_dependencies (edge_task h j es) = of_nat (length (filter (\<lambda>e. fst e = j) es))"
  "t_running_dependants (edge_task h j es) = 0"
  "t_counted_in_dependencies (edge_task h j es) = False"
  "t_counted_in_dependants (edge_task h j es) = False"
  "t_counted_in_pending_tasks (edge_task h j es) = False"
  by (simp_all add: edge_task_def new_task_def)

lemma filter_edges_of:
  "filter (\<lambda>e. fst e = j) (edges_of tds i) = (if i = j then edges_of tds i else [])"
  by (auto simp: edges_of_def filter_empty_conv intro: filter_True)

lemma filter_all_edges:
  assumes "j < length (all_tasks tds)"
  shows "filter (\<lambda>e. fst e = j) (all_edges tds) = edges_of tds j"
proof -
  have "concat (map (\<lambda>i. if i = j then edges_of tds i else []) [0..<n]) =
      (if j < n then edges_of tds j else [])" for n
    by (induction n) auto
  then show ?thesis
    using assms by (simp add: all_edges_def filter_concat comp_def filter_edges_of)
qed

text \<open>The dependencies of a task are those of its description, in order.\<close>

lemma initd_state_construct_dependencies:
  assumes "wf_descriptions tds" "j < length (all_tasks tds)"
  shows "t_dependencies (st_tasks (fst (initd_state_construct tds e)) ! j) =
    td_dependencies (all_tasks tds ! j)"
  using assms
  by (simp add: initd_state_construct_eq filter_all_edges) (simp add: edges_of_def comp_def)

lemma initd_state_construct_inv:
  assumes wf: "wf_descriptions tds" and fit: "sizes_fit tds"
  shows "initd_inv (length (all_tasks tds)) (fst (initd_state_construct tds e))"
    "\<forall>t \<in> set (st_tasks (fst (initd_state_construct tds e))). announced t"
proof -
  let ?n = "length (all_tasks tds)" and ?s = "fst (initd_state_construct tds e)"
  have len: "length (st_tasks ?s) = ?n" and pend: "st_pending_tasks ?s = 0"
    and rl: "st_run_levels ?s = make_run_levels tds"
    by (simp_all add: initd_state_construct_eq [OF wf])
  have nth: "st_tasks ?s ! j = edge_task (task_handles tds ! j) j (all_edges tds)" if "j < ?n" for j
    using that by (simp add: initd_state_construct_eq [OF wf])
  have idle: "\<not> h_is_running (task_handles tds ! j)" "\<not> h_is_in_transition (task_handles tds ! j)"
    if "j < ?n" for j
    using that by (simp_all add: task_handles_def)
  have views: "\<not> t_active (st_tasks ?s ! j)" "\<not> t_up (st_tasks ?s ! j)" "\<not> t_pending (st_tasks ?s ! j)"
    if "j < ?n" for j
    using that idle [OF that] by (simp_all add: nth t_active_def t_up_def t_pending_def)
  have range: "\<forall>(i, d) \<in> set (all_edges tds). i < ?n \<and> d < ?n"
    using wf by (auto simp: all_edges_def edges_of_def wf_descriptions_def)
  have short: "length (filter P (all_edges tds)) < 2 ^ 64" for P
    using fit le_less_trans [OF length_filter_le] by (auto simp: sizes_fit_def)
  have "graph_wf (st_tasks ?s)"
    using fit range short
    by (auto simp: graph_wf_def len nth sizes_fit_def count_list_edges)
  moreover have "counters_exact ?s"
  proof -
    have deps: "\<forall>d \<in> set (t_dependencies (st_tasks ?s ! j)). d < ?n" if "j < ?n" for j
      using range that by (auto simp: nth)
    have users: "\<forall>d \<in> set (t_dependants (st_tasks ?s ! j)). d < ?n" if "j < ?n" for j
      using range that by (auto simp: nth)
    have flags: "\<not> t_counted_in_dependants (st_tasks ?s ! d)"
      "\<not> t_counted_in_dependencies (st_tasks ?s ! d)" if "d < ?n" for d
      using that by (simp_all add: nth)
    have "unready_dependencies (st_tasks ?s) j = t_dependencies (st_tasks ?s ! j)"
      "busy_dependants (st_tasks ?s) j = []" if "j < ?n" for j
      unfolding unready_dependencies_def busy_dependants_def filter_empty_conv
      using deps [OF that] users [OF that] flags by (blast intro: filter_True)+
    then have "\<forall>j < ?n. t_stopped_dependencies (st_tasks ?s ! j) =
          of_nat (length (unready_dependencies (st_tasks ?s) j)) \<and>
        t_running_dependants (st_tasks ?s ! j) = of_nat (length (busy_dependants (st_tasks ?s) j))"
      by (simp add: nth)
    moreover have "pending_list (st_tasks ?s) = []"
      by (simp add: pending_list_def len nth filter_empty_conv)
    ultimately show ?thesis
      by (simp add: counters_exact_def len pend)
  qed
  moreover have "closed_marks (st_tasks ?s)"
    by (simp add: closed_marks_def len nth)
  moreover have ann: "\<forall>t \<in> set (st_tasks ?s). announced t"
    using views by (auto simp: announced_def in_set_conv_nth len nth)
  moreover have "ordered (st_tasks ?s)"
    using views by (simp add: ordered_def len)
  moreover have "cycles_idle (st_tasks ?s)"
    using views by (simp add: cycles_idle_def len)
  moreover have "levels_wf ?s"
    using set_make_run_levels [of tds] wf
    by (fastforce simp: levels_wf_def rl len wf_descriptions_def)
  ultimately show "initd_inv ?n ?s" "\<forall>t \<in> set (st_tasks ?s). announced t"
    by (auto simp: initd_inv_def sched_inv_def len announced_told)
qed

section \<open>The loop over exited children\<close>

text \<open>
  The invariant of the scheduler does not look at the environment. For the loop, every
  registered process id must belong to a task.
\<close>

lemma initd_inv_env [simp]:
  "initd_inv n (s\<lparr>st_env := e\<rparr>) = initd_inv n s"
  by (simp add: initd_inv_def sched_inv_def counters_exact_def levels_wf_def)

definition handlers_in_range :: "nat \<Rightarrow> 'w env \<Rightarrow> bool" where
  "handlers_in_range n e \<longleftrightarrow> (\<forall>p i. env_handlers e p = Some i \<longrightarrow> i < n)"

lemma h_set_should_work_handlers:
  assumes "handlers_in_range n e" "i < n"
  shows "handlers_in_range n (snd (fst (h_set_should_work os i b h e)))"
proof -
  have launch: "handlers_in_range n (snd (fst (ss_enqueue_job os i t e)))"
    if "handlers_in_range n e" for t and e :: "'a env"
    using that assms(2)
    by (auto simp: ss_enqueue_job_def ss_launch_def sigchild_add_def handlers_in_range_def
             split: prod.splits sum.splits if_splits)
  have "handlers_in_range n (snd (fst (sa_set_should_work os b a e)))" for a
    using assms(1)
    by (auto simp: sa_set_should_work_def Let_def handlers_in_range_def
             split: option.splits prod.splits sum.splits)
  with launch show ?thesis
    using assms by (cases h) (simp_all add: ss_set_should_work_def)
qed

lemma h_complete_handlers:
  assumes "handlers_in_range n e" "i < n"
  shows "handlers_in_range n (snd (fst (h_complete os i h e)))"
proof -
  have launch: "handlers_in_range n (snd (fst (ss_enqueue_job os i t e)))"
    if "handlers_in_range n e" for t and e :: "'a env"
    using that assms(2)
    by (auto simp: ss_enqueue_job_def ss_launch_def sigchild_add_def handlers_in_range_def
             split: prod.splits sum.splits if_splits)
  have "handlers_in_range n (snd (fst (ss_operation_finished os i t e)))" for t
  proof (cases "ss_current_operation t")
    case (Some po)
    have "handlers_in_range n (fst (sigchild_remove (fst po) e))"
      using assms(1) by (auto simp: sigchild_remove_def handlers_in_range_def)
    then show ?thesis
      using Some launch assms(1) unfolding ss_operation_finished_def
      by (auto simp: and_then_def split: prod.splits)
  qed (use assms in \<open>simp add: ss_operation_finished_def\<close>)
  with assms show ?thesis
    by (cases h) simp_all
qed

definition full_inv :: "nat \<Rightarrow> 'w initd_state \<Rightarrow> bool" where
  "full_inv n s \<longleftrightarrow> initd_inv n s \<and> handlers_in_range n (st_env s)"

lemma enqueue_tasks_handlers:
  assumes "handlers_in_range n (st_env s)" and "\<forall>i \<in> set tts. i < n"
  shows "handlers_in_range n (st_env (fst (enqueue_tasks os tts s)))"
proof -
  have "handlers_in_range n (st_env (fst (enqueue_this os i s)))"
    if "handlers_in_range n (st_env s)" "i < n" for i and s :: "'a initd_state"
    unfolding enqueue_this_def
    by (rule and_then_inv [where P = "\<lambda>s. handlers_in_range n (st_env s)"])
       (use that in \<open>auto intro: h_set_should_work_handlers\<close>)
  then show ?thesis
    unfolding enqueue_tasks_def using assms
    by (intro for_each_inv [where P = "\<lambda>s. handlers_in_range n (st_env s)"]) auto
qed

lemma full_inv_task_completed:
  assumes "full_inv n s" "i < n"
  shows "full_inv n (fst (task_completed os i s))"
proof -
  have "handlers_in_range n (st_env (fst (task_completed os i s)))"
    unfolding task_completed_def
  proof (rule and_then_inv [where P = "\<lambda>s. initd_inv n s \<and> handlers_in_range n (st_env s)",
        THEN conjunct2])
    show "initd_inv n (fst (call_handle (h_complete os i) i s)) \<and>
        handlers_in_range n (st_env (fst (call_handle (h_complete os i) i s)))"
      using assms by (simp add: full_inv_def complete_inv h_complete_handlers)
  next
    fix s :: "'a initd_state"
    assume s: "initd_inv n s \<and> handlers_in_range n (st_env s)"
    then have sync: "initd_inv n (task_sync i s)" using assms(2) by (simp add: sync_inv)
    have "\<forall>j \<in> set (t_dependants (st_tasks (task_sync i s) ! i)). j < n"
      "\<forall>j \<in> set (t_dependencies (st_tasks (task_sync i s) ! i)). j < n"
      using graph_wfD(1,2) [OF sched_invD(1) [OF initd_invD(1) [OF sync]], of i]
        initd_invD(3) [OF sync] assms(2) by auto
    with s show "initd_inv n (fst (current_state_changed os i s)) \<and>
        handlers_in_range n (st_env (fst (current_state_changed os i s)))"
      using assms(2)
      by (simp add: current_state_changed_inv)
         (simp add: current_state_changed_def Let_def enqueue_tasks_handlers)
  qed
  with assms show ?thesis by (simp add: full_inv_def task_completed_inv)
qed

lemma full_inv_world [simp]:
  "full_inv n (s\<lparr>st_env := (st_env s)\<lparr>env_world := w\<rparr>\<rparr>) = full_inv n s"
  by (simp add: full_inv_def handlers_in_range_def)

text \<open>
  The loop over exited children: what holds of the state and of how a callback ended, at the
  start, after each callback and after each child, holds of the result.
\<close>

lemmas reap_children_induct =
  reap_children.raw_induct [rotated, consumes 1, case_names step]

lemma reap_children_rule:
  assumes "reap_children os s = Some r" and "R (s, Done)"
    and exc: "\<And>s msg w. R (s, Done) \<Longrightarrow> reap_child os (env_world (st_env s)) = (Inl msg, w) \<Longrightarrow>
        R (s\<lparr>st_env := (st_env s)\<lparr>env_world := w\<rparr>\<rparr>, Threw msg)"
    and none: "\<And>s w. R (s, Done) \<Longrightarrow> reap_child os (env_world (st_env s)) = (Inr None, w) \<Longrightarrow>
        R (s\<lparr>st_env := (st_env s)\<lparr>env_world := w\<rparr>\<rparr>, Done)"
    and stranger: "\<And>s p st w. R (s, Done) \<Longrightarrow>
        reap_child os (env_world (st_env s)) = (Inr (Some (p, st)), w) \<Longrightarrow>
        env_handlers (st_env s) p = None \<Longrightarrow> R (s\<lparr>st_env := (st_env s)\<lparr>env_world := w\<rparr>\<rparr>, Done)"
    and child: "\<And>s p st w i. R (s, Done) \<Longrightarrow>
        reap_child os (env_world (st_env s)) = (Inr (Some (p, st)), w) \<Longrightarrow>
        env_handlers (st_env s) p = Some i \<Longrightarrow>
        R (task_completed os i (s\<lparr>st_env := (st_env s)\<lparr>env_world := w\<rparr>\<rparr>))"
  shows "R r"
  using assms
proof (induction rule: reap_children_induct)
  case (step reap os s r)
  let ?s1 = "\<lambda>w. s\<lparr>st_env := (st_env s)\<lparr>env_world := w\<rparr>\<rparr>"
  note R = step.prems(1) and rules = step.prems(2-5)
  obtain c w where c: "reap_child os (env_world (st_env s)) = (c, w)" by force
  consider (exc) msg where "c = Inl msg" | (none) "c = Inr None"
    | (child) p st where "c = Inr (Some (p, st))"
    by (cases c; cases "projr c") auto
  then show ?case
  proof cases
    case child
    show ?thesis
    proof (cases "env_handlers (st_env s) p")
      case None
      then have "reap os (?s1 w) = Some r" using step.hyps c child by simp
      moreover have "R (?s1 w, Done)" using rules(3) R c child None by simp
      ultimately show ?thesis using step.IH [of os "?s1 w" r] rules by blast
    next
      case (Some i)
      obtain s2 q where q: "task_completed os i (?s1 w) = (s2, q)" by force
      then have s2: "R (s2, q)" using rules(4) [of s p st w i] R c child Some by simp
      have "(if q = Done then reap os s2 else Some (s2, q)) = Some r"
        using step.hyps c child Some q by simp
      then show ?thesis
        using step.IH [of os s2 r] rules s2 by (cases "q = Done") auto
    qed
  qed (use step.hyps R rules(1,2) c in auto)
qed

lemma full_inv_reap_children:
  assumes "reap_children os s = Some r" "full_inv n s"
  shows "full_inv n (fst r)"
proof (rule reap_children_rule [OF assms(1), where R = "\<lambda>r. full_inv n (fst r)"])
  fix s :: "'a initd_state" and p w i
  assume s: "full_inv n (fst (s, Done))" and "env_handlers (st_env s) p = Some i"
  then have "i < n" by (auto simp: full_inv_def handlers_in_range_def)
  with s show "full_inv n (fst (task_completed os i (s\<lparr>st_env := (st_env s)\<lparr>env_world := w\<rparr>\<rparr>)))"
    by (simp add: full_inv_task_completed)
qed (use assms(2) in simp_all)

end
