(* ===== verification/Task_Graph_Quiet.thy ===== *)
theory Task_Graph_Quiet
  imports Task_Graph_Init
begin

text \<open>
  Progress: as long as no system call fails, a task that may change is told to, so when
  nothing is under way any more every task on an acyclic graph is where the run level
  wants it.
\<close>

section \<open>No task is forgotten\<close>

text \<open>The last value given to \<^verbatim>\<open>set_should_work\<close> of the handle.\<close>

definition t_goal :: "task \<Rightarrow> bool" where
  "t_goal t = h_get_should_work (t_handle t)"

definition t_settled :: "task \<Rightarrow> bool" where
  "t_settled t = th.settled (t_handle t)"

text \<open>A marked task whose dependencies are all up, and an unmarked one that nobody uses.\<close>

definition may_start :: "task list \<Rightarrow> nat \<Rightarrow> bool" where
  "may_start ts i \<longleftrightarrow> t_should_work (ts ! i) \<and>
     (\<forall>d \<in> set (t_dependencies (ts ! i)). t_counted_in_dependants (ts ! d))"

definition may_stop :: "task list \<Rightarrow> nat \<Rightarrow> bool" where
  "may_stop ts i \<longleftrightarrow> \<not> t_should_work (ts ! i) \<and>
     (\<forall>u \<in> set (t_dependants (ts ! i)). \<not> t_counted_in_dependencies (ts ! u))"

definition enqueued :: "task list \<Rightarrow> nat \<Rightarrow> bool" where
  "enqueued ts i \<longleftrightarrow>
     (may_start ts i \<longrightarrow> t_goal (ts ! i)) \<and> (may_stop ts i \<longrightarrow> \<not> t_goal (ts ! i))"

definition all_settled :: "'w initd_state \<Rightarrow> bool" where
  "all_settled s \<longleftrightarrow> (\<forall>t \<in> set (st_tasks s). t_settled t)"

definition no_one_forgotten :: "'w initd_state \<Rightarrow> bool" where
  "no_one_forgotten s \<longleftrightarrow>
     all_settled s \<and> (\<forall>i < length (st_tasks s). enqueued (st_tasks s) i)"

section \<open>Enqueueing\<close>

text \<open>A request leaves every mark and announcement as it is.\<close>

definition same_marks :: "'w initd_state \<Rightarrow> 'w initd_state \<Rightarrow> bool" where
  "same_marks s s' \<longleftrightarrow> same_graph s s' \<and>
     (\<forall>j < length (st_tasks s). t_should_work (st_tasks s' ! j) = t_should_work (st_tasks s ! j))"

lemma same_marks_may:
  assumes sm: "same_marks s s'" and wf: "graph_wf (st_tasks s)" and i: "i < length (st_tasks s)"
  shows "may_start (st_tasks s') i = may_start (st_tasks s) i"
    "may_stop (st_tasks s') i = may_stop (st_tasks s) i"
proof -
  have "\<forall>d \<in> set (t_dependencies (st_tasks s ! i)). d < length (st_tasks s)"
    "\<forall>d \<in> set (t_dependants (st_tasks s ! i)). d < length (st_tasks s)"
    using graph_wfD(1,2) [OF wf i] by auto
  then show "may_start (st_tasks s') i = may_start (st_tasks s) i"
    "may_stop (st_tasks s') i = may_stop (st_tasks s) i"
    using sm i by (simp_all add: may_start_def may_stop_def same_marks_def same_graph_def)
qed

lemma call_handle_same_marks: "same_marks s (fst (call_handle f i s))"
  by (simp add: same_marks_def call_handle_same_graph nth_call_handle)

text \<open>What one \<^verbatim>\<open>enqueue_this\<close> that returns has done.\<close>

lemma set_goal:
  assumes i: "i < length (st_tasks s)" and ok: "snd (call_handle (h_set_should_work os k b) i s) = Done"
    and settled: "all_settled s"
  shows "all_settled (fst (call_handle (h_set_should_work os k b) i s))"
    "t_goal (st_tasks (fst (call_handle (h_set_should_work os k b) i s)) ! i) = b"
    "j < length (st_tasks s) \<Longrightarrow> j \<noteq> i \<Longrightarrow>
     st_tasks (fst (call_handle (h_set_should_work os k b) i s)) ! j = st_tasks s ! j"
proof -
  have "th.settled (fst (fst (h_set_should_work os k b (t_handle (st_tasks s ! i)) (st_env s))))"
    using ok by (intro th.settled_after_set) simp
  then show "all_settled (fst (call_handle (h_set_should_work os k b) i s))"
    using settled by (auto simp: all_settled_def t_settled_def all_set_conv_all_nth nth_call_handle)
qed (use i in \<open>simp_all add: nth_call_handle t_goal_def th.goal_set\<close>)

text \<open>A request that is not made is not needed: the handle is already there.\<close>

lemma skip_goal:
  assumes "all_settled s" "i < length (st_tasks s)"
  shows "is_running i s \<Longrightarrow> \<not> is_in_transition i s \<Longrightarrow> t_goal (st_tasks s ! i)"
    "\<not> is_running i s \<Longrightarrow> \<not> is_in_transition i s \<Longrightarrow> \<not> t_goal (st_tasks s ! i)"
  using assms
  by (auto simp: all_settled_def t_settled_def th.settled_def t_goal_def is_running_def
        is_in_transition_def)

definition enqueue_effect :: "nat \<Rightarrow> 'w initd_state \<Rightarrow> 'w initd_state \<Rightarrow> bool" where
  "enqueue_effect i s s' \<longleftrightarrow>
     all_settled s' \<and> same_marks s s' \<and>
     (\<forall>j < length (st_tasks s). j \<noteq> i \<longrightarrow> st_tasks s' ! j = st_tasks s ! j) \<and>
     enqueued (st_tasks s') i"

lemma enqueue_this_effect:
  assumes inv: "initd_inv n s" and i: "i < n" and settled: "all_settled s"
    and ok: "snd (enqueue_this os i s) = Done"
  shows "enqueue_effect i s (fst (enqueue_this os i s))"
proof -
  note sched = initd_invD(1) [OF inv] and len = initd_invD(3) [OF inv]
  note wf = sched_invD(1) [OF sched] and cnt = sched_invD(2) [OF sched]
  have il: "i < length (st_tasks s)" using i len by simp
  let ?start = "(\<not> is_running i s \<or> is_in_transition i s) \<and>
      t_should_work (st_tasks s ! i) \<and> are_dependencies_running i s"
  let ?stop = "(is_running i s \<or> is_in_transition i s) \<and>
      \<not> t_should_work (st_tasks s ! i) \<and> are_dependants_stopped i s"
  have ready: "t_should_work (st_tasks s ! i) \<and> are_dependencies_running i s \<longleftrightarrow> may_start (st_tasks s) i"
    and free: "\<not> t_should_work (st_tasks s ! i) \<and> are_dependants_stopped i s \<longleftrightarrow> may_stop (st_tasks s) i"
    by (simp_all add: may_start_def may_stop_def are_dependencies_running_iff [OF wf cnt il]
          are_dependants_stopped_iff [OF wf cnt il])
  consider (start) ?start | (stop) ?stop | (skip) "\<not> ?start" "\<not> ?stop" by blast
  then show ?thesis
  proof cases
    case start
    let ?s1 = "fst (call_handle (h_set_should_work os i True) i s)"
    have "t_should_work (st_tasks ?s1 ! i)"
      using start il by (simp add: nth_call_handle)
    then have eq: "enqueue_this os i s = call_handle (h_set_should_work os i True) i s"
      using start by (cases "call_handle (h_set_should_work os i True) i s")
        (auto simp: enqueue_this_def and_then_def)
    have "\<not> may_stop (st_tasks ?s1) i"
      using start il by (simp add: may_stop_def nth_call_handle)
    then show ?thesis
      using set_goal [OF il _ settled, of os i True] ok
      unfolding eq enqueue_effect_def by (auto simp: call_handle_same_marks enqueued_def)
  next
    case stop
    then have eq: "enqueue_this os i s = call_handle (h_set_should_work os i False) i s"
      by (simp add: enqueue_this_def)
    have "\<not> may_start (st_tasks (fst (call_handle (h_set_should_work os i False) i s))) i"
      using stop il by (simp add: may_start_def nth_call_handle)
    then show ?thesis
      using set_goal [OF il _ settled, of os i False] ok
      unfolding eq enqueue_effect_def by (auto simp: call_handle_same_marks enqueued_def)
  next
    case skip
    then have eq: "enqueue_this os i s = (s, Done)"
      by (simp only: enqueue_this_def if_False and_then_simps)
    have "enqueued (st_tasks s) i"
      using skip ready free skip_goal [OF settled il] by (auto simp: enqueued_def)
    then show ?thesis
      using settled by (simp add: eq enqueue_effect_def same_marks_def)
  qed
qed

lemma enqueued_others:
  assumes eff: "enqueue_effect i s s'" and wf: "graph_wf (st_tasks s)"
    and j: "j < length (st_tasks s)" and enq: "j = i \<or> enqueued (st_tasks s) j"
  shows "enqueued (st_tasks s') j"
proof (cases "j = i")
  case False
  then show ?thesis
    using eff enq j same_marks_may [OF _ wf j, of s'] by (auto simp: enqueue_effect_def enqueued_def)
qed (use eff in \<open>simp add: enqueue_effect_def\<close>)

text \<open>A loop of requests serves those in the list and forgets none of the others.\<close>

lemma enqueue_tasks_no_one_forgotten:
  assumes "initd_inv n s" "\<forall>i \<in> set tts. i < n" "all_settled s"
    and "\<forall>j < n. j \<in> set tts \<or> enqueued (st_tasks s) j"
    and "snd (enqueue_tasks os tts s) = Done"
  shows "no_one_forgotten (fst (enqueue_tasks os tts s))"
  using assms
proof (induction tts arbitrary: s)
  case Nil
  then show ?case
    by (auto simp: enqueue_tasks_def no_one_forgotten_def dest: initd_invD(3))
next
  case (Cons i tts)
  obtain s1 r where s1: "enqueue_this os i s = (s1, r)" by force
  then have r: "r = Done"
    using Cons.prems(5) by (auto simp: enqueue_tasks_def and_then_def split: if_splits)
  have eff: "enqueue_effect i s s1"
    using enqueue_this_effect [OF Cons.prems(1) _ Cons.prems(3), of i os] Cons.prems(2) s1 r by simp
  have inv1: "initd_inv n s1"
    using enqueue_this_inv [OF Cons.prems(1), of i os] Cons.prems(2) s1 by simp
  have "\<forall>j < n. j \<in> set tts \<or> enqueued (st_tasks s1) j"
    using Cons.prems(4) enqueued_others [OF eff sched_invD(1) [OF initd_invD(1) [OF Cons.prems(1)]]]
      initd_invD(3) [OF Cons.prems(1)] by auto
  then show ?case
    using Cons.IH [OF inv1] Cons.prems(2,5) eff s1 r
    by (simp add: enqueue_tasks_def enqueue_effect_def)
qed

lemma enqueue_all_no_one_forgotten:
  assumes "initd_inv n s" "all_settled s" "snd (enqueue_all os s) = Done"
  shows "no_one_forgotten (fst (enqueue_all os s))"
  using assms initd_invD(3) [OF assms(1)] unfolding enqueue_all_def
  by (intro enqueue_tasks_no_one_forgotten [OF assms(1)]) auto

section \<open>The operations\<close>

lemma all_settled_cong:
  assumes "all_settled s" "length (st_tasks s') = length (st_tasks s)"
    "\<And>j. j < length (st_tasks s) \<Longrightarrow> t_handle (st_tasks s' ! j) = t_handle (st_tasks s ! j)"
  shows "all_settled s'"
  using assms by (simp add: all_settled_def t_settled_def all_set_conv_all_nth)

lemma foldl_sync_handles:
  assumes "\<forall>i \<in> set xs. i < length (st_tasks s)"
  shows "length (st_tasks (foldl (\<lambda>s i. task_sync i s) s xs)) = length (st_tasks s)"
    "j < length (st_tasks s) \<Longrightarrow>
     t_handle (st_tasks (foldl (\<lambda>s i. task_sync i s) s xs) ! j) = t_handle (st_tasks s ! j)"
    "j < length (st_tasks s) \<Longrightarrow>
     t_should_work (st_tasks (foldl (\<lambda>s i. task_sync i s) s xs) ! j) = t_should_work (st_tasks s ! j)"
    "j < length (st_tasks s) \<Longrightarrow>
     t_dependencies (st_tasks (foldl (\<lambda>s i. task_sync i s) s xs) ! j) = t_dependencies (st_tasks s ! j)"
  using assms by (induction xs arbitrary: s) (simp_all add: task_sync_facts)

lemma sync_all_fields:
  "length (st_tasks (sync_all s)) = length (st_tasks s)"
  "j < length (st_tasks s) \<Longrightarrow> t_handle (st_tasks (sync_all s) ! j) = t_handle (st_tasks s ! j)"
  "j < length (st_tasks s) \<Longrightarrow> t_should_work (st_tasks (sync_all s) ! j) = t_should_work (st_tasks s ! j)"
  "j < length (st_tasks s) \<Longrightarrow> t_dependencies (st_tasks (sync_all s) ! j) = t_dependencies (st_tasks s ! j)"
  by (simp_all add: sync_all_def foldl_sync_handles)

lemma retargeted_fields:
  assumes core: "core_inv n s" and rs: "\<forall>r \<in> set rs. r < n"
  shows "length (st_tasks (retargeted rs s)) = n"
    "j < n \<Longrightarrow> t_handle (st_tasks (retargeted rs s) ! j) = t_handle (st_tasks s ! j)"
    "j < n \<Longrightarrow> t_dependencies (st_tasks (retargeted rs s) ! j) = t_dependencies (st_tasks s ! j)"
    "j < n \<Longrightarrow> t_should_work (st_tasks (retargeted rs s) ! j) =
       (\<exists>r \<in> set rs. (r, j) \<in> (depends_on (st_tasks s))\<^sup>*)"
proof -
  let ?c = "clear_should_work_flag s" and ?m = "mark_requisites rs (clear_should_work_flag s)"
  have n: "length (st_tasks s) = n" using core by (simp add: core_inv_def)
  have wf: "graph_wf (st_tasks ?c)" and rs': "\<forall>r \<in> set rs. r < length (st_tasks ?c)"
    using core_invD(1) [OF core_inv_clear [OF core]] rs n by simp_all
  have lm: "length (st_tasks ?m) = n" and h: "\<forall>j < n. t_handle (st_tasks ?m ! j) = t_handle (st_tasks ?c ! j)"
    and d: "\<forall>j < n. t_dependencies (st_tasks ?m ! j) = t_dependencies (st_tasks ?c ! j)"
    using same_graph_mark [OF wf rs'] n by (simp_all add: same_graph_def)
  show "length (st_tasks (retargeted rs s)) = n"
    by (simp add: retargeted_def sync_all_fields lm)
  show "t_handle (st_tasks (retargeted rs s) ! j) = t_handle (st_tasks s ! j)" if "j < n"
    using that h lm n by (simp add: retargeted_def sync_all_fields clear_should_work_flag_nth)
  show "t_dependencies (st_tasks (retargeted rs s) ! j) = t_dependencies (st_tasks s ! j)" if "j < n"
    using that d lm n by (simp add: retargeted_def sync_all_fields clear_should_work_flag_nth)
  have dep: "depends_on (st_tasks ?c) = depends_on (st_tasks s)"
    by (rule depends_on_cong) (simp_all add: clear_should_work_flag_nth)
  have "\<forall>t \<in> set (st_tasks ?c). \<not> t_should_work t"
    by (simp add: all_set_conv_all_nth clear_should_work_flag_nth)
  then show "t_should_work (st_tasks (retargeted rs s) ! j) =
      (\<exists>r \<in> set rs. (r, j) \<in> (depends_on (st_tasks s))\<^sup>*)" if "j < n"
    using that lm n mark_stack_marks [OF graph_wf_edges_in_range [OF wf] _ rs', of j]
    by (simp add: retargeted_def sync_all_fields mark_requisites_stack [OF rs' wf] dep)
qed

lemma retargeted_settled:
  assumes core: "core_inv n s" and rs: "\<forall>r \<in> set rs. r < n" and "all_settled s"
  shows "all_settled (retargeted rs s)"
  by (rule all_settled_cong [OF assms(3)])
     (use retargeted_fields [OF core rs] core_invD(5) [OF core] in simp_all)

lemma set_run_level_no_one_forgotten:
  assumes inv: "initd_inv n s" and settled: "all_settled s"
    and ok: "snd (set_run_level os name s) = Done"
  shows "no_one_forgotten (fst (set_run_level os name s))"
proof -
  obtain rs where rs: "mm_find (st_run_levels s) name = Some rs"
    using ok by (auto simp: set_run_level_def split: option.splits)
  have core: "core_inv n s" using inv by (simp add: initd_inv_core)
  have range: "\<forall>r \<in> set rs. r < n"
    using find_level_in_range [OF initd_invD(2) [OF inv] rs] initd_invD(3) [OF inv] by simp
  show ?thesis
    using ok rs enqueue_all_no_one_forgotten [OF retargeted_inv(1) [OF core range]
        retargeted_settled [OF core range settled]]
    by (simp add: set_run_level_retargeted)
qed

lemma set_empty_run_level_no_one_forgotten:
  assumes inv: "initd_inv n s" and settled: "all_settled s"
    and ok: "snd (set_empty_run_level os s) = Done"
  shows "no_one_forgotten (fst (set_empty_run_level os s))"
proof -
  have core: "core_inv n s" using inv by (simp add: initd_inv_core)
  show ?thesis
    using ok enqueue_all_no_one_forgotten [OF retargeted_inv(1) [OF core, of "[]"]
        retargeted_settled [OF core _ settled, of "[]"]]
    by (simp add: set_run_level_retargeted)
qed

lemma sync_enqueued:
  assumes wf: "graph_wf (st_tasks s)" and i: "i < length (st_tasks s)"
    and j: "j < length (st_tasks s)" and enq: "enqueued (st_tasks s) j"
    and far: "if is_running i s then j \<notin> set (t_dependants (st_tasks s ! i))
              else j \<notin> set (t_dependencies (st_tasks s ! i))"
  shows "enqueued (st_tasks (task_sync i s)) j"
proof -
  have dl: "\<forall>d \<in> set (t_dependencies (st_tasks s ! j)). d < length (st_tasks s)"
    "\<forall>d \<in> set (t_dependants (st_tasks s ! j)). d < length (st_tasks s)"
    using graph_wfD(1,2) [OF wf j] by auto
  have "may_start (st_tasks s) j" if "may_start (st_tasks (task_sync i s)) j"
  proof -
    have "d \<noteq> i \<or> t_counted_in_dependants (st_tasks s ! i)"
      if "d \<in> set (t_dependencies (st_tasks s ! j))" for d
      using that far graph_wfD(3) [OF wf j i] \<open>may_start (st_tasks (task_sync i s)) j\<close> i j
      by (auto simp: may_start_def task_sync_facts task_views split: if_splits)
    with that dl show ?thesis
      using i j by (auto simp: may_start_def task_sync_facts split: if_splits)
  qed
  moreover have "may_stop (st_tasks s) j" if "may_stop (st_tasks (task_sync i s)) j"
  proof -
    have "d \<noteq> i \<or> \<not> t_counted_in_dependencies (st_tasks s ! i)"
      if "d \<in> set (t_dependants (st_tasks s ! j))" for d
      using that far graph_wfD(3) [OF wf i j] \<open>may_stop (st_tasks (task_sync i s)) j\<close> i j
      by (auto simp: may_stop_def task_sync_facts task_views split: if_splits)
    with that dl show ?thesis
      using i j by (auto simp: may_stop_def task_sync_facts split: if_splits)
  qed
  ultimately show ?thesis
    using enq i j by (auto simp: enqueued_def t_goal_def task_sync_facts)
qed

lemma complete_keeps_enqueued:
  assumes forgotten: "no_one_forgotten s" and i: "i < length (st_tasks s)" and wf: "graph_wf (st_tasks s)"
    and ok: "snd (call_handle (h_complete os i) i s) = Done"
  shows "no_one_forgotten (fst (call_handle (h_complete os i) i s))"
proof -
  let ?s' = "fst (call_handle (h_complete os i) i s)"
  have "th.settled (fst (fst (h_complete os i (t_handle (st_tasks s ! i)) (st_env s))))"
    using ok by (intro th.settled_after_complete) simp
  then have "all_settled ?s'"
    using forgotten
    by (auto simp: no_one_forgotten_def all_settled_def t_settled_def all_set_conv_all_nth
          nth_call_handle)
  moreover have "t_goal (st_tasks ?s' ! j) = t_goal (st_tasks s ! j)" if "j < length (st_tasks s)" for j
    using that by (simp add: nth_call_handle t_goal_def th.goal_complete)
  ultimately show ?thesis
    using forgotten same_marks_may [OF call_handle_same_marks wf, of _ "h_complete os i" i]
    by (auto simp: no_one_forgotten_def enqueued_def)
qed

lemma current_state_changed_no_one_forgotten:
  assumes inv: "initd_inv n s" and i: "i < n" and forgotten: "no_one_forgotten s"
    and ok: "snd (current_state_changed os i s) = Done"
  shows "no_one_forgotten (fst (current_state_changed os i s))"
proof -
  let ?s1 = "task_sync i s"
  note wf = sched_invD(1) [OF initd_invD(1) [OF inv]]
  have len: "length (st_tasks s) = n" by (rule initd_invD(3) [OF inv])
  have inv1: "initd_inv n ?s1" by (rule sync_inv [OF inv i])
  have settled: "all_settled ?s1"
    by (rule all_settled_cong [where s = s])
       (use forgotten i len in \<open>simp_all add: no_one_forgotten_def task_sync_facts\<close>)
  have run: "is_running i ?s1 = is_running i s"
    using i len by (simp add: is_running_def task_sync_facts)
  have nbrs: "t_dependants (st_tasks ?s1 ! i) = t_dependants (st_tasks s ! i)"
    "t_dependencies (st_tasks ?s1 ! i) = t_dependencies (st_tasks s ! i)"
    using i len by (simp_all add: task_sync_facts)
  have range: "\<forall>j \<in> set (t_dependants (st_tasks s ! i)). j < n"
    "\<forall>j \<in> set (t_dependencies (st_tasks s ! i)). j < n"
    using graph_wfD(1,2) [OF wf, of i] i len by auto
  have "\<forall>j < n. enqueued (st_tasks s) j"
    using forgotten len by (simp add: no_one_forgotten_def)
  then have "j \<in> set (if is_running i s then t_dependants (st_tasks s ! i)
      else t_dependencies (st_tasks s ! i)) \<or> enqueued (st_tasks ?s1) j" if "j < n" for j
    using sync_enqueued [OF wf, of i j] i len that by (cases "is_running i s") auto
  then show ?thesis
    using ok enqueue_tasks_no_one_forgotten [OF inv1 _ settled] range
    by (auto simp: current_state_changed_def Let_def run nbrs split: if_splits)
qed

lemma task_completed_no_one_forgotten:
  assumes inv: "initd_inv n s" and i: "i < n" and forgotten: "no_one_forgotten s"
    and ok: "snd (task_completed os i s) = Done"
  shows "no_one_forgotten (fst (task_completed os i s))"
proof -
  obtain s1 r where s1: "call_handle (h_complete os i) i s = (s1, r)" by force
  then have r: "r = Done"
    using ok by (auto simp: task_completed_def and_then_def split: if_splits)
  have "initd_inv n s1"
    using complete_inv [OF inv i, of os] s1 by simp
  moreover have "no_one_forgotten s1"
    using complete_keeps_enqueued [OF forgotten, of i os] s1 r i initd_invD(3) [OF inv]
      sched_invD(1) [OF initd_invD(1) [OF inv]] by simp
  ultimately show ?thesis
    using current_state_changed_no_one_forgotten [OF _ i, of s1 os] ok
    by (simp add: task_completed_def s1 r)
qed

lemma initd_state_construct_no_one_forgotten:
  assumes "wf_descriptions tds"
  shows "no_one_forgotten (fst (initd_state_construct tds e))"
proof -
  have "th.settled (task_handles tds ! j)" "\<not> h_get_should_work (task_handles tds ! j)"
    if "j < length (all_tasks tds)" for j
    using that by (simp_all add: task_handles_def th.settled_def)
  then show ?thesis
    by (auto simp: initd_state_construct_eq [OF assms] no_one_forgotten_def all_settled_def t_settled_def
          enqueued_def may_start_def t_goal_def)
qed

section \<open>No change stays unnoticed\<close>

text \<open>
  A task waits while its child runs or its queue has a wake-up pending; everyone else has
  announced what it is.
\<close>

definition waiting :: "task \<Rightarrow> bool" where
  "waiting t \<longleftrightarrow> h_is_in_transition (t_handle t) \<or>
     (case t_handle t of Sync_handle a \<Rightarrow> fq_ready (sa_queue a) | Start_stop_handle _ \<Rightarrow> False)"

definition noticed :: "'w initd_state \<Rightarrow> bool" where
  "noticed s \<longleftrightarrow> (\<forall>t \<in> set (st_tasks s). announced t \<or> waiting t)"

lemma sa_push_ready:
  "snd (sa_push a e) = Done \<Longrightarrow> fq_ready (sa_queue (fst (fst (sa_push a e))))"
  using fq.ready_push [of "()" "sa_queue a"] by (auto simp: sa_push_def split: prod.splits)

lemma sa_set_should_work_ready:
  "snd (sa_set_should_work os b a e) = Done \<Longrightarrow>
   fq_ready (sa_queue (fst (fst (sa_set_should_work os b a e))))"
  by (auto simp: sa_set_should_work_def Let_def sa_push_ready split: option.splits prod.splits sum.splits)

lemma ss_enqueue_job_idle:
  assumes "\<not> ss_is_in_transition (fst (fst (ss_enqueue_job os i t e)))"
  shows "\<not> ss_is_in_transition t"
  using assms by (auto simp: ss_enqueue_job_def ss_is_in_transition_def split: if_splits)

lemma set_noticed:
  assumes noticed: "noticed s" and i: "i < length (st_tasks s)"
    and ok: "snd (call_handle (h_set_should_work os k b) i s) = Done"
  shows "noticed (fst (call_handle (h_set_should_work os k b) i s))"
proof -
  let ?t' = "st_tasks (fst (call_handle (h_set_should_work os k b) i s)) ! i"
  have t': "?t' = (st_tasks s ! i)
      \<lparr>t_handle := fst (fst (h_set_should_work os k b (t_handle (st_tasks s ! i)) (st_env s)))\<rparr>"
    using i by (simp add: nth_call_handle)
  have "announced ?t' \<or> waiting ?t'"
  proof (cases "t_handle (st_tasks s ! i)")
    case (Sync_handle a)
    then show ?thesis
      using ok sa_set_should_work_ready [of os b a "st_env s"] by (simp add: t' waiting_def)
  next
    case (Start_stop_handle t)
    show ?thesis
    proof (cases "ss_is_in_transition (fst (fst (ss_set_should_work os k b t (st_env s))))")
      case False
      then have "\<not> ss_is_in_transition t"
        using ss_enqueue_job_idle [of os k "t\<lparr>ss_should_work := b\<rparr>" "st_env s"]
        by (simp add: ss_set_should_work_def ss_is_in_transition_def)
      moreover from this have "announced (st_tasks s ! i)"
        using noticed i Start_stop_handle by (auto simp: noticed_def waiting_def all_set_conv_all_nth)
      ultimately show ?thesis
        using False Start_stop_handle
        by (simp add: t' announced_def t_active_def t_up_def t_pending_def)
          (simp add: ss_set_should_work_def)
    qed (use Start_stop_handle in \<open>simp add: t' waiting_def\<close>)
  qed
  then show ?thesis
    using noticed by (auto simp: noticed_def all_set_conv_all_nth nth_call_handle)
qed

lemma enqueue_tasks_noticed:
  assumes "snd (enqueue_tasks os tts s) = Done" "noticed s" "\<forall>i \<in> set tts. i < length (st_tasks s)"
  shows "noticed (fst (enqueue_tasks os tts s))"
proof -
  let ?P = "\<lambda>s'. noticed s' \<and> length (st_tasks s') = length (st_tasks s)"
  have step: "?P (fst (enqueue_this os i s'))"
    if "i \<in> set tts" "?P s'" "snd (enqueue_this os i s') = Done" for i s'
    using that(3) unfolding enqueue_this_def
    by (rule and_then_Done_inv)
       (use that(1,2) assms(3) in \<open>auto intro!: set_noticed split: if_splits\<close>)
  have "?P (fst (enqueue_tasks os tts s))"
    using assms(1) unfolding enqueue_tasks_def
    by (rule for_each_Done_inv) (use assms(2) step in auto)
  then show ?thesis by simp
qed

lemma announced_noticed: "\<forall>t \<in> set (st_tasks s). announced t \<Longrightarrow> noticed s"
  by (simp add: noticed_def)

lemma set_level_noticed:
  assumes core: "core_inv n s" and rs: "\<forall>r \<in> set rs. r < n"
    and ok: "snd (enqueue_all os (retargeted rs s)) = Done"
  shows "noticed (fst (enqueue_all os (retargeted rs s)))"
  using ok announced_noticed [OF retargeted_inv(2) [OF core rs]] unfolding enqueue_all_def
  by (intro enqueue_tasks_noticed) auto

lemma current_state_changed_noticed:
  assumes inv: "initd_inv n s" and i: "i < n"
    and noticed: "\<forall>j < n. j \<noteq> i \<longrightarrow> announced (st_tasks s ! j) \<or> waiting (st_tasks s ! j)"
    and ok: "snd (current_state_changed os i s) = Done"
  shows "noticed (fst (current_state_changed os i s))"
proof -
  have len: "length (st_tasks s) = n" by (rule initd_invD(3) [OF inv])
  have "announced (st_tasks (task_sync i s) ! j) \<or> waiting (st_tasks (task_sync i s) ! j)" if "j < n" for j
    using noticed that i len announced_sync [of i s j]
    by (cases "j = i") (auto simp: waiting_def task_sync_facts)
  then have "noticed (task_sync i s)"
    by (simp add: noticed_def all_set_conv_all_nth len)
  moreover have "\<forall>j \<in> set (t_dependants (st_tasks (task_sync i s) ! i)). j < n"
    "\<forall>j \<in> set (t_dependencies (st_tasks (task_sync i s) ! i)). j < n"
    using graph_wfD(1,2) [OF sched_invD(1) [OF initd_invD(1) [OF inv]], of i] i len
    by (auto simp: task_sync_facts)
  ultimately show ?thesis
    using ok len by (simp add: current_state_changed_def Let_def enqueue_tasks_noticed split: if_splits)
qed

lemma task_completed_noticed:
  assumes inv: "initd_inv n s" and i: "i < n" and noticed: "noticed s"
    and ok: "snd (task_completed os i s) = Done"
  shows "noticed (fst (task_completed os i s))"
proof -
  have len: "length (st_tasks s) = n" by (rule initd_invD(3) [OF inv])
  note D = and_then_DoneE [OF ok [unfolded task_completed_def]]
  have "\<forall>j < n. j \<noteq> i \<longrightarrow> announced (st_tasks (fst (call_handle (h_complete os i) i s)) ! j) \<or>
      waiting (st_tasks (fst (call_handle (h_complete os i) i s)) ! j)"
    using noticed len by (simp add: nth_call_handle noticed_def)
  with complete_inv [OF inv i] i D(2) show ?thesis
    unfolding task_completed_def D(3) by (intro current_state_changed_noticed)
qed

section \<open>Nothing under way\<close>

text \<open>No child is awaited, and no wake-up is pending.\<close>

definition quiet :: "'w initd_state \<Rightarrow> bool" where
  "quiet s \<longleftrightarrow> (\<forall>t \<in> set (st_tasks s). \<not> waiting t)"

lemma finite_depends_on:
  assumes "graph_wf ts"
  shows "finite (depends_on ts)"
proof -
  have "depends_on ts \<subseteq> {..<length ts} \<times> {..<length ts}"
    using graph_wfD(1) [OF assms] by (auto simp: depends_on_def)
  then show ?thesis
    by (rule finite_subset) simp
qed

lemma quiet_reaches_run_level:
  assumes inv: "initd_inv n s" and forgotten: "no_one_forgotten s" and noticed: "noticed s"
    and quiet: "quiet s"
    and acyclic: "acyclic (depends_on (st_tasks s))" and i: "i < n"
  shows "is_running i s = t_should_work (st_tasks s ! i)"
proof -
  note sched = initd_invD(1) [OF inv] and len = initd_invD(3) [OF inv]
  note wf = sched_invD(1) [OF sched]
  have q: "\<not> is_in_transition j s" "announced (st_tasks s ! j)" if "j < n" for j
    using quiet noticed that len by (auto simp: quiet_def noticed_def waiting_def is_in_transition_def)
  have enq: "enqueued (st_tasks s) j" "is_running j s = t_goal (st_tasks s ! j)" if "j < n" for j
    using forgotten that len q(1) [OF that]
    by (auto simp: no_one_forgotten_def all_settled_def t_settled_def th.settled_def t_goal_def
          is_running_def is_in_transition_def)
  have up: "is_running i s" if "i < n" "t_should_work (st_tasks s ! i)" for i
    using that
  proof (induction i rule: wf_induct_rule [OF
        finite_acyclic_wf_converse [OF finite_depends_on [OF wf] acyclic]])
    case (1 i)
    have "t_counted_in_dependants (st_tasks s ! d)" if d: "d \<in> set (t_dependencies (st_tasks s ! i))" for d
    proof -
      have dn: "d < n" using graph_wfD(1) [OF wf _ d] 1(2) len by simp
      have "t_should_work (st_tasks s ! d)"
        using sched_invD(3) [OF sched] 1(2,3) d len by (auto simp: closed_marks_def)
      then have "is_running d s"
        using 1 d dn len by (auto simp: depends_on_def)
      then show ?thesis
        using q [OF dn] by (simp add: announced_def task_views)
    qed
    then have "may_start (st_tasks s) i" using 1(3) by (simp add: may_start_def)
    then show ?case using enq [OF 1(2)] by (simp add: enqueued_def)
  qed
  have down: "\<not> is_running i s" if "i < n" "\<not> t_should_work (st_tasks s ! i)" for i
    using that
  proof (induction i rule: wf_induct_rule [OF finite_acyclic_wf [OF finite_depends_on [OF wf] acyclic]])
    case (1 i)
    have "\<not> t_counted_in_dependencies (st_tasks s ! u)" if u: "u \<in> set (t_dependants (st_tasks s ! i))" for u
    proof -
      have un: "u < n" using graph_wfD(2) [OF wf _ u] 1(2) len by simp
      have dep: "i \<in> set (t_dependencies (st_tasks s ! u))"
        using graph_wfD(3) [OF wf, of u i] u un 1(2) len by simp
      then have "\<not> t_should_work (st_tasks s ! u)"
        using sched_invD(3) [OF sched] 1(3) un len by (auto simp: closed_marks_def)
      then have "\<not> is_running u s"
        using 1 dep un len by (auto simp: depends_on_def)
      then show ?thesis
        using q [OF un] by (simp add: announced_def task_views)
    qed
    then have "may_stop (st_tasks s) i" using 1(3) by (simp add: may_stop_def)
    then show ?case using enq [OF 1(2)] by (simp add: enqueued_def)
  qed
  show ?thesis using up [OF i] down [OF i] by blast
qed

end
