(* ===== verification/Task_Graph_Processes.thy ===== *)
theory Task_Graph_Processes
  imports Task_Graph_Init
begin

text \<open>
  The book-keeping of children: on a system that never hands out the id of a child that
  has not been waited for, the table of \<^verbatim>\<open>sigchild_handler\<close> and the operations of the
  tasks always agree, and none of the assertions about them fails.
\<close>

section \<open>What is assumed of the system\<close>

text \<open>
  \<open>live w\<close> are the children not yet waited for: \<^verbatim>\<open>fork\<close> adds a new one, \<^verbatim>\<open>waitpid\<close>
  removes the one it reports, and no other call changes them.
\<close>

definition process_table :: "'w os \<Rightarrow> ('w \<Rightarrow> nat set) \<Rightarrow> bool" where
  "process_table os live \<longleftrightarrow>
     (\<forall>c w. case os_fork os c w of
              (Inl _, w') \<Rightarrow> live w' = live w
            | (Inr pid, w') \<Rightarrow> pid \<notin> live w \<and> live w' = insert pid (live w)) \<and>
     (\<forall>w. case os_waitpid_any os w of
            (Inr (Some (pid, _)), w') \<Rightarrow> live w' = live w - {pid}
          | (_, w') \<Rightarrow> live w' = live w) \<and>
     (\<forall>d w. live (snd (create_task os d w)) = live w) \<and>
     (\<forall>t w. live (destroy_task os t w) = live w)"

lemma process_tableD:
  assumes "process_table os live"
  shows "os_fork os c w = (Inl err, w') \<Longrightarrow> live w' = live w"
    "os_fork os c w = (Inr pid, w') \<Longrightarrow> pid \<notin> live w \<and> live w' = insert pid (live w)"
    "os_waitpid_any os w = (Inl err, w') \<Longrightarrow> live w' = live w"
    "os_waitpid_any os w = (Inr None, w') \<Longrightarrow> live w' = live w"
    "os_waitpid_any os w = (Inr (Some (pid, st)), w') \<Longrightarrow> live w' = live w - {pid}"
    "create_task os d w = (r, w') \<Longrightarrow> live w' = live w"
    "live (destroy_task os t w) = live w"
proof -
  have fork: "case os_fork os c w of (Inl _, w') \<Rightarrow> live w' = live w
      | (Inr pid, w') \<Rightarrow> pid \<notin> live w \<and> live w' = insert pid (live w)"
    and waitpid: "case os_waitpid_any os w of
      (Inr (Some (pid, _)), w') \<Rightarrow> live w' = live w - {pid} | (_, w') \<Rightarrow> live w' = live w"
    and create: "live (snd (create_task os d w)) = live w"
    and destroy: "live (destroy_task os t w) = live w"
    using assms by (auto simp: process_table_def)
  show "os_fork os c w = (Inl err, w') \<Longrightarrow> live w' = live w"
    "os_fork os c w = (Inr pid, w') \<Longrightarrow> pid \<notin> live w \<and> live w' = insert pid (live w)"
    using fork by simp_all
  show "os_waitpid_any os w = (Inl err, w') \<Longrightarrow> live w' = live w"
    "os_waitpid_any os w = (Inr None, w') \<Longrightarrow> live w' = live w"
    "os_waitpid_any os w = (Inr (Some (pid, st)), w') \<Longrightarrow> live w' = live w - {pid}"
    using waitpid by simp_all
  show "create_task os d w = (r, w') \<Longrightarrow> live w' = live w"
    using create by simp
  show "live (destroy_task os t w) = live w"
    by (rule destroy)
qed

section \<open>One handle and the table\<close>

definition ss_wf :: "start_stop_task \<Rightarrow> bool" where
  "ss_wf t \<longleftrightarrow>
     (case ss_current_operation t of None \<Rightarrow> True
      | Some (pid, op) \<Rightarrow> ss_running t \<noteq> (op = Start_operation))"

lemma ss_wf_should_work [simp]: "ss_wf (t\<lparr>ss_should_work := b\<rparr>) = ss_wf t"
  by (cases "ss_current_operation t") (auto simp: ss_wf_def)

fun handle_wf :: "async_task_handle \<Rightarrow> bool" where
  "handle_wf (Sync_handle a) = fq_invar (sa_queue a)"
| "handle_wf (Start_stop_handle t) = ss_wf t"

fun handle_pid :: "async_task_handle \<Rightarrow> nat option" where
  "handle_pid (Sync_handle a) = None"
| "handle_pid (Start_stop_handle t) = map_option fst (ss_current_operation t)"

text \<open>The entries of task \<open>i\<close> in the table are the child it waits for.\<close>

definition owns :: "'w env \<Rightarrow> nat \<Rightarrow> nat option \<Rightarrow> bool" where
  "owns e i p \<longleftrightarrow> (\<forall>q. env_handlers e q = Some i \<longleftrightarrow> p = Some q)"

definition same_others :: "nat \<Rightarrow> 'w env \<Rightarrow> 'w env \<Rightarrow> bool" where
  "same_others i e e' \<longleftrightarrow> (\<forall>k q. k \<noteq> i \<longrightarrow> (env_handlers e' q = Some k) = (env_handlers e q = Some k))"

definition all_live :: "('w \<Rightarrow> nat set) \<Rightarrow> 'w env \<Rightarrow> bool" where
  "all_live live e \<longleftrightarrow> dom (env_handlers e) \<subseteq> live (env_world e)"

lemma env_world_simps [simp]:
  "owns (e\<lparr>env_world := w\<rparr>) i p = owns e i p"
  "handlers_in_range n (e\<lparr>env_world := w\<rparr>) = handlers_in_range n e"
  "all_live live (e\<lparr>env_world := w\<rparr>) \<longleftrightarrow> dom (env_handlers e) \<subseteq> live w"
  by (simp_all add: owns_def handlers_in_range_def all_live_def)

text \<open>What a call on the handle of task \<open>i\<close> keeps.\<close>

definition good_call ::
    "('w \<Rightarrow> nat set) \<Rightarrow> nat \<Rightarrow> 'w env \<Rightarrow> (async_task_handle \<times> 'w env) \<times> outcome \<Rightarrow> bool" where
  "good_call live i e res \<longleftrightarrow>
     (case res of ((h, e'), r) \<Rightarrow>
        handle_wf h \<and> owns e' i (handle_pid h) \<and> all_live live e' \<and> same_others i e e' \<and>
        \<not> aborted res)"

lemma ss_launch_good:
  assumes pt: "process_table os live" and idle: "ss_current_operation t = None"
    and op: "ss_running t \<noteq> (op = Start_operation)"
    and own: "owns e i None" and all: "all_live live e"
  shows "good_call live i e (apfst (apfst Start_stop_handle) (ss_launch os i op c t e))"
proof (cases "os_fork os (child_of_command c) (env_world e)")
  case (Pair r w)
  show ?thesis
  proof (cases r)
    case (Inl err)
    then show ?thesis
      using process_tableD(1) [OF pt, of "child_of_command c" "env_world e" err w] Pair idle own all
      by (simp add: good_call_def ss_launch_def ss_wf_def owns_def all_live_def same_others_def)
  next
    case (Inr pid)
    then have "pid \<notin> live (env_world e)" "live w = insert pid (live (env_world e))"
      using process_tableD(2) [OF pt] Pair by auto
    moreover from this have "env_handlers e pid = None"
      using all by (auto simp: all_live_def)
    ultimately show ?thesis
      using Inr Pair op own all
      by (auto simp: good_call_def ss_launch_def sigchild_add_def ss_wf_def owns_def all_live_def
               same_others_def)
  qed
qed

lemma ss_enqueue_job_good:
  assumes pt: "process_table os live" and wf: "ss_wf t"
    and own: "owns e i (map_option fst (ss_current_operation t))" and all: "all_live live e"
  shows "good_call live i e (apfst (apfst Start_stop_handle) (ss_enqueue_job os i t e))"
proof (cases "ss_current_operation t = None \<and> ss_running t \<noteq> ss_should_work t")
  case True
  then show ?thesis
    using ss_launch_good [OF pt, of t _ e i] own all by (simp add: ss_enqueue_job_def)
next
  case False
  then have "ss_enqueue_job os i t e = ((t, e), Done)"
    by (auto simp: ss_enqueue_job_def)
  then show ?thesis
    using wf own all by (simp add: good_call_def same_others_def)
qed

lemma sa_push_good:
  assumes "fq_invar (sa_queue a)" "owns e i None" "all_live live e"
  shows "good_call live i e (apfst (apfst Sync_handle) (sa_push a e))"
  using assms fq.invar_push [of "sa_queue a" "()"] fq.push_not_aborted [of "()" "sa_queue a"]
  by (auto simp: good_call_def sa_push_def same_others_def aborted_def split: prod.splits)

lemma good_call_env:
  assumes "good_call live i e' res" "env_handlers e' = env_handlers e"
  shows "good_call live i e res"
  using assms by (auto simp: good_call_def same_others_def split: prod.splits)

lemma h_set_should_work_good:
  assumes pt: "process_table os live" and wf: "handle_wf h" and own: "owns e i (handle_pid h)"
    and all: "all_live live e"
  shows "good_call live i e (h_set_should_work os i b h e)"
proof (cases h)
  case (Start_stop_handle t)
  then show ?thesis
    using ss_enqueue_job_good [OF pt, of "t\<lparr>ss_should_work := b\<rparr>" e i] wf own all
    by (simp add: ss_set_should_work_def)
next
  case (Sync_handle a)
  have push: "good_call live i e (apfst (apfst Sync_handle) (sa_push a' (e\<lparr>env_world := w\<rparr>)))"
    if "sa_queue a' = sa_queue a" "live w = live (env_world e)" for a' w
    by (rule good_call_env [OF sa_push_good])
       (use that wf own all Sync_handle in \<open>simp_all add: owns_def all_live_def\<close>)
  have push0: "good_call live i e (apfst (apfst Sync_handle) (sa_push a' e))"
    if "sa_queue a' = sa_queue a" for a'
    using push [of a' "env_world e"] that by simp
  show ?thesis
  proof (cases b)
    case True
    show ?thesis
    proof (cases "sa_handle a")
      case None
      obtain r w where c: "create_task os (sa_task_data a) (env_world e) = (r, w)" by force
      then have "live w = live (env_world e)" using process_tableD(6) [OF pt] by simp
      then show ?thesis
        using push None c True Sync_handle
        by (cases r) (simp_all add: sa_set_should_work_def Let_def)
    qed (use push0 True Sync_handle in \<open>simp add: sa_set_should_work_def Let_def\<close>)
  next
    case False
    then show ?thesis
      using push0 push process_tableD(7) [OF pt] Sync_handle
      by (cases "sa_handle a") (simp_all add: sa_set_should_work_def Let_def)
  qed
qed

text \<open>The wake-up of a queue that is ready, and the exit of the child a task waits for.\<close>

lemma sa_wake_good:
  assumes "fq_invar (sa_queue a)" "fq_ready (sa_queue a)" "owns e i None" "all_live live e"
  shows "good_call live i e (apfst (apfst Sync_handle) (sa_wake a e))"
  using assms fq.take_ready [OF assms(1,2)]
  by (auto simp: good_call_def sa_wake_def same_others_def)

lemma ss_finished_good:
  assumes pt: "process_table os live" and wf: "ss_wf t"
    and op: "ss_current_operation t = Some (pid, op)" and own: "owns e i (Some pid)"
    and all: "dom (env_handlers e) \<subseteq> insert pid (live (env_world e))"
  shows "good_call live i e (apfst (apfst Start_stop_handle) (ss_operation_finished os i t e))"
proof -
  have reg: "env_handlers e pid = Some i" using own by (simp add: owns_def)
  let ?e = "e\<lparr>env_handlers := (env_handlers e)(pid := None)\<rparr>"
  let ?t = "t\<lparr>ss_running := (op = Start_operation), ss_current_operation := None\<rparr>"
  have "ss_operation_finished os i t e = ss_enqueue_job os i ?t ?e"
    using wf op reg by (simp add: ss_operation_finished_def ss_wf_def sigchild_remove_def)
  moreover have "owns ?e i None" "all_live live ?e"
    using own all by (auto simp: owns_def all_live_def)
  then have "good_call live i ?e (apfst (apfst Start_stop_handle) (ss_enqueue_job os i ?t ?e))"
    by (intro ss_enqueue_job_good [OF pt]) (simp_all add: ss_wf_def)
  ultimately show ?thesis
    using reg by (auto simp: good_call_def same_others_def split: prod.splits)
qed

section \<open>All handles\<close>

definition processes_inv :: "('w \<Rightarrow> nat set) \<Rightarrow> 'w initd_state \<Rightarrow> bool" where
  "processes_inv live s \<longleftrightarrow>
     (\<forall>i < length (st_tasks s). handle_wf (t_handle (st_tasks s ! i)) \<and>
        owns (st_env s) i (handle_pid (t_handle (st_tasks s ! i)))) \<and>
     all_live live (st_env s) \<and> handlers_in_range (length (st_tasks s)) (st_env s)"

lemma processes_inv_cong:
  assumes "processes_inv live s" "length (st_tasks s') = length (st_tasks s)" "st_env s' = st_env s"
    "\<And>j. j < length (st_tasks s) \<Longrightarrow> t_handle (st_tasks s' ! j) = t_handle (st_tasks s ! j)"
  shows "processes_inv live s'"
  using assms by (simp add: processes_inv_def)

lemma processes_inv_call:
  assumes i: "i < length (st_tasks s)"
    and good: "good_call live i (st_env s) (f (t_handle (st_tasks s ! i)) (st_env s))"
    and others: "\<And>j. j < length (st_tasks s) \<Longrightarrow> j \<noteq> i \<Longrightarrow> handle_wf (t_handle (st_tasks s ! j)) \<and>
        owns (st_env s) j (handle_pid (t_handle (st_tasks s ! j)))"
    and range: "handlers_in_range (length (st_tasks s)) (st_env s)"
  shows "processes_inv live (fst (call_handle f i s))" "\<not> aborted (call_handle f i s)"
proof -
  obtain h e r where res: "f (t_handle (st_tasks s ! i)) (st_env s) = ((h, e), r)"
    by (metis prod.collapse)
  have g: "handle_wf h" "owns e i (handle_pid h)" "all_live live e" "same_others i (st_env s) e"
    "\<not> aborted (f (t_handle (st_tasks s ! i)) (st_env s))"
    using good by (simp_all add: good_call_def res)
  have "handlers_in_range (length (st_tasks s)) e"
    unfolding handlers_in_range_def
  proof (intro allI impI)
    fix p k
    assume "env_handlers e p = Some k"
    then show "k < length (st_tasks s)"
      using i range g(4) by (cases "k = i") (auto simp: handlers_in_range_def same_others_def)
  qed
  moreover have "handle_wf (t_handle (st_tasks (fst (call_handle f i s)) ! j)) \<and>
      owns e j (handle_pid (t_handle (st_tasks (fst (call_handle f i s)) ! j)))"
    if "j < length (st_tasks s)" for j
    using that g others [OF that]
    by (cases "j = i") (auto simp: nth_call_handle res owns_def same_others_def)
  ultimately show "processes_inv live (fst (call_handle f i s))"
    using g by (simp add: processes_inv_def res)
  show "\<not> aborted (call_handle f i s)"
    using g(5) by (simp add: aborted_def)
qed

lemma set_should_work_processes:
  assumes pt: "process_table os live" and inv: "processes_inv live s" and i: "i < length (st_tasks s)"
  shows "processes_inv live (fst (call_handle (h_set_should_work os i b) i s))"
    "\<not> aborted (call_handle (h_set_should_work os i b) i s)"
proof -
  have "good_call live i (st_env s) (h_set_should_work os i b (t_handle (st_tasks s ! i)) (st_env s))"
    using inv i by (intro h_set_should_work_good [OF pt]) (auto simp: processes_inv_def)
  from processes_inv_call [where f = "h_set_should_work os i b", OF i this]
  show "processes_inv live (fst (call_handle (h_set_should_work os i b) i s))"
    "\<not> aborted (call_handle (h_set_should_work os i b) i s)"
    using inv by (auto simp: processes_inv_def)
qed

definition good_step :: "('w \<Rightarrow> nat set) \<Rightarrow> nat \<Rightarrow> 'w initd_state \<times> outcome \<Rightarrow> bool" where
  "good_step live n res \<longleftrightarrow>
     processes_inv live (fst res) \<and> length (st_tasks (fst res)) = n \<and> \<not> aborted res"

lemma good_step_and_then:
  assumes "good_step live n r"
    and "\<And>s. processes_inv live s \<Longrightarrow> length (st_tasks s) = n \<Longrightarrow> good_step live n (f s)"
  shows "good_step live n (and_then r f)"
  using assms by (cases r; cases "snd r") (auto simp: good_step_def)

lemma good_step_for_each:
  assumes "processes_inv live s" "length (st_tasks s) = n"
    and "\<And>x s. x \<in> set xs \<Longrightarrow> processes_inv live s \<Longrightarrow> length (st_tasks s) = n \<Longrightarrow>
      good_step live n (f x s)"
  shows "good_step live n (for_each f xs s)"
  using assms
proof (induction xs arbitrary: s)
  case (Cons x xs)
  show ?case
    unfolding for_each.simps
    by (rule good_step_and_then) (use Cons in auto)
qed (simp add: good_step_def)

lemma enqueue_this_processes:
  assumes pt: "process_table os live" and "processes_inv live s" "length (st_tasks s) = n" "i < n"
  shows "good_step live n (enqueue_this os i s)"
  unfolding enqueue_this_def
  by (rule good_step_and_then)
     (use assms set_should_work_processes [OF pt] in \<open>auto simp: good_step_def\<close>)

lemma enqueue_tasks_processes:
  assumes pt: "process_table os live" and "processes_inv live s" "length (st_tasks s) = n"
    and "\<forall>i \<in> set tts. i < n"
  shows "good_step live n (enqueue_tasks os tts s)"
  unfolding enqueue_tasks_def
  by (rule good_step_for_each) (use assms enqueue_this_processes [OF pt] in auto)

lemma current_state_changed_processes:
  assumes pt: "process_table os live" and inv: "processes_inv live s" and len: "length (st_tasks s) = n"
    and i: "i < n" and wf: "graph_wf (st_tasks s)"
  shows "good_step live n (current_state_changed os i s)"
proof -
  have "processes_inv live (task_sync i s)"
    by (rule processes_inv_cong [OF inv]) (use i len in \<open>simp_all add: task_sync_facts\<close>)
  moreover have "\<forall>j \<in> set (t_dependants (st_tasks (task_sync i s) ! i)). j < n"
    "\<forall>j \<in> set (t_dependencies (st_tasks (task_sync i s) ! i)). j < n"
    using graph_wfD(1,2) [OF wf, of i] i len by (auto simp: task_sync_facts)
  ultimately show ?thesis
    using len by (simp add: current_state_changed_def Let_def enqueue_tasks_processes [OF pt])
qed

lemma task_completed_processes:
  assumes pt: "process_table os live" and i: "i < length (st_tasks s)" and wf: "graph_wf (st_tasks s)"
    and call: "processes_inv live (fst (call_handle (h_complete os i) i s))"
      "\<not> aborted (call_handle (h_complete os i) i s)"
  shows "good_step live (length (st_tasks s)) (task_completed os i s)"
proof (cases "snd (call_handle (h_complete os i) i s) = Done")
  case True
  then show ?thesis
    using current_state_changed_processes [OF pt call(1) _ i] wf
    by (simp add: task_completed_def and_then_fst)
next
  case False
  then have "task_completed os i s = call_handle (h_complete os i) i s"
    unfolding task_completed_def by (rule and_then_fst(2))
  then show ?thesis
    using call by (simp add: good_step_def)
qed

text \<open>A ready wake-up of an adapted task.\<close>

lemma wake_processes:
  assumes pt: "process_table os live" and inv: "processes_inv live s" and i: "i < length (st_tasks s)"
    and wf: "graph_wf (st_tasks s)"
    and h: "t_handle (st_tasks s ! i) = Sync_handle a" "fq_ready (sa_queue a)"
  shows "good_step live (length (st_tasks s)) (task_completed os i s)"
proof -
  have "handle_wf (Sync_handle a)" "owns (st_env s) i (handle_pid (Sync_handle a))"
    "all_live live (st_env s)"
    using inv i h(1) unfolding processes_inv_def by metis+
  then have "good_call live i (st_env s) (h_complete os i (t_handle (st_tasks s ! i)) (st_env s))"
    using h sa_wake_good [of a "st_env s" i live] by simp
  from processes_inv_call [where f = "h_complete os i", OF i this] show ?thesis
    using inv by (intro task_completed_processes [OF pt i wf]) (auto simp: processes_inv_def)
qed

text \<open>The exit of a registered child.\<close>

lemma exit_processes:
  assumes pt: "process_table os live" and inv: "processes_inv live s" and wf: "graph_wf (st_tasks s)"
    and reg: "env_handlers (st_env s) p = Some i" and w: "live w = live (env_world (st_env s)) - {p}"
  shows "good_step live (length (st_tasks s))
    (task_completed os i (s\<lparr>st_env := (st_env s)\<lparr>env_world := w\<rparr>\<rparr>))"
proof -
  let ?s = "s\<lparr>st_env := (st_env s)\<lparr>env_world := w\<rparr>\<rparr>"
  have i: "i < length (st_tasks s)"
    using inv reg by (auto simp: processes_inv_def handlers_in_range_def)
  have own: "owns (st_env s) j (handle_pid (t_handle (st_tasks s ! j)))"
    and hwf: "handle_wf (t_handle (st_tasks s ! j))" if "j < length (st_tasks s)" for j
    using inv that by (auto simp: processes_inv_def)
  have "handle_pid (t_handle (st_tasks s ! i)) = Some p"
    using own [OF i] reg by (simp add: owns_def)
  then obtain t op where t: "t_handle (st_tasks s ! i) = Start_stop_handle t"
      "ss_current_operation t = Some (p, op)"
    by (cases "t_handle (st_tasks s ! i)") auto
  have all: "dom (env_handlers (st_env ?s)) \<subseteq> insert p (live (env_world (st_env ?s)))"
    using inv w by (auto simp: processes_inv_def all_live_def)
  have "good_call live i (st_env ?s) (h_complete os i (t_handle (st_tasks ?s ! i)) (st_env ?s))"
    using ss_finished_good [OF pt _ t(2) _ all, of i] hwf [OF i] own [OF i] t
    by (simp add: owns_def)
  from processes_inv_call [of i ?s live "h_complete os i", OF _ this]
  have "processes_inv live (fst (call_handle (h_complete os i) i ?s))"
    "\<not> aborted (call_handle (h_complete os i) i ?s)"
    using i own hwf inv by (simp_all add: processes_inv_def)
  then show ?thesis
    using task_completed_processes [OF pt, of i ?s] i wf by simp
qed

text \<open>The loop never aborts; the scheduling invariant keeps the graph in range.\<close>

lemma reap_child_live:
  assumes "process_table os live" "reap_child os w = (c, w')"
  shows "live w' = (case c of Inr (Some (p, st)) \<Rightarrow> live w - {p} | _ \<Rightarrow> live w)"
  using assms process_tableD(3-5) [OF assms(1)]
  by (auto simp: reap_child_def split: prod.splits sum.splits if_splits option.splits)

lemma processes_inv_world:
  assumes "processes_inv live s" "live w = live (env_world (st_env s)) - {p}"
    and "env_handlers (st_env s) p = None"
  shows "processes_inv live (s\<lparr>st_env := (st_env s)\<lparr>env_world := w\<rparr>\<rparr>)"
  using assms by (simp add: processes_inv_def) (auto simp: all_live_def)

lemma processes_inv_same_live:
  assumes "processes_inv live s" "live w = live (env_world (st_env s))"
  shows "processes_inv live (s\<lparr>st_env := (st_env s)\<lparr>env_world := w\<rparr>\<rparr>)"
  using assms by (simp add: processes_inv_def) (simp add: all_live_def)

lemma reap_children_processes:
  assumes "reap_children os s = Some r" "process_table os live" "full_inv n s" "processes_inv live s"
  shows "good_step live n r"
proof -
  let ?R = "\<lambda>r. full_inv n (fst r) \<and> good_step live n r"
  note live = reap_child_live [OF assms(2)]
  have len: "length (st_tasks s) = n" if "full_inv n s" for s :: "'a initd_state"
    using that by (auto simp: full_inv_def dest: initd_invD)
  have "?R r"
  proof (rule reap_children_rule [OF assms(1), where R = ?R])
    fix s :: "'a initd_state" and p st w i
    assume R: "?R (s, Done)" and c: "reap_child os (env_world (st_env s)) = (Inr (Some (p, st)), w)"
      and p: "env_handlers (st_env s) p = Some i"
    have i: "i < n" using R p by (auto simp: full_inv_def handlers_in_range_def)
    moreover have "graph_wf (st_tasks s)"
      using R by (auto simp: full_inv_def dest: initd_invD sched_invD)
    ultimately show "?R (task_completed os i (s\<lparr>st_env := (st_env s)\<lparr>env_world := w\<rparr>\<rparr>))"
      using exit_processes [OF assms(2) _ _ p, of w] R live [OF c] len [of s]
      by (simp add: full_inv_task_completed good_step_def)
  next
    fix s :: "'a initd_state" and p st w
    assume R: "?R (s, Done)" and c: "reap_child os (env_world (st_env s)) = (Inr (Some (p, st)), w)"
      and p: "env_handlers (st_env s) p = None"
    show "?R (s\<lparr>st_env := (st_env s)\<lparr>env_world := w\<rparr>\<rparr>, Done)"
      using R processes_inv_world [OF _ _ p, of live w] live [OF c] by (simp add: good_step_def)
  next
    fix s :: "'a initd_state" and msg w
    assume R: "?R (s, Done)" and c: "reap_child os (env_world (st_env s)) = (Inl msg, w)"
    show "?R (s\<lparr>st_env := (st_env s)\<lparr>env_world := w\<rparr>\<rparr>, Threw msg)"
      using R processes_inv_same_live [of live s w] live [OF c] by (simp add: good_step_def)
  next
    fix s :: "'a initd_state" and w
    assume R: "?R (s, Done)" and c: "reap_child os (env_world (st_env s)) = (Inr None, w)"
    show "?R (s\<lparr>st_env := (st_env s)\<lparr>env_world := w\<rparr>\<rparr>, Done)"
      using R processes_inv_same_live [of live s w] live [OF c] by (simp add: good_step_def)
  qed (use assms len in \<open>simp add: good_step_def\<close>)
  then show ?thesis by blast
qed

lemma set_level_processes:
  assumes pt: "process_table os live" and core: "core_inv n s" and inv: "processes_inv live s"
    and rs: "\<forall>r \<in> set rs. r < n" and ret: "length (st_tasks (retargeted rs s)) = n"
      "st_env (retargeted rs s) = st_env s"
      "\<And>j. j < n \<Longrightarrow> t_handle (st_tasks (retargeted rs s) ! j) = t_handle (st_tasks s ! j)"
  shows "good_step live n (enqueue_all os (retargeted rs s))"
proof -
  have "processes_inv live (retargeted rs s)"
    by (rule processes_inv_cong [OF inv]) (use ret core_invD(5) [OF core] in auto)
  then show ?thesis
    unfolding enqueue_all_def using ret(1)
    by (intro enqueue_tasks_processes [OF pt]) auto
qed

lemma initd_state_construct_processes:
  assumes wf: "wf_descriptions tds" and e: "env_handlers e = (\<lambda>_. None)"
  shows "processes_inv live (fst (initd_state_construct tds e))"
proof -
  have "handle_wf (create_async_task_handle d) \<and> handle_pid (create_async_task_handle d) = None" for d
    by (cases d) (simp_all add: new_sync_adaptor_def new_start_stop_task_def fq.invar_fresh ss_wf_def)
  then show ?thesis
    using e by (auto simp: initd_state_construct_eq [OF wf] processes_inv_def task_handles_def owns_def
      all_live_def handlers_in_range_def)
qed

end
