(* ===== verification/Bin_Stream.thy ===== *)
theory Bin_Stream
  imports Initd_Prelude
begin

unbundle bit_operations_syntax

text \<open>
  \<^verbatim>\<open>libbinstream\<close>: the binary streams over a buffer of bytes, the messages of the control
  protocol, and the part of \<^verbatim>\<open>initctl\<close> that writes them. The header's templates are
  instantiated at the types the program serialises. A trivial type is copied as it lies in
  memory, so a \<^verbatim>\<open>uint32_t\<close> is four bytes, least significant first on the platform.
\<close>

section \<open>Bytes\<close>

type_synonym byte = "8 word"

definition byte_of_char :: "char \<Rightarrow> byte" where
  "byte_of_char c = of_nat (of_char c)"

definition char_of_byte :: "byte \<Rightarrow> char" where
  "char_of_byte b = char_of (unat b)"

definition uint32_bytes :: "uint32 \<Rightarrow> byte list" where
  "uint32_bytes v = [ucast v, ucast (drop_bit 8 v), ucast (drop_bit 16 v), ucast (drop_bit 24 v)]"

definition uint32_of_bytes :: "byte list \<Rightarrow> uint32" where
  "uint32_of_bytes bs =
     ucast (bs ! 0) OR push_bit 8 (ucast (bs ! 1)) OR push_bit 16 (ucast (bs ! 2)) OR
     push_bit 24 (ucast (bs ! 3))"

section \<open>Output\<close>

type_synonym binary_output_stream = "byte list"

definition out_write :: "byte list \<Rightarrow> binary_output_stream \<Rightarrow> binary_output_stream" where
  "out_write bs s = foldl (\<lambda>buffer b. buffer @ [b]) s bs"

definition measure_uint32 :: "uint32 \<Rightarrow> size_t" where
  "measure_uint32 v = 4"

definition write_uint32 ::
    "uint32 \<Rightarrow> binary_output_stream \<Rightarrow> binary_output_stream \<times> outcome" where
  "write_uint32 v s = (out_write (uint32_bytes v) s, Done)"

definition measure_string :: "string \<Rightarrow> size_t" where
  "measure_string v = 4 + of_nat (length v)"

definition write_string ::
    "string \<Rightarrow> binary_output_stream \<Rightarrow> binary_output_stream \<times> outcome" where
  "write_string v s =
     (let size32 = (of_nat (length v) :: uint32) in
      if unat size32 \<noteq> length v then (s, Threw ''too large string to serialize'')
      else and_then (write_uint32 size32 s) (\<lambda>s. (out_write (map byte_of_char v) s, Done)))"

text \<open>The templates for vectors, over the functions of the element type.\<close>

definition measure_vector :: "('a \<Rightarrow> size_t) \<Rightarrow> 'a list \<Rightarrow> size_t" where
  "measure_vector m v = foldl (\<lambda>r x. r + m x) 4 v"

definition write_vector ::
    "('a \<Rightarrow> binary_output_stream \<Rightarrow> binary_output_stream \<times> outcome) \<Rightarrow> 'a list \<Rightarrow>
     binary_output_stream \<Rightarrow> binary_output_stream \<times> outcome" where
  "write_vector wr v s =
     (let size32 = (of_nat (length v) :: uint32) in
      if unat size32 \<noteq> length v then (s, Threw ''too large string to serialize'')
      else and_then (write_uint32 size32 s) (for_each wr v))"

section \<open>Input\<close>

text \<open>
  A \<^verbatim>\<open>binary_input_stream\<close> is the bytes between its position and its end. An operation
  returns what it read and the rest, or throws.
\<close>

type_synonym binary_input_stream = "byte list"
type_synonym 'a read_result = "string + 'a \<times> binary_input_stream"

definition left :: "binary_input_stream \<Rightarrow> nat" where
  "left s = length s"

definition advance :: "nat \<Rightarrow> binary_input_stream \<Rightarrow> unit read_result" where
  "advance n s =
     (if left s < n
      then Inl (''advance past the end of stream, bytes left: '' @ show_nat (left s) @
                '', size: '' @ show_nat n)
      else Inr ((), drop n s))"

definition read_bytes :: "nat \<Rightarrow> binary_input_stream \<Rightarrow> byte list read_result" where
  "read_bytes n s =
     (if left s < n
      then Inl (''read past the end of stream, bytes left: '' @ show_nat (left s) @
                '', size: '' @ show_nat n)
      else Inr (take n s, drop n s))"

definition expect_eof :: "binary_input_stream \<Rightarrow> unit read_result" where
  "expect_eof s =
     (if s \<noteq> [] then Inl (''expected eof, but '' @ show_nat (left s) @ '' bytes left'')
      else Inr ((), s))"

definition read_uint32 :: "binary_input_stream \<Rightarrow> uint32 read_result" where
  "read_uint32 s =
     (case read_bytes 4 s of Inl e \<Rightarrow> Inl e | Inr (bs, s) \<Rightarrow> Inr (uint32_of_bytes bs, s))"

definition read_string :: "binary_input_stream \<Rightarrow> string read_result" where
  "read_string s =
     (case read_uint32 s of
        Inl e \<Rightarrow> Inl e
      | Inr (size32, s) \<Rightarrow>
          (case read_bytes (unat size32) s of
             Inl e \<Rightarrow> Inl e
           | Inr (tmp, s) \<Rightarrow> Inr (map char_of_byte tmp, s)))"

section \<open>The control protocol\<close>

datatype control_message = Reboot_msg | Power_off_msg | Set_runlevel_msg string

fun msg_id :: "control_message \<Rightarrow> uint32" where
  "msg_id Reboot_msg = 1"
| "msg_id Power_off_msg = 2"
| "msg_id (Set_runlevel_msg _) = 3"

text \<open>
  The two empty structures are trivial types of size one; the byte \<open>pad\<close> that is copied for
  them is unspecified.
\<close>

fun measure_msg :: "control_message \<Rightarrow> size_t" where
  "measure_msg Reboot_msg = 1"
| "measure_msg Power_off_msg = 1"
| "measure_msg (Set_runlevel_msg n) = measure_string n"

fun write_msg ::
    "byte \<Rightarrow> control_message \<Rightarrow> binary_output_stream \<Rightarrow> binary_output_stream \<times> outcome" where
  "write_msg pad Reboot_msg s = (out_write [pad] s, Done)"
| "write_msg pad Power_off_msg s = (out_write [pad] s, Done)"
| "write_msg pad (Set_runlevel_msg n) s = write_string n s"

definition serialize ::
    "byte \<Rightarrow> control_message \<Rightarrow> binary_output_stream \<Rightarrow> binary_output_stream \<times> outcome" where
  "serialize pad m s =
     and_then (write_uint32 (ucast (measure_msg m)) s)
       (\<lambda>s. and_then (write_uint32 (msg_id m) s) (write_msg pad m))"

text \<open>The choice of the message in \<^verbatim>\<open>initctl\<close>; its arguments include the program name.\<close>

definition initctl_message :: "string list \<Rightarrow> string + control_message" where
  "initctl_message argv =
     (let action = argv ! 1 in
      if action = ''reboot'' then Inr Reboot_msg
      else if action = ''poweroff'' then Inr Power_off_msg
      else if action = ''runlevel'' then
        (if length argv < 3 then Inl ''expected runlevel name'' else Inr (Set_runlevel_msg (argv ! 2)))
      else Inl (''unknown action: \"'' @ action @ ''\"''))"

text \<open>
  What \<^verbatim>\<open>initctl\<close> does once it is connected: the bytes handed to \<^verbatim>\<open>write\<close>, or the error
  it prints.
\<close>

definition initctl_output :: "byte \<Rightarrow> string list \<Rightarrow> (string + byte list)" where
  "initctl_output pad argv =
     (case initctl_message argv of
        Inl e \<Rightarrow> Inl e
      | Inr m \<Rightarrow> (case serialize pad m [] of
                    (s, Threw e) \<Rightarrow> Inl e | (s, Aborted e) \<Rightarrow> Inl e | (s, Done) \<Rightarrow> Inr s))"

section \<open>Parsing a message\<close>

text \<open>
  The handler of a connection looks at everything received so far: it may have to wait for
  more, it may reject the input, or it finds one message that ends exactly with the input.
\<close>

datatype parsed = Incomplete | Bad string | Message control_message

definition control_message_limit :: uint32 where
  "control_message_limit = 1024 * 1024"

definition parse_msg :: "uint32 \<Rightarrow> binary_input_stream \<Rightarrow> control_message read_result" where
  "parse_msg i s =
     (if i = msg_id Reboot_msg then
        (case read_bytes 1 s of Inl e \<Rightarrow> Inl e | Inr (_, s) \<Rightarrow> Inr (Reboot_msg, s))
      else if i = msg_id Power_off_msg then
        (case read_bytes 1 s of Inl e \<Rightarrow> Inl e | Inr (_, s) \<Rightarrow> Inr (Power_off_msg, s))
      else if i = msg_id (Set_runlevel_msg []) then
        (case read_string s of Inl e \<Rightarrow> Inl e | Inr (n, s) \<Rightarrow> Inr (Set_runlevel_msg n, s))
      else Inl (''unknown message id: '' @ show_nat (unat i)))"

definition parse_control :: "byte list \<Rightarrow> parsed" where
  "parse_control buf =
     (if left buf < 2 * 4 then Incomplete
      else
        (case read_uint32 buf of
           Inl e \<Rightarrow> Bad e
         | Inr (size32, s) \<Rightarrow>
             (if size32 > control_message_limit
              then Bad (''control message is too long, size: '' @ show_nat (unat size32) @
                        '', limit: '' @ show_nat (unat control_message_limit) @ [CHR 0x0A])
              else
                (case read_uint32 s of
                   Inl e \<Rightarrow> Bad e
                 | Inr (i, s) \<Rightarrow>
                     (if left s < unat size32 then Incomplete
                      else
                        (case parse_msg i s of
                           Inl e \<Rightarrow> Bad e
                         | Inr (m, s) \<Rightarrow>
                             (case expect_eof s of Inl e \<Rightarrow> Bad e | Inr _ \<Rightarrow> Message m)))))))"

section \<open>Round trips\<close>

lemma out_write_append [simp]: "out_write bs s = s @ bs"
  unfolding out_write_def by (induction bs arbitrary: s) auto

lemma of_char_less_256: "(of_char c :: nat) < 256"
proof -
  have "of_char c = (of_char c :: nat) mod 256" by simp
  then show ?thesis by (metis mod_less_divisor zero_less_numeral)
qed

lemma char_of_byte_of_char [simp]: "char_of_byte (byte_of_char c) = c"
  using of_char_less_256 [of c]
  by (simp add: char_of_byte_def byte_of_char_def unat_of_nat)

lemma length_uint32_bytes [simp]: "length (uint32_bytes v) = 4"
  by (simp add: uint32_bytes_def)

lemma uint32_of_bytes_bytes [simp]: "uint32_of_bytes (uint32_bytes v) = v"
proof (rule bit_eqI)
  fix n
  assume "possible_bit TYPE(uint32) n"
  then have n: "n < 32" by simp
  consider "n < 8" | "8 \<le> n" "n < 16" | "16 \<le> n" "n < 24" | "24 \<le> n" by linarith
  then show "bit (uint32_of_bytes (uint32_bytes v)) n = bit v n"
    by cases (use n in \<open>auto simp: uint32_of_bytes_def uint32_bytes_def bit_or_iff
        bit_push_bit_iff bit_ucast_iff bit_drop_bit_eq\<close>)
qed

lemma read_uint32_write [simp]: "read_uint32 (uint32_bytes v @ s) = Inr (v, s)"
  by (simp add: read_uint32_def read_bytes_def left_def)

lemma length_take_size [simp]: "read_bytes (length bs) (bs @ s) = Inr (bs, s)"
  by (simp add: read_bytes_def left_def)

text \<open>The condition under which a string can be written.\<close>

lemma unat_length_uint32: "length v < 2 ^ 32 \<Longrightarrow> unat (of_nat (length v) :: uint32) = length v"
  by (simp add: unat_of_nat)

lemma write_string_ok:
  assumes "length v < 2 ^ 32"
  shows "write_string v s = (s @ uint32_bytes (of_nat (length v)) @ map byte_of_char v, Done)"
  using assms by (simp add: write_string_def unat_length_uint32 write_uint32_def)

lemma write_string_too_large:
  assumes "2 ^ 32 \<le> length v"
  shows "write_string v s = (s, Threw ''too large string to serialize'')"
proof -
  have "unat (of_nat (length v) :: uint32) < 2 ^ 32"
    using unsigned_less [of "of_nat (length v) :: uint32"] by simp
  then show ?thesis
    using assms by (auto simp: write_string_def Let_def)
qed

lemma read_string_write:
  assumes "length v < 2 ^ 32"
  shows "read_string (uint32_bytes (of_nat (length v)) @ map byte_of_char v @ s) = Inr (v, s)"
  using assms length_take_size [of "map byte_of_char v" s]
  by (simp add: read_string_def unat_length_uint32 comp_def)

text \<open>What a receiver makes of a message.\<close>

definition msg_body :: "byte \<Rightarrow> control_message \<Rightarrow> byte list" where
  "msg_body pad m =
     (case m of Set_runlevel_msg n \<Rightarrow> uint32_bytes (of_nat (length n)) @ map byte_of_char n
      | _ \<Rightarrow> [pad])"

text \<open>The messages both ends accept: the name fits the limit on a message's size.\<close>

definition msg_fits :: "control_message \<Rightarrow> bool" where
  "msg_fits m \<longleftrightarrow> (case m of Set_runlevel_msg n \<Rightarrow> length n + 4 \<le> 1024 * 1024 | _ \<Rightarrow> True)"

lemma length_msg_body:
  assumes "msg_fits m"
  shows "unat (measure_msg m) = length (msg_body pad m)" "length (msg_body pad m) \<le> 1024 * 1024"
proof -
  have "unat (4 + of_nat k :: size_t) = 4 + k" if "k + 4 \<le> 1048576" for k
    using that by (simp add: unat_word_ariths unat_of_nat)
  then show "unat (measure_msg m) = length (msg_body pad m)"
    using assms by (cases m) (simp_all add: msg_fits_def msg_body_def measure_string_def)
  show "length (msg_body pad m) \<le> 1024 * 1024"
    using assms by (cases m) (simp_all add: msg_fits_def msg_body_def)
qed

lemma serialize_ok:
  assumes "msg_fits m"
  shows "serialize pad m [] =
    (uint32_bytes (of_nat (length (msg_body pad m))) @ uint32_bytes (msg_id m) @ msg_body pad m, Done)"
proof -
  have "ucast (measure_msg m) = (of_nat (length (msg_body pad m)) :: uint32)"
    using length_msg_body(1) [OF assms, of pad] by (metis of_nat_unat)
  moreover have "write_msg pad m s = (s @ msg_body pad m, Done)" for s
    using assms by (cases m) (simp_all add: msg_fits_def msg_body_def write_string_ok)
  ultimately show ?thesis
    by (simp add: serialize_def write_uint32_def)
qed

lemma parse_msg_body: "msg_fits m \<Longrightarrow> parse_msg (msg_id m) (msg_body pad m) = Inr (m, [])"
  using read_string_write [of _ "[]"]
  by (cases m) (simp_all add: parse_msg_def msg_body_def msg_fits_def read_bytes_def left_def)

lemma parse_control_serialized:
  assumes fits: "msg_fits m"
  shows "parse_control (uint32_bytes (of_nat (length (msg_body pad m))) @
      uint32_bytes (msg_id m) @ msg_body pad m) = Message m"
proof -
  have le: "length (msg_body pad m) \<le> 1048576" using length_msg_body(2) [OF fits, of pad] by simp
  then have "unat (of_nat (length (msg_body pad m)) :: uint32) = length (msg_body pad m)"
    by (simp add: unat_of_nat)
  moreover from this le have "\<not> control_message_limit < of_nat (length (msg_body pad m))"
    by (simp add: control_message_limit_def word_less_nat_alt)
  ultimately show ?thesis
    by (simp add: parse_control_def parse_msg_body [OF fits] expect_eof_def left_def)
qed

text \<open>Anything shorter is not yet a message: a partial receive is never misread.\<close>

lemma parse_control_prefix:
  assumes fits: "msg_fits m" and n: "n < 8 + length (msg_body pad m)"
  shows "parse_control (take n (uint32_bytes (of_nat (length (msg_body pad m))) @
      uint32_bytes (msg_id m) @ msg_body pad m)) = Incomplete"
proof (cases "n < 8")
  case True
  have "parse_control (take n bs) = Incomplete" for bs
    using True by (simp add: parse_control_def left_def min_def)
  then show ?thesis .
next
  case False
  have le: "length (msg_body pad m) \<le> 1048576" using length_msg_body(2) [OF fits, of pad] by simp
  then have u: "unat (of_nat (length (msg_body pad m)) :: uint32) = length (msg_body pad m)"
    by (simp add: unat_of_nat)
  with le have l: "\<not> control_message_limit < of_nat (length (msg_body pad m))"
    by (simp add: control_message_limit_def word_less_nat_alt)
  have "take n (uint32_bytes (of_nat (length (msg_body pad m))) @ uint32_bytes (msg_id m) @ msg_body pad m)
      = uint32_bytes (of_nat (length (msg_body pad m))) @ uint32_bytes (msg_id m) @
        take (n - 8) (msg_body pad m)"
    using False by simp
  moreover have "length (take (n - 8) (msg_body pad m)) < length (msg_body pad m)"
    using n False by simp
  ultimately show ?thesis
    using u l False n by (simp add: parse_control_def left_def)
qed

text \<open>A message must end with the input: with anything behind it, it is rejected.\<close>

lemma parse_msg_followed:
  assumes "msg_fits m"
  shows "parse_msg (msg_id m) (msg_body pad m @ extra) = Inr (m, extra)"
  using assms read_string_write [of _ extra]
  by (cases m) (simp_all add: parse_msg_def msg_body_def msg_fits_def read_bytes_def left_def)

lemma parse_control_followed:
  assumes fits: "msg_fits m" and extra: "extra \<noteq> []"
  shows "parse_control (uint32_bytes (of_nat (length (msg_body pad m))) @ uint32_bytes (msg_id m) @
      msg_body pad m @ extra) = Bad (''expected eof, but '' @ show_nat (length extra) @ '' bytes left'')"
proof -
  have le: "length (msg_body pad m) \<le> 1048576" using length_msg_body(2) [OF fits, of pad] by simp
  then have u: "unat (of_nat (length (msg_body pad m)) :: uint32) = length (msg_body pad m)"
    by (simp add: unat_of_nat)
  with le have "\<not> control_message_limit < of_nat (length (msg_body pad m))"
    by (simp add: control_message_limit_def word_less_nat_alt)
  with u extra show ?thesis
    by (simp add: parse_control_def parse_msg_followed [OF fits] expect_eof_def left_def)
qed

end
