(* ===== verification/Init_Context.thy ===== *)
theory Init_Context
  imports Task_Graph_Quiet Task_Graph_Processes Bin_Stream
begin

text \<open>
  The program \<^verbatim>\<open>init/initd-main.cpp\<close>: the \<^verbatim>\<open>context\<close> with the requested target, its
  event loop as a step relation, and what \<^verbatim>\<open>main\<close> does when the loop ends. An exception
  that leaves a callback is caught and logged by \<^verbatim>\<open>epoll::wait\<close>, so the loop goes on.
\<close>

section \<open>The context\<close>

datatype target = Target_running | Target_reboot | Target_power_off

record 'w initd_context =
  ctx_target :: target
  ctx_state :: "'w initd_state"

definition on_state ::
    "('w initd_state \<Rightarrow> 'w initd_state \<times> outcome) \<Rightarrow> 'w initd_context \<Rightarrow> 'w initd_context \<times> outcome" where
  "on_state f c = (case f (ctx_state c) of (s, r) \<Rightarrow> (c\<lparr>ctx_state := s\<rparr>, r))"

definition is_active :: "'w initd_context \<Rightarrow> bool" where
  "is_active c \<longleftrightarrow> ctx_target c = Target_running \<or> has_pending_operations (ctx_state c)"

definition reboot :: "'w os \<Rightarrow> 'w initd_context \<Rightarrow> 'w initd_context \<times> outcome" where
  "reboot os c = on_state (set_empty_run_level os) (c\<lparr>ctx_target := Target_reboot\<rparr>)"

definition power_off :: "'w os \<Rightarrow> 'w initd_context \<Rightarrow> 'w initd_context \<times> outcome" where
  "power_off os c = on_state (set_empty_run_level os) (c\<lparr>ctx_target := Target_power_off\<rparr>)"

definition set_runlevel :: "'w os \<Rightarrow> string \<Rightarrow> 'w initd_context \<Rightarrow> 'w initd_context \<times> outcome" where
  "set_runlevel os runlevel_name c =
     on_state (set_run_level os runlevel_name) (c\<lparr>ctx_target := Target_running\<rparr>)"

text \<open>The constructor: no child is registered yet.\<close>

definition context_construct :: "'w os \<Rightarrow> task_descriptions \<Rightarrow> 'w \<Rightarrow> 'w initd_context \<times> outcome" where
  "context_construct os descriptions w =
     (case initd_state_construct descriptions \<lparr>env_world = w, env_handlers = (\<lambda>_. None)\<rparr> of
        (s, r) \<Rightarrow>
          and_then (\<lparr>ctx_target = Target_running, ctx_state = s\<rparr>, r)
            (on_state (set_run_level os ''default'')))"

section \<open>The event loop\<close>

text \<open>
  What \<^verbatim>\<open>epoll::wait\<close> can report: a callback queue of a task, the descriptor of
  \<^verbatim>\<open>SIGCHLD\<close>, the descriptor of \<^verbatim>\<open>SIGINT\<close> and \<^verbatim>\<open>SIGTERM\<close>, or a complete message on a
  connection of the control socket.
\<close>

datatype event = Wake_up nat | Child_exit | Termination_signal | Control control_message

fun execute :: "'w os \<Rightarrow> control_message \<Rightarrow> 'w initd_context \<Rightarrow> 'w initd_context \<times> outcome" where
  "execute os Reboot_msg c = reboot os c"
| "execute os Power_off_msg c = power_off os c"
| "execute os (Set_runlevel_msg n) c = set_runlevel os n c"

definition queue_ready :: "nat \<Rightarrow> 'w initd_state \<Rightarrow> bool" where
  "queue_ready i s \<longleftrightarrow> i < length (st_tasks s) \<and>
     (case t_handle (st_tasks s ! i) of Sync_handle a \<Rightarrow> fq_ready (sa_queue a)
      | Start_stop_handle _ \<Rightarrow> False)"

text \<open>The callback; \<open>None\<close> if the loop over exited children never ends.\<close>

fun dispatch :: "'w os \<Rightarrow> event \<Rightarrow> 'w initd_context \<Rightarrow> ('w initd_context \<times> outcome) option" where
  "dispatch os (Wake_up i) c =
     (if queue_ready i (ctx_state c) then Some (on_state (task_completed os i) c) else None)"
| "dispatch os Child_exit c =
     map_option (\<lambda>(s, r). (c\<lparr>ctx_state := s\<rparr>, r)) (reap_children os (ctx_state c))"
| "dispatch os Termination_signal c = Some (reboot os c)"
| "dispatch os (Control m) c = Some (execute os m c)"

text \<open>
  A step of the running program: a round of the loop that ends as \<open>r\<close>, or a change of
  the world the program has no part in, such as a child that exits. \<open>nature\<close> is the
  relation of those changes.
\<close>

inductive step :: "'w os \<Rightarrow> ('w \<Rightarrow> 'w \<Rightarrow> bool) \<Rightarrow> outcome \<Rightarrow> 'w initd_context \<Rightarrow> 'w initd_context \<Rightarrow> bool"
  for os nature where
  round: "step os nature r c c'"
    if "is_active c" "dispatch os ev c = Some (c', r)"
| outside: "step os nature Done c
      (c\<lparr>ctx_state := (ctx_state c)\<lparr>st_env := (st_env (ctx_state c))\<lparr>env_world := w\<rparr>\<rparr>\<rparr>)"
    if "nature (env_world (st_env (ctx_state c))) w"

inductive_cases stepE: "step os nature r c c'"

text \<open>The states of the loop; \<open>rs\<close> are the ends of its rounds, the last one first.\<close>

inductive runs :: "'w os \<Rightarrow> ('w \<Rightarrow> 'w \<Rightarrow> bool) \<Rightarrow> task_descriptions \<Rightarrow> outcome list \<Rightarrow> 'w initd_context \<Rightarrow> bool"
  for os nature tds where
  constructed: "runs os nature tds [] c"
    if "context_construct os tds w = (c, Done)"
| stepped: "runs os nature tds (r # rs) c'"
    if "runs os nature tds rs c" "step os nature r c c'"

definition all_done :: "outcome list \<Rightarrow> bool" where
  "all_done rs \<longleftrightarrow> (\<forall>r \<in> set rs. r = Done)"

text \<open>
  The end of \<^verbatim>\<open>main\<close>: \<open>exited\<close> is the target the loop ended with, or none if an
  exception reached \<^verbatim>\<open>main\<close>. Only the first process acts on it.
\<close>

datatype system_action = No_action | Reboot_system | Power_off_system | Assertion_false

definition main_end :: "nat \<Rightarrow> target option \<Rightarrow> system_action" where
  "main_end pid exited =
     (let exit_state = (case exited of None \<Rightarrow> Target_reboot | Some t \<Rightarrow> t) in
      if pid = 1 then
        (case exit_state of Target_running \<Rightarrow> Assertion_false
         | Target_reboot \<Rightarrow> Reboot_system | Target_power_off \<Rightarrow> Power_off_system)
      else No_action)"

section \<open>A state invariant through the loop\<close>

text \<open>
  What the operations on the scheduler keep, a step of the loop keeps. The interface between
  the scheduler and the event loop is the following contract, with the guard under which an
  operation has to keep the property.
\<close>

locale loop_step =
  fixes os :: "'w os"
    and nature :: "'w \<Rightarrow> 'w \<Rightarrow> bool"
    and good :: "outcome \<Rightarrow> bool"
    and P :: "'w initd_state \<Rightarrow> bool"
  assumes P_level: "P s \<Longrightarrow> good (snd (set_run_level os name s)) \<Longrightarrow> P (fst (set_run_level os name s))"
    and P_empty: "P s \<Longrightarrow> good (snd (set_empty_run_level os s)) \<Longrightarrow> P (fst (set_empty_run_level os s))"
    and P_wake: "P s \<Longrightarrow> queue_ready i s \<Longrightarrow> good (snd (task_completed os i s)) \<Longrightarrow>
        P (fst (task_completed os i s))"
    and P_reap: "P s \<Longrightarrow> reap_children os s = Some (s', r) \<Longrightarrow> good r \<Longrightarrow> P s'"
    and P_outside: "P s \<Longrightarrow> nature (env_world (st_env s)) w \<Longrightarrow>
        P (s\<lparr>st_env := (st_env s)\<lparr>env_world := w\<rparr>\<rparr>)"
    and good_Done: "good Done"
begin

lemma P_step:
  assumes "step os nature r c c'" "P (ctx_state c)" "good r"
  shows "P (ctx_state c')"
  using assms(1)
proof cases
  case (round ev)
  show ?thesis
  proof (cases ev)
    case (Wake_up i)
    then show ?thesis
      using round assms P_wake [of "ctx_state c" i]
      by (auto simp: on_state_def split: if_splits prod.splits)
  next
    case Child_exit
    then show ?thesis
      using round assms P_reap [of "ctx_state c"] by auto
  next
    case Termination_signal
    then show ?thesis
      using round assms P_empty [of "ctx_state c"]
      by (auto simp: reboot_def on_state_def split: prod.splits)
  next
    case (Control m)
    show ?thesis
    proof (cases m)
      case (Set_runlevel_msg n)
      then show ?thesis
        using round assms Control P_level [of "ctx_state c" n]
        by (auto simp: set_runlevel_def on_state_def split: prod.splits)
    qed (use round assms Control P_empty [of "ctx_state c"] in
        \<open>auto simp: reboot_def power_off_def on_state_def split: prod.splits\<close>)
  qed
qed (use assms P_outside in auto)

end

text \<open>With the constructor, it holds in every state of the loop.\<close>

locale loop_invariant = loop_step os nature good P
  for os :: "'w os" and nature and tds :: task_descriptions and good and P +
  assumes P_construct: "snd (initd_state_construct tds e) = Done \<Longrightarrow>
        env_handlers e = (\<lambda>_. None) \<Longrightarrow> P (fst (initd_state_construct tds e))"
begin

lemma P_context_construct:
  assumes "context_construct os tds w = (c, Done)"
  shows "P (ctx_state c)"
proof -
  let ?e = "\<lparr>env_world = w, env_handlers = (\<lambda>_. None)\<rparr>"
  obtain s r where s: "initd_state_construct tds ?e = (s, r)" by force
  then have r: "r = Done"
    using assms by (auto simp: context_construct_def and_then_def split: if_splits)
  then have "P s" using P_construct [of ?e] s by simp
  moreover have "c = \<lparr>ctx_target = Target_running, ctx_state = fst (set_run_level os ''default'' s)\<rparr>"
    "snd (set_run_level os ''default'' s) = Done"
    using assms s r by (auto simp: context_construct_def on_state_def split: prod.splits)
  ultimately show ?thesis using P_level good_Done by simp
qed

lemma P_runs: "runs os nature tds rs c \<Longrightarrow> \<forall>r \<in> set rs. good r \<Longrightarrow> P (ctx_state c)"
proof (induction rule: runs.induct)
  case (constructed w c)
  then show ?case using P_context_construct by blast
next
  case (stepped rs c r c')
  then show ?case using P_step by auto
qed

end

end
