(* ===== verification/Init_Loop.thy ===== *)
theory Init_Loop
  imports Init_Context
begin

text \<open>
  Invariants of the event loop of \<open>Init_Context\<close>: the contract \<open>loop_invariant\<close> is
  interpreted for the scheduling invariant, for progress, for the book-keeping of children
  and for the edges of the graph, and the marks are related to the requested target.
\<close>

section \<open>What requests and callbacks leave alone\<close>

text \<open>
  Marks and edges are not touched by requests to handles, by \<^verbatim>\<open>sync\<close> or by callbacks. A view
  of a task that ignores handles, counters and flags is static.
\<close>

definition static :: "(task \<Rightarrow> 'b) \<Rightarrow> bool" where
  "static f \<longleftrightarrow>
     (\<forall>t h. f (t\<lparr>t_handle := h\<rparr>) = f t) \<and>
     (\<forall>t a b c d e. f (t\<lparr>t_running_dependants := a, t_counted_in_dependencies := b,
        t_stopped_dependencies := c, t_counted_in_dependants := d,
        t_counted_in_pending_tasks := e\<rparr>) = f t)"

definition frame_of :: "(task \<Rightarrow> 'b) \<Rightarrow> 'w initd_state \<Rightarrow> 'b list" where
  "frame_of f s = map f (st_tasks s)"

abbreviation marks_of :: "'w initd_state \<Rightarrow> bool list" where
  "marks_of \<equiv> frame_of t_should_work"

abbreviation dependencies_of :: "'w initd_state \<Rightarrow> nat list list" where
  "dependencies_of \<equiv> frame_of t_dependencies"

lemma static_views [simp]: "static t_should_work" "static t_dependencies"
  by (simp_all add: static_def)

lemma length_frame_of [simp]: "length (frame_of f s) = length (st_tasks s)"
  by (simp add: frame_of_def)

lemma nth_frame_of [simp]: "i < length (st_tasks s) \<Longrightarrow> frame_of f s ! i = f (st_tasks s ! i)"
  by (simp add: frame_of_def)

lemma frame_of_length: "frame_of f s' = frame_of f s \<Longrightarrow> length (st_tasks s') = length (st_tasks s)"
  by (metis length_frame_of)

lemma frame_of_eqI:
  assumes "length (st_tasks s') = length (st_tasks s)"
    and "\<And>j. j < length (st_tasks s) \<Longrightarrow> f (st_tasks s' ! j) = f (st_tasks s ! j)"
  shows "frame_of f s' = frame_of f s"
  using assms by (intro nth_equalityI) simp_all

lemma frame_of_env [simp]: "frame_of f (s\<lparr>st_env := e\<rparr>) = frame_of f s"
  by (simp add: frame_of_def)

lemma frame_of_call [simp]: "static f \<Longrightarrow> frame_of f (fst (call_handle g i s)) = frame_of f s"
  by (rule frame_of_eqI) (simp_all add: nth_call_handle static_def)

lemma frame_of_enqueue_this [simp]: "static f \<Longrightarrow> frame_of f (fst (enqueue_this os i s)) = frame_of f s"
  unfolding enqueue_this_def
  by (rule and_then_inv [where P = "\<lambda>s'. frame_of f s' = frame_of f s"]) auto

lemma frame_of_enqueue_tasks [simp]:
  "static f \<Longrightarrow> frame_of f (fst (enqueue_tasks os tts s)) = frame_of f s"
  unfolding enqueue_tasks_def
  by (rule for_each_inv [where P = "\<lambda>s'. frame_of f s' = frame_of f s"]) auto

lemma frame_of_sync:
  assumes "static f" "i < length (st_tasks s)"
  shows "frame_of f (task_sync i s) = frame_of f s"
  by (rule frame_of_eqI) (use assms in \<open>simp_all add: task_sync_nth static_def\<close>)

lemma frame_of_task_completed:
  assumes f: "static f" and i: "i < length (st_tasks s)"
  shows "frame_of f (fst (task_completed os i s)) = frame_of f s"
  unfolding task_completed_def
proof (rule and_then_inv [where P = "\<lambda>s'. frame_of f s' = frame_of f s"])
  fix s' :: "'b initd_state"
  assume s': "frame_of f s' = frame_of f s"
  then have "i < length (st_tasks s')" using i frame_of_length by metis
  then show "frame_of f (fst (current_state_changed os i s')) = frame_of f s"
    using f s' by (simp add: current_state_changed_def Let_def frame_of_sync)
qed (simp add: f)

text \<open>The marks of the run level with the requisites \<open>rs\<close>.\<close>

definition level_marks :: "nat list \<Rightarrow> 'w initd_state \<Rightarrow> bool list" where
  "level_marks rs s =
     map (\<lambda>j. \<exists>r \<in> set rs. (r, j) \<in> (depends_on (st_tasks s))\<^sup>*) [0..<length (st_tasks s)]"

lemma marks_of_enqueue_all:
  assumes core: "core_inv n s" and rs: "\<forall>r \<in> set rs. r < n"
  shows "marks_of (fst (enqueue_all os (retargeted rs s))) = level_marks rs s"
proof -
  have "marks_of (retargeted rs s) = level_marks rs s"
    using retargeted_fields [OF core rs] core_invD(5) [OF core]
    by (intro nth_equalityI) (simp_all add: level_marks_def)
  then show ?thesis by (simp add: enqueue_all_def)
qed

lemma level_marks_Nil: "level_marks [] s = replicate (length (st_tasks s)) False"
  by (simp add: level_marks_def map_replicate_const)

section \<open>The invariants of the loop\<close>

definition descriptions_ok :: "task_descriptions \<Rightarrow> bool" where
  "descriptions_ok tds \<longleftrightarrow> wf_descriptions tds \<and> sizes_fit tds"

lemma full_inv_set_levels:
  assumes "full_inv n s"
  shows "full_inv n (fst (set_run_level os name s))" "full_inv n (fst (set_empty_run_level os s))"
proof -
  have inv: "initd_inv n s" and h: "handlers_in_range n (st_env s)"
    using assms by (auto simp: full_inv_def)
  have core: "core_inv n s" using inv by (simp add: initd_inv_core)
  have env: "st_env (retargeted rs s) = st_env s" for rs
  proof -
    have "st_env (foldl (\<lambda>s i. task_sync i s) s' xs) = st_env s'" for s' :: "'a initd_state" and xs
      by (induction xs arbitrary: s') simp_all
    then show ?thesis by (simp add: retargeted_def sync_all_def)
  qed
  have all: "handlers_in_range n (st_env (fst (enqueue_all os (retargeted rs s))))"
    if "\<forall>r \<in> set rs. r < n" for rs
    unfolding enqueue_all_def
    by (rule enqueue_tasks_handlers) (use h env retargeted_fields(1) [OF core that] in auto)
  have "handlers_in_range n (st_env (fst (set_run_level os name s)))"
  proof (cases "mm_find (st_run_levels s) name")
    case (Some rs)
    then have "\<forall>r \<in> set rs. r < n"
      using find_level_in_range [OF initd_invD(2) [OF inv]] initd_invD(3) [OF inv] by simp
    then show ?thesis using Some all by (simp add: set_run_level_retargeted)
  qed (use h in \<open>simp add: set_run_level_retargeted\<close>)
  then show "full_inv n (fst (set_run_level os name s))"
    using inv by (simp add: full_inv_def set_run_level_inv)
  show "full_inv n (fst (set_empty_run_level os s))"
    using set_empty_run_level_inv [OF inv, of os] all [of "[]"]
    by (simp add: full_inv_def set_run_level_retargeted(2))
qed

lemma full_inv_length: "full_inv n s \<Longrightarrow> length (st_tasks s) = n"
  by (auto simp: full_inv_def dest: initd_invD)

lemma queue_ready_range: "queue_ready i s \<Longrightarrow> full_inv n s \<Longrightarrow> i < n"
  by (simp add: queue_ready_def full_inv_length)

text \<open>Safety: however the rounds end.\<close>

interpretation safe: loop_invariant os nature tds "\<lambda>_. True"
    "\<lambda>s. descriptions_ok tds \<longrightarrow> full_inv (length (all_tasks tds)) s"
  for os :: "'w os" and nature tds
proof unfold_locales
  fix e :: "'w env"
  assume e: "env_handlers e = (\<lambda>_. None)"
  show "descriptions_ok tds \<longrightarrow>
      full_inv (length (all_tasks tds)) (fst (initd_state_construct tds e))"
    using initd_state_construct_inv [of tds e] e
    by (auto simp: descriptions_ok_def full_inv_def handlers_in_range_def initd_state_construct_eq)
next
  fix s :: "'w initd_state" and s' r
  assume "descriptions_ok tds \<longrightarrow> full_inv (length (all_tasks tds)) s"
    "reap_children os s = Some (s', r)"
  then show "descriptions_ok tds \<longrightarrow> full_inv (length (all_tasks tds)) s'"
    using full_inv_reap_children [of os s "(s', r)"] by auto
next
  fix s :: "'w initd_state" and i
  assume "descriptions_ok tds \<longrightarrow> full_inv (length (all_tasks tds)) s" "queue_ready i s"
  then show "descriptions_ok tds \<longrightarrow> full_inv (length (all_tasks tds)) (fst (task_completed os i s))"
    by (auto intro: full_inv_task_completed queue_ready_range)
qed (simp_all add: full_inv_set_levels)

lemma runs_full_inv:
  assumes "runs os nature tds rs c" "descriptions_ok tds"
  shows "full_inv (length (all_tasks tds)) (ctx_state c)"
  using safe.P_runs [OF assms(1)] assms(2) by simp

lemma runs_sched_inv:
  assumes "runs os nature tds rs c" "descriptions_ok tds"
  shows "initd_inv (length (all_tasks tds)) (ctx_state c)" "sched_inv (ctx_state c)"
    "length (st_tasks (ctx_state c)) = length (all_tasks tds)"
  using runs_full_inv [OF assms] by (auto simp: full_inv_def initd_inv_def)

text \<open>Progress: as long as every round ends normally.\<close>

definition progressing :: "nat \<Rightarrow> 'w initd_state \<Rightarrow> bool" where
  "progressing n s \<longleftrightarrow> full_inv n s \<and> no_one_forgotten s \<and> noticed s"

lemma progressing_set_levels:
  assumes "progressing n s"
  shows "snd (set_run_level os name s) = Done \<Longrightarrow> progressing n (fst (set_run_level os name s))"
    "snd (set_empty_run_level os s) = Done \<Longrightarrow> progressing n (fst (set_empty_run_level os s))"
proof -
  have full: "full_inv n s" and settled: "all_settled s"
    using assms by (auto simp: progressing_def no_one_forgotten_def)
  have inv: "initd_inv n s" using full by (simp add: full_inv_def)
  have core: "core_inv n s" using inv by (simp add: initd_inv_core)
  show "progressing n (fst (set_run_level os name s))" if ok: "snd (set_run_level os name s) = Done"
  proof -
    obtain rs where rs: "mm_find (st_run_levels s) name = Some rs"
      using ok by (auto simp: set_run_level_def split: option.splits)
    then have "\<forall>r \<in> set rs. r < n"
      using find_level_in_range [OF initd_invD(2) [OF inv]] initd_invD(3) [OF inv] by simp
    then have "noticed (fst (set_run_level os name s))"
      using ok rs set_level_noticed [OF core] by (simp add: set_run_level_retargeted)
    then show ?thesis
      using full_inv_set_levels(1) [OF full] set_run_level_no_one_forgotten [OF inv settled ok]
      by (simp add: progressing_def)
  qed
  show "progressing n (fst (set_empty_run_level os s))" if ok: "snd (set_empty_run_level os s) = Done"
    using ok full_inv_set_levels(2) [OF full] set_empty_run_level_no_one_forgotten [OF inv settled ok]
      set_level_noticed [OF core, of "[]"]
    by (simp add: progressing_def set_run_level_retargeted(2))
qed

lemma progressing_task_completed:
  assumes "progressing n s" "i < n" "snd (task_completed os i s) = Done"
  shows "progressing n (fst (task_completed os i s))"
proof -
  have "initd_inv n s" using assms(1) by (simp add: progressing_def full_inv_def)
  with assms show ?thesis
    by (simp add: progressing_def full_inv_task_completed task_completed_no_one_forgotten
        task_completed_noticed)
qed

lemma progressing_world [simp]:
  "progressing n (s\<lparr>st_env := (st_env s)\<lparr>env_world := w\<rparr>\<rparr>) = progressing n s"
  by (simp add: progressing_def no_one_forgotten_def noticed_def all_settled_def)

lemma progressing_reap_children:
  assumes "reap_children os s = Some r" "progressing n s" "snd r = Done"
  shows "progressing n (fst r)"
proof -
  have "snd r = Done \<longrightarrow> progressing n (fst r)"
  proof (rule reap_children_rule [OF assms(1), where R = "\<lambda>r. snd r = Done \<longrightarrow> progressing n (fst r)"])
    fix s :: "'a initd_state" and p w i
    assume s: "snd (s, Done) = Done \<longrightarrow> progressing n (fst (s, Done))"
      and "env_handlers (st_env s) p = Some i"
    then have "i < n" by (auto simp: progressing_def full_inv_def handlers_in_range_def)
    with s show "snd (task_completed os i (s\<lparr>st_env := (st_env s)\<lparr>env_world := w\<rparr>\<rparr>)) = Done \<longrightarrow>
        progressing n (fst (task_completed os i (s\<lparr>st_env := (st_env s)\<lparr>env_world := w\<rparr>\<rparr>)))"
      by (simp add: progressing_task_completed)
  qed (use assms(2) in simp_all)
  with assms(3) show ?thesis by blast
qed

interpretation prog: loop_invariant os nature tds "\<lambda>r. r = Done"
    "\<lambda>s. descriptions_ok tds \<longrightarrow> progressing (length (all_tasks tds)) s"
  for os :: "'w os" and nature tds
proof unfold_locales
  fix e :: "'w env"
  assume e: "env_handlers e = (\<lambda>_. None)"
  show "descriptions_ok tds \<longrightarrow>
      progressing (length (all_tasks tds)) (fst (initd_state_construct tds e))"
    using initd_state_construct_inv [of tds e] initd_state_construct_no_one_forgotten [of tds e] e
    by (auto simp: descriptions_ok_def progressing_def full_inv_def handlers_in_range_def announced_noticed)
       (simp add: initd_state_construct_eq)
next
  fix s :: "'w initd_state" and s' r
  assume "descriptions_ok tds \<longrightarrow> progressing (length (all_tasks tds)) s"
    "reap_children os s = Some (s', r)" "r = Done"
  then show "descriptions_ok tds \<longrightarrow> progressing (length (all_tasks tds)) s'"
    using progressing_reap_children [of os s "(s', r)"] by auto
next
  fix s :: "'w initd_state" and i
  assume "descriptions_ok tds \<longrightarrow> progressing (length (all_tasks tds)) s" "queue_ready i s"
    "snd (task_completed os i s) = Done"
  then show "descriptions_ok tds \<longrightarrow> progressing (length (all_tasks tds)) (fst (task_completed os i s))"
    using progressing_task_completed [of "length (all_tasks tds)" s i os]
      queue_ready_range [of i s "length (all_tasks tds)"]
    by (auto simp: progressing_def)
qed (simp_all add: progressing_set_levels)

lemma runs_progressing:
  assumes "runs os nature tds rs c" "descriptions_ok tds" "all_done rs"
  shows "progressing (length (all_tasks tds)) (ctx_state c)"
  using prog.P_runs [OF assms(1)] assms(2,3) by (simp add: all_done_def)

text \<open>The book-keeping of children, on a system with a process table.\<close>

definition keeps_live :: "('w \<Rightarrow> nat set) \<Rightarrow> ('w \<Rightarrow> 'w \<Rightarrow> bool) \<Rightarrow> bool" where
  "keeps_live live nature \<longleftrightarrow> (\<forall>w w'. nature w w' \<longrightarrow> live w' = live w)"

definition accounted :: "('w \<Rightarrow> nat set) \<Rightarrow> nat \<Rightarrow> 'w initd_state \<Rightarrow> bool" where
  "accounted live n s \<longleftrightarrow> full_inv n s \<and> processes_inv live s"

lemma retargeted_env [simp]: "st_env (retargeted rs s) = st_env s"
proof -
  have "st_env (foldl (\<lambda>s i. task_sync i s) s' xs) = st_env s'" for s' :: "'a initd_state" and xs
    by (induction xs arbitrary: s') simp_all
  then show ?thesis by (simp add: retargeted_def sync_all_def)
qed

lemma accounted_set_levels:
  assumes pt: "process_table os live" and acc: "accounted live n s"
  shows "accounted live n (fst (set_run_level os name s))" "\<not> aborted (set_run_level os name s)"
    "accounted live n (fst (set_empty_run_level os s))" "\<not> aborted (set_empty_run_level os s)"
proof -
  have inv: "initd_inv n s" and full: "full_inv n s" and proc: "processes_inv live s"
    using acc by (auto simp: accounted_def full_inv_def)
  have core: "core_inv n s" using inv by (simp add: initd_inv_core)
  have all: "good_step live n (enqueue_all os (retargeted rs s))" if "\<forall>r \<in> set rs. r < n" for rs
    by (rule set_level_processes [OF pt core proc that])
       (use retargeted_fields [OF core that] in simp_all)
  have "good_step live n (set_run_level os name s)"
  proof (cases "mm_find (st_run_levels s) name")
    case None
    then show ?thesis
      using proc initd_invD(3) [OF inv] by (simp add: set_run_level_retargeted good_step_def)
  next
    case (Some rs)
    then have "\<forall>r \<in> set rs. r < n"
      using find_level_in_range [OF initd_invD(2) [OF inv]] initd_invD(3) [OF inv] by simp
    then show ?thesis using Some all by (simp add: set_run_level_retargeted)
  qed
  then show "accounted live n (fst (set_run_level os name s))" "\<not> aborted (set_run_level os name s)"
    using full_inv_set_levels [OF full] by (auto simp: accounted_def good_step_def)
  show "accounted live n (fst (set_empty_run_level os s))" "\<not> aborted (set_empty_run_level os s)"
    using full_inv_set_levels [OF full] all [of "[]"]
    by (auto simp: accounted_def good_step_def set_run_level_retargeted(2))
qed

lemma accounted_wake:
  assumes pt: "process_table os live" and acc: "accounted live n s" and ready: "queue_ready i s"
  shows "accounted live n (fst (task_completed os i s))" "\<not> aborted (task_completed os i s)"
proof -
  have full: "full_inv n s" and proc: "processes_inv live s"
    using acc by (auto simp: accounted_def)
  obtain a where a: "t_handle (st_tasks s ! i) = Sync_handle a" "fq_ready (sa_queue a)"
    using ready by (auto simp: queue_ready_def split: async_task_handle.splits)
  have "graph_wf (st_tasks s)" "i < length (st_tasks s)"
    using full ready by (auto simp: full_inv_def queue_ready_def dest: initd_invD sched_invD)
  then have "good_step live (length (st_tasks s)) (task_completed os i s)"
    using wake_processes [OF pt proc _ _ a] by simp
  then show "accounted live n (fst (task_completed os i s))" "\<not> aborted (task_completed os i s)"
    using full_inv_task_completed [OF full queue_ready_range [OF ready full]]
    by (auto simp: accounted_def good_step_def)
qed

lemma accounted_reap:
  assumes pt: "process_table os live" and acc: "accounted live n s" and r: "reap_children os s = Some r"
  shows "accounted live n (fst r)" "\<not> aborted r"
  using reap_children_processes [OF r pt, of n] full_inv_reap_children [OF r, of n] acc
  by (auto simp: accounted_def good_step_def)

interpretation acct: loop_invariant os nature tds "\<lambda>_. True"
    "\<lambda>s. descriptions_ok tds \<and> process_table os live \<and> keeps_live live nature \<longrightarrow>
       accounted live (length (all_tasks tds)) s"
  for os :: "'w os" and nature tds live
proof unfold_locales
  fix e :: "'w env"
  assume e: "env_handlers e = (\<lambda>_. None)"
  then have "full_inv (length (all_tasks tds)) (fst (initd_state_construct tds e))"
    if "descriptions_ok tds"
    using safe.P_construct [of tds e] initd_state_construct_eq [of tds e] that
    by (simp add: descriptions_ok_def)
  then show "descriptions_ok tds \<and> process_table os live \<and> keeps_live live nature \<longrightarrow>
      accounted live (length (all_tasks tds)) (fst (initd_state_construct tds e))"
    using initd_state_construct_processes [of tds e live] e
    by (auto simp: descriptions_ok_def accounted_def)
next
  fix s :: "'w initd_state" and w
  assume "descriptions_ok tds \<and> process_table os live \<and> keeps_live live nature \<longrightarrow>
      accounted live (length (all_tasks tds)) s" "nature (env_world (st_env s)) w"
  then show "descriptions_ok tds \<and> process_table os live \<and> keeps_live live nature \<longrightarrow>
      accounted live (length (all_tasks tds)) (s\<lparr>st_env := (st_env s)\<lparr>env_world := w\<rparr>\<rparr>)"
    by (auto simp: accounted_def processes_inv_def keeps_live_def all_live_def)
qed (auto dest: accounted_reap(1) intro: accounted_set_levels accounted_wake(1))

lemma runs_accounted:
  assumes "runs os nature tds rs c" "descriptions_ok tds" "process_table os live" "keeps_live live nature"
  shows "accounted live (length (all_tasks tds)) (ctx_state c)"
  using acct.P_runs [OF assms(1), of live] assms(2-) by simp

lemma aborted_on_state [simp]: "aborted (on_state f c) = aborted (f (ctx_state c))"
  by (auto simp: on_state_def aborted_def split: prod.splits)

lemma step_not_aborted:
  assumes "step os nature r c c'" "accounted live n (ctx_state c)" "process_table os live"
  shows "\<not> aborted (c', r)"
  using assms(1)
proof cases
  case (round ev)
  show ?thesis
  proof (cases ev)
    case (Wake_up i)
    then have "queue_ready i (ctx_state c)" and eq: "(c', r) = on_state (task_completed os i) c"
      using round by (auto split: if_splits)
    then show ?thesis
      using accounted_wake(2) [OF assms(3,2)] unfolding eq by simp
  next
    case Child_exit
    then obtain s where "reap_children os (ctx_state c) = Some (s, r)"
      using round by auto
    then show ?thesis
      using accounted_reap(2) [OF assms(3,2)] by (simp add: aborted_def)
  next
    case Termination_signal
    then have eq: "(c', r) = reboot os c" using round by simp
    show ?thesis
      using accounted_set_levels(4) [OF assms(3,2)] unfolding eq by (simp add: reboot_def)
  next
    case (Control m)
    then have eq: "(c', r) = execute os m c" using round by simp
    show ?thesis
      using accounted_set_levels(2,4) [OF assms(3,2)] unfolding eq
      by (cases m) (simp_all add: reboot_def power_off_def set_runlevel_def)
  qed
qed simp

text \<open>Targets and marks: once the computer is to go down, nothing is marked.\<close>

lemma frame_of_reap:
  assumes "reap_children os s = Some r" "full_inv n s" "static f"
  shows "frame_of f (fst r) = frame_of f s"
proof -
  let ?R = "\<lambda>r. full_inv n (fst r) \<and> frame_of f (fst r) = frame_of f s"
  have "?R r"
  proof (rule reap_children_rule [OF assms(1), where R = ?R])
    fix t :: "'a initd_state" and p w i
    assume t: "?R (t, Done)" and "env_handlers (st_env t) p = Some i"
    then have "i < n" by (auto simp: full_inv_def handlers_in_range_def)
    moreover have "length (st_tasks t) = n" using t by (simp add: full_inv_length)
    ultimately show "?R (task_completed os i (t\<lparr>st_env := (st_env t)\<lparr>env_world := w\<rparr>\<rparr>))"
      using assms(3) t by (simp add: full_inv_task_completed frame_of_task_completed)
  qed (use assms(2) in simp_all)
  then show ?thesis by blast
qed

lemma marks_of_level:
  assumes inv: "initd_inv n s" and rs: "mm_find (st_run_levels s) name = Some rs"
  shows "marks_of (fst (set_run_level os name s)) = level_marks rs s"
proof -
  have "\<forall>r \<in> set rs. r < n"
    using find_level_in_range [OF initd_invD(2) [OF inv] rs] initd_invD(3) [OF inv] by simp
  moreover have "core_inv n s" using inv by (simp add: initd_inv_core)
  ultimately show ?thesis
    by (simp add: set_run_level_retargeted rs marks_of_enqueue_all)
qed

lemma marks_of_empty:
  assumes "initd_inv n s"
  shows "marks_of (fst (set_empty_run_level os s)) = replicate n False"
proof -
  have "core_inv n s" using assms by (simp add: initd_inv_core)
  then show ?thesis
    using marks_of_enqueue_all [of n s "[]" os] initd_invD(3) [OF assms]
    by (simp add: set_run_level_retargeted(2) level_marks_Nil)
qed

lemma step_target_marks:
  assumes "step os nature r c c'" "full_inv n (ctx_state c)"
    and "ctx_target c \<noteq> Target_running \<longrightarrow> marks_of (ctx_state c) = replicate n False"
  shows "ctx_target c' \<noteq> Target_running \<longrightarrow> marks_of (ctx_state c') = replicate n False"
  using assms(1)
proof cases
  case (round ev)
  note len = full_inv_length [OF assms(2)]
  have inv: "initd_inv n (ctx_state c)" using assms(2) by (simp add: full_inv_def)
  show ?thesis
  proof (cases ev)
    case (Wake_up i)
    then show ?thesis
      using round assms(3) frame_of_task_completed [of t_should_work i "ctx_state c" os]
      by (auto simp: on_state_def queue_ready_def split: if_splits prod.splits)
  next
    case Child_exit
    then show ?thesis
      using round assms(3) frame_of_reap [OF _ assms(2), of os _ t_should_work] by auto
  next
    case Termination_signal
    then show ?thesis
      using round marks_of_empty [OF inv, of os] by (auto simp: reboot_def on_state_def split: prod.splits)
  next
    case (Control m)
    then show ?thesis
      using round marks_of_empty [OF inv, of os]
      by (cases m) (auto simp: reboot_def power_off_def set_runlevel_def on_state_def split: prod.splits)
  qed
qed (use assms in simp)

lemma runs_target_marks:
  "runs os nature tds rs c \<Longrightarrow> descriptions_ok tds \<Longrightarrow>
   ctx_target c \<noteq> Target_running \<longrightarrow> marks_of (ctx_state c) = replicate (length (all_tasks tds)) False"
proof (induction rule: runs.induct)
  case (constructed w c)
  then show ?case
    by (auto simp: context_construct_def on_state_def and_then_def split: prod.splits if_splits)
next
  case (stepped rs c r c')
  then show ?case using step_target_marks runs_full_inv by blast
qed

text \<open>The dependencies never change: they are those of the descriptions.\<close>

lemma dependencies_of_levels:
  assumes inv: "initd_inv n s"
  shows "dependencies_of (fst (set_run_level os name s)) = dependencies_of s"
    "dependencies_of (fst (set_empty_run_level os s)) = dependencies_of s"
proof -
  have core: "core_inv n s" using inv by (simp add: initd_inv_core)
  have all: "dependencies_of (fst (enqueue_all os (retargeted rs s))) = dependencies_of s"
    if "\<forall>r \<in> set rs. r < n" for rs
    using retargeted_fields [OF core that] core_invD(5) [OF core]
    by (simp add: enqueue_all_def) (intro frame_of_eqI, simp_all)
  show "dependencies_of (fst (set_run_level os name s)) = dependencies_of s"
    using all find_level_in_range [OF initd_invD(2) [OF inv]] initd_invD(3) [OF inv]
    by (auto simp: set_run_level_retargeted split: option.splits)
  show "dependencies_of (fst (set_empty_run_level os s)) = dependencies_of s"
    using all [of "[]"] by (simp add: set_run_level_retargeted(2))
qed

definition edges_kept :: "task_descriptions \<Rightarrow> 'w initd_state \<Rightarrow> bool" where
  "edges_kept tds s \<longleftrightarrow> full_inv (length (all_tasks tds)) s \<and>
     dependencies_of s = map td_dependencies (all_tasks tds)"

lemma edges_kept_levels:
  assumes "edges_kept tds s"
  shows "edges_kept tds (fst (set_run_level os name s))" "edges_kept tds (fst (set_empty_run_level os s))"
proof -
  have full: "full_inv (length (all_tasks tds)) s" and inv: "initd_inv (length (all_tasks tds)) s"
    using assms by (auto simp: edges_kept_def full_inv_def)
  show "edges_kept tds (fst (set_run_level os name s))" "edges_kept tds (fst (set_empty_run_level os s))"
    using assms full_inv_set_levels [OF full] dependencies_of_levels [OF inv, of os]
    by (simp_all add: edges_kept_def)
qed

interpretation edges: loop_invariant os nature tds "\<lambda>_. True"
    "\<lambda>s. descriptions_ok tds \<longrightarrow> edges_kept tds s"
  for os :: "'w os" and nature tds
proof unfold_locales
  fix e :: "'w env"
  assume e: "env_handlers e = (\<lambda>_. None)" "snd (initd_state_construct tds e) = Done"
  show "descriptions_ok tds \<longrightarrow> edges_kept tds (fst (initd_state_construct tds e))"
  proof
    let ?s = "fst (initd_state_construct tds e)"
    assume ok: "descriptions_ok tds"
    then have full: "full_inv (length (all_tasks tds)) ?s"
      using safe.P_construct [OF e(2,1)] by simp
    note len = full_inv_length [OF full]
    have "t_dependencies (st_tasks ?s ! j) = td_dependencies (all_tasks tds ! j)"
      if "j < length (all_tasks tds)" for j
      using initd_state_construct_dependencies [of tds j e] that ok by (simp add: descriptions_ok_def)
    then have "dependencies_of ?s = map td_dependencies (all_tasks tds)"
      by (intro nth_equalityI) (simp_all add: len)
    with full show "edges_kept tds ?s" by (simp add: edges_kept_def)
  qed
next
  fix s :: "'w initd_state" and i
  assume "descriptions_ok tds \<longrightarrow> edges_kept tds s" "queue_ready i s"
  then show "descriptions_ok tds \<longrightarrow> edges_kept tds (fst (task_completed os i s))"
    using queue_ready_range [of i s "length (all_tasks tds)"] frame_of_task_completed [of t_dependencies i s os]
      full_inv_length [of "length (all_tasks tds)" s]
    by (auto simp: edges_kept_def full_inv_task_completed)
next
  fix s :: "'w initd_state" and s' r
  assume "descriptions_ok tds \<longrightarrow> edges_kept tds s" "reap_children os s = Some (s', r)"
  then show "descriptions_ok tds \<longrightarrow> edges_kept tds s'"
    using frame_of_reap [of os s "(s', r)" _ t_dependencies] full_inv_reap_children [of os s "(s', r)"]
    by (auto simp: edges_kept_def)
next
  fix s :: "'w initd_state" and name
  assume "descriptions_ok tds \<longrightarrow> edges_kept tds s"
  then show "descriptions_ok tds \<longrightarrow> edges_kept tds (fst (set_run_level os name s))"
    "descriptions_ok tds \<longrightarrow> edges_kept tds (fst (set_empty_run_level os s))"
    by (auto intro: edges_kept_levels)
qed (simp_all add: edges_kept_def)

lemma runs_dependencies:
  assumes "runs os nature tds rs c" "descriptions_ok tds" "i < length (all_tasks tds)"
  shows "t_dependencies (st_tasks (ctx_state c) ! i) = td_dependencies (all_tasks tds ! i)"
proof -
  have "edges_kept tds (ctx_state c)"
    using edges.P_runs [OF assms(1)] assms(2) by simp
  then have "dependencies_of (ctx_state c) ! i = map td_dependencies (all_tasks tds) ! i"
    by (simp add: edges_kept_def)
  then show ?thesis
    using assms(3) runs_sched_inv(3) [OF assms(1,2)] by simp
qed

lemma down_when_inactive:
  assumes "runs os nature tds rs c" "descriptions_ok tds" "\<not> is_active c" "i < length (all_tasks tds)"
  shows "\<not> t_active (st_tasks (ctx_state c) ! i)"
proof -
  note R = runs_sched_inv [OF assms(1,2)]
  have "marks_of (ctx_state c) = replicate (length (all_tasks tds)) False"
    using runs_target_marks [OF assms(1,2)] assms(3) by (simp add: is_active_def)
  then have "\<not> t_should_work (st_tasks (ctx_state c) ! i)"
    using nth_frame_of [of i "ctx_state c" t_should_work] assms(4) R(3) by simp
  moreover have "\<not> t_pending (st_tasks (ctx_state c) ! i)"
    using assms(3,4) R(3) sched_invD(5) [OF R(2), of i]
      has_pending_operations_iff [OF sched_invD(1,2) [OF R(2)]]
    by (auto simp: is_active_def told_def)
  ultimately show ?thesis by (simp add: t_pending_def t_active_def)
qed

text \<open>Whatever is active has its dependencies up.\<close>

lemma runs_dependencies_up:
  assumes "runs os nature tds rs c" "descriptions_ok tds" "i < length (all_tasks tds)"
    and "is_running i (ctx_state c) \<or> is_in_transition i (ctx_state c)"
    and "d \<in> set (td_dependencies (all_tasks tds ! i))"
  shows "t_up (st_tasks (ctx_state c) ! d)"
proof -
  have "t_active (st_tasks (ctx_state c) ! i)"
    using assms(4) by (simp add: task_views)
  then show ?thesis
    using sched_invD(4) [OF runs_sched_inv(2) [OF assms(1,2)]] runs_sched_inv(3) [OF assms(1,2)]
      runs_dependencies [OF assms(1-3)] assms(3,5) by (auto simp: ordered_def)
qed

end
