(* ===== verification/Scheduler_Refinement.thy ===== *)
theory Scheduler_Refinement
  imports Init_Loop
begin

text \<open>
  What the scheduler promises, as a transition system of its own: each task is in one of four
  phases, which it goes through in a circle; it leaves \<open>Stopped\<close> only while everything it
  needs is running, and \<open>Running\<close> only while everything that needs it is stopped. The event
  loop, with its counters, flags, queues and children, is shown to implement it.
\<close>

section \<open>The abstract scheduler\<close>

datatype phase = Stopped | Starting | Running | Stopping

inductive move :: "nat list list \<Rightarrow> phase list \<Rightarrow> phase list \<Rightarrow> bool" for needs where
  begin_start: "move needs ph (ph[i := Starting])"
    if "i < length ph" "ph ! i = Stopped" "\<forall>d \<in> set (needs ! i). ph ! d = Running"
| end_start: "move needs ph (ph[i := Running])" if "i < length ph" "ph ! i = Starting"
| begin_stop: "move needs ph (ph[i := Stopping])"
    if "i < length ph" "ph ! i = Running"
      "\<forall>u < length ph. i \<in> set (needs ! u) \<longrightarrow> ph ! u = Stopped"
| end_stop: "move needs ph (ph[i := Stopped])" if "i < length ph" "ph ! i = Stopping"

inductive_cases moveE: "move needs ph ph'"

abbreviation moves :: "nat list list \<Rightarrow> phase list \<Rightarrow> phase list \<Rightarrow> bool" where
  "moves needs \<equiv> (move needs)\<^sup>*\<^sup>*"

text \<open>What the abstract system guarantees by itself.\<close>

definition orderly :: "nat list list \<Rightarrow> phase list \<Rightarrow> bool" where
  "orderly needs ph \<longleftrightarrow>
     (\<forall>i < length ph. ph ! i \<noteq> Stopped \<longrightarrow> (\<forall>d \<in> set (needs ! i). ph ! d = Running))"

lemma move_length: "move needs ph ph' \<Longrightarrow> length ph' = length ph"
  by (auto elim: moveE)

lemma orderly_update:
  assumes ord: "orderly needs ph"
    and start: "q \<noteq> Stopped \<Longrightarrow> i \<notin> set (needs ! i) \<and> (\<forall>d \<in> set (needs ! i). ph ! d = Running)"
    and stop: "q \<noteq> Running \<Longrightarrow> \<forall>u < length ph. i \<in> set (needs ! u) \<longrightarrow> u = i \<or> ph ! u = Stopped"
  shows "orderly needs (ph[i := q])"
  unfolding orderly_def
proof (intro allI impI ballI)
  fix j d
  assume j: "j < length (ph[i := q])" "ph[i := q] ! j \<noteq> Stopped" and d: "d \<in> set (needs ! j)"
  show "ph[i := q] ! d = Running"
  proof (cases "j = i")
    case True
    then have "q \<noteq> Stopped" using j by simp
    then show ?thesis using start d True by (metis nth_list_update_neq)
  next
    case False
    then have "ph ! d = Running" "ph ! j \<noteq> Stopped" using ord j d by (auto simp: orderly_def)
    then show ?thesis
      using stop False j(1) d by (cases "d = i"; cases "q = Running") (auto simp: nth_list_update_if)
  qed
qed

lemma orderlyD:
  assumes "orderly needs ph"
  shows "i < length ph \<Longrightarrow> ph ! i \<noteq> Stopped \<Longrightarrow> \<forall>d \<in> set (needs ! i). ph ! d = Running"
    "ph ! i \<noteq> Running \<Longrightarrow> \<forall>u < length ph. i \<in> set (needs ! u) \<longrightarrow> ph ! u = Stopped"
  using assms by (auto simp: orderly_def)

lemma move_orderly:
  assumes "move needs ph ph'" and ord: "orderly needs ph"
  shows "orderly needs ph'"
  using assms(1)
proof cases
  case (begin_start i)
  then have "i \<notin> set (needs ! i)" by auto
  with begin_start orderlyD(2) [OF ord, of i] show ?thesis
    unfolding begin_start(1) by (intro orderly_update [OF ord]) simp_all
next
  case (end_start i)
  then have "\<forall>d \<in> set (needs ! i). ph ! d = Running" "i \<notin> set (needs ! i)"
    using orderlyD(1) [OF ord, of i] by auto
  then show ?thesis
    unfolding end_start(1) by (intro orderly_update [OF ord]) simp_all
next
  case (begin_stop i)
  then have "\<forall>d \<in> set (needs ! i). ph ! d = Running" "i \<notin> set (needs ! i)"
    using orderlyD(1) [OF ord, of i] by auto
  with begin_stop show ?thesis
    unfolding begin_stop(1) by (intro orderly_update [OF ord]) simp_all
next
  case (end_stop i)
  with orderlyD(2) [OF ord, of i] show ?thesis
    unfolding end_stop(1) by (intro orderly_update [OF ord]) simp_all
qed

lemma moves_orderly: "moves needs ph ph' \<Longrightarrow> orderly needs ph \<Longrightarrow> orderly needs ph'"
  by (induction rule: rtranclp_induct) (auto intro: move_orderly)

lemma orderly_stopped: "orderly needs (replicate n Stopped)"
  by (simp add: orderly_def)

section \<open>Phases of the tasks\<close>

definition h_phase :: "async_task_handle \<Rightarrow> phase" where
  "h_phase h =
     (if h_is_running h then (if h_is_in_transition h then Stopping else Running)
      else (if h_is_in_transition h then Starting else Stopped))"

definition phases :: "'w initd_state \<Rightarrow> phase list" where
  "phases s = map (\<lambda>t. h_phase (t_handle t)) (st_tasks s)"

lemma phases_fields [simp]:
  "length (phases s) = length (st_tasks s)"
  "j < length (st_tasks s) \<Longrightarrow> phases s ! j = h_phase (t_handle (st_tasks s ! j))"
  by (simp_all add: phases_def)

lemma phase_views:
  "h_phase (t_handle t) = Running \<longleftrightarrow> t_up t"
  "h_phase (t_handle t) = Stopped \<longleftrightarrow> \<not> t_active t"
  by (auto simp: h_phase_def task_views)

lemma phases_cong:
  assumes "length (st_tasks s') = length (st_tasks s)"
    and "\<And>j. j < length (st_tasks s) \<Longrightarrow> t_handle (st_tasks s' ! j) = t_handle (st_tasks s ! j)"
  shows "phases s' = phases s"
  using assms by (intro nth_equalityI) simp_all

lemma phases_env [simp]: "phases (s\<lparr>st_env := e\<rparr>) = phases s"
  by (simp add: phases_def)

lemma phases_sync: "i < length (st_tasks s) \<Longrightarrow> phases (task_sync i s) = phases s"
  by (rule phases_cong) (simp_all add: task_sync_facts)

lemma phases_call:
  "i < length (st_tasks s) \<Longrightarrow> phases (fst (call_handle f i s)) =
     (phases s)[i := h_phase (fst (fst (f (t_handle (st_tasks s ! i)) (st_env s))))]"
  by (rule nth_equalityI) (auto simp: nth_call_handle nth_list_update_if)

section \<open>Handles turn in the circle\<close>

fun next_phase :: "phase \<Rightarrow> phase" where
  "next_phase Stopped = Starting"
| "next_phase Starting = Running"
| "next_phase Running = Stopping"
| "next_phase Stopping = Stopped"

text \<open>At most two phases at a time: a job that ends, and the opposite one that begins.\<close>

definition turns :: "phase \<Rightarrow> phase \<Rightarrow> bool" where
  "turns p q \<longleftrightarrow> q = p \<or> q = next_phase p \<or> q = next_phase (next_phase p)"

lemma set_should_work_turns:
  "turns (h_phase h) (h_phase (fst (fst (h_set_should_work os i b h e))))"
proof (cases h)
  case (Sync_handle a)
  then show ?thesis
    by (cases b; cases "sa_running a") (simp_all add: h_phase_def turns_def)
next
  case (Start_stop_handle t)
  then show ?thesis
    by (auto simp: h_phase_def turns_def ss_set_should_work_def ss_enqueue_job_def ss_is_in_transition_def
        ss_launch_def split: prod.splits sum.splits)
qed

lemma ss_enqueue_job_turns:
  assumes "ss_current_operation h = None"
  shows "h_phase (Start_stop_handle (fst (fst (ss_enqueue_job os i h e)))) \<in>
    {h_phase (Start_stop_handle h), next_phase (h_phase (Start_stop_handle h))}"
  using assms
  by (auto simp: h_phase_def ss_enqueue_job_def ss_is_in_transition_def
      ss_launch_def split: prod.splits sum.splits)

lemma complete_turns: "turns (h_phase h) (h_phase (fst (fst (h_complete os i h e))))"
proof (cases h)
  case (Sync_handle a)
  then show ?thesis by (simp add: h_phase_def turns_def)
next
  case (Start_stop_handle t)
  show ?thesis
  proof (cases "\<exists>pid op e'. ss_current_operation t = Some (pid, op) \<and> ss_running t \<noteq> (op = Start_operation) \<and>
      sigchild_remove pid e = (e', Done)")
    case True
    then obtain pid op e' where op: "ss_current_operation t = Some (pid, op)"
        "ss_running t \<noteq> (op = Start_operation)" "sigchild_remove pid e = (e', Done)"
      by blast
    let ?t = "t\<lparr>ss_running := (op = Start_operation), ss_current_operation := None\<rparr>"
    have "h_phase (Start_stop_handle ?t) = next_phase (h_phase h)"
      using op Start_stop_handle by (auto simp: h_phase_def ss_is_in_transition_def)
    moreover have "fst (fst (h_complete os i h e)) = Start_stop_handle (fst (fst (ss_enqueue_job os i ?t e')))"
      using op Start_stop_handle by (simp add: ss_operation_finished_def)
    ultimately show ?thesis
      using ss_enqueue_job_turns [of ?t os i e'] by (auto simp: turns_def)
  next
    case False
    then show ?thesis
      using Start_stop_handle
      by (auto simp: h_phase_def ss_operation_finished_def turns_def ss_is_in_transition_def
          sigchild_remove_def and_then_def split: option.splits)
  qed
qed

text \<open>A task that is free to change can turn in the abstract system.\<close>

lemma free_moves:
  assumes i: "i < length ph" and needs: "\<forall>d \<in> set (needs ! i). d \<noteq> i \<and> ph ! d = Running"
    and needed: "\<forall>u < length ph. i \<in> set (needs ! u) \<longrightarrow> ph ! u = Stopped"
    and self: "i \<notin> set (needs ! i)" and t: "turns (ph ! i) q"
  shows "moves needs ph (ph[i := q])"
proof -
  have turn: "move needs (ph[i := p]) (ph[i := next_phase p])" for p
  proof -
    have "i < length (ph[i := p])" "ph[i := p] ! i = p"
      "\<forall>d \<in> set (needs ! i). ph[i := p] ! d = Running"
      "\<forall>u < length (ph[i := p]). i \<in> set (needs ! u) \<longrightarrow> ph[i := p] ! u = Stopped"
      using i needs needed self by (auto simp: nth_list_update_if)
    from move.intros [of i "ph[i := p]" needs, OF this(1)] this show ?thesis
      by (cases p) simp_all
  qed
  have "moves needs ph (ph[i := ph ! i])" by simp
  moreover have "moves needs ph (ph[i := next_phase (ph ! i)])"
    using turn [of "ph ! i"] by (simp add: r_into_rtranclp)
  moreover have "moves needs ph (ph[i := next_phase (next_phase (ph ! i))])"
    using calculation(2) turn by (rule rtranclp.rtrancl_into_rtrancl)
  ultimately show ?thesis using t by (auto simp: turns_def)
qed

section \<open>The simulation\<close>

text \<open>The state \<open>s\<close> is reached by moves from the phases \<open>a\<close>.\<close>

definition follows :: "nat list list \<Rightarrow> phase list \<Rightarrow> 'w initd_state \<Rightarrow> bool" where
  "follows needs a s \<longleftrightarrow>
     initd_inv (length needs) s \<and> dependencies_of s = needs \<and> moves needs a (phases s)"

lemma followsD:
  assumes "follows needs a s"
  shows "initd_inv (length needs) s" "sched_inv s" "length (st_tasks s) = length needs"
    "dependencies_of s = needs" "moves needs a (phases s)" "graph_wf (st_tasks s)"
    "i < length needs \<Longrightarrow> t_dependencies (st_tasks s ! i) = needs ! i"
  using assms unfolding follows_def
  by (auto dest: initd_invD sched_invD)

lemma follows_same_phases:
  assumes "follows needs a s" "initd_inv (length needs) s'"
    and "dependencies_of s' = dependencies_of s" "phases s' = phases s"
  shows "follows needs a s'"
  using assms by (simp add: follows_def)

lemma follows_call:
  assumes fol: "follows needs a s" and i: "i < length needs" and free: "free_to_change i s"
    and inv: "sched_inv (fst (call_handle f i s))"
    and t: "turns (h_phase (t_handle (st_tasks s ! i)))
      (h_phase (fst (fst (f (t_handle (st_tasks s ! i)) (st_env s)))))"
  shows "follows needs a (fst (call_handle f i s))"
proof -
  note F = followsD [OF fol]
  have "d < length needs" if "d \<in> set (needs ! i)" for d
    using graph_wfD(1) [OF F(6)] F(3) F(7) [OF i] i that by metis
  then have "moves needs (phases s)
      ((phases s)[i := h_phase (fst (fst (f (t_handle (st_tasks s ! i)) (st_env s))))])"
    using i F(3,7) free t
    by (intro free_moves) (auto simp: free_to_change_def phase_views)
  then have "moves needs a (phases (fst (call_handle f i s)))"
    using F(3,5) i by (simp add: phases_call)
  moreover have "initd_inv (length needs) (fst (call_handle f i s))"
    using inv F(1) by (simp add: initd_inv_def)
  ultimately show ?thesis using F(4) by (simp add: follows_def)
qed

lemma follows_enqueue_this:
  assumes "follows needs a s" and i: "i < length needs"
  shows "follows needs a (fst (enqueue_this os i s))"
  unfolding enqueue_this_def
proof (rule and_then_inv)
  note F = followsD [OF assms(1)]
  show "follows needs a (fst (if (\<not> is_running i s \<or> is_in_transition i s) \<and>
      t_should_work (st_tasks s ! i) \<and> are_dependencies_running i s
      then call_handle (h_set_should_work os i True) i s else (s, Done)))"
    using assms F start_free [of s i] start_sched_inv [of s i]
    by (auto simp: task_views intro!: follows_call set_should_work_turns)
next
  fix s :: "'a initd_state"
  assume fol: "follows needs a s"
  note F = followsD [OF fol]
  show "follows needs a (fst (if (is_running i s \<or> is_in_transition i s) \<and>
      \<not> t_should_work (st_tasks s ! i) \<and> are_dependants_stopped i s
      then call_handle (h_set_should_work os i False) i s else (s, Done)))"
    using i fol F stop_free [of s i] stop_sched_inv [of s i]
    by (auto simp: task_views intro!: follows_call set_should_work_turns)
qed

lemma follows_enqueue_tasks:
  assumes "follows needs a s" and "\<forall>i \<in> set tts. i < length needs"
  shows "follows needs a (fst (enqueue_tasks os tts s))"
  unfolding enqueue_tasks_def
  by (rule for_each_inv) (use assms in \<open>auto intro: follows_enqueue_this\<close>)

lemma follows_retargeted:
  assumes fol: "follows needs a s" and rs: "\<forall>r \<in> set rs. r < length needs"
  shows "follows needs a (retargeted rs s)"
proof -
  note F = followsD [OF fol]
  have core: "core_inv (length needs) s" using F(1) by (simp add: initd_inv_core)
  show ?thesis
  proof (rule follows_same_phases [OF fol retargeted_inv(1) [OF core rs]])
    show "dependencies_of (retargeted rs s) = dependencies_of s"
      using retargeted_fields [OF core rs] F(3) by (intro frame_of_eqI) simp_all
    show "phases (retargeted rs s) = phases s"
      using retargeted_fields [OF core rs] F(3) by (intro phases_cong) simp_all
  qed
qed

lemma follows_enqueue_all:
  assumes "follows needs a s"
  shows "follows needs a (fst (enqueue_all os s))"
  unfolding enqueue_all_def
  by (rule follows_enqueue_tasks) (use assms followsD(3) [OF assms] in auto)

lemma follows_levels:
  assumes fol: "follows needs a s"
  shows "follows needs a (fst (set_run_level os name s))" "follows needs a (fst (set_empty_run_level os s))"
proof -
  show "follows needs a (fst (set_run_level os name s))"
  proof (cases "mm_find (st_run_levels s) name")
    case None
    then show ?thesis using fol by (simp add: set_run_level_retargeted)
  next
    case (Some rs)
    then have "\<forall>r \<in> set rs. r < length needs"
      using find_level_in_range initd_invD(2,3) [OF followsD(1) [OF fol]] by metis
    then show ?thesis
      using Some fol by (simp add: set_run_level_retargeted follows_retargeted follows_enqueue_all)
  qed
  show "follows needs a (fst (set_empty_run_level os s))"
    using fol by (simp add: set_run_level_retargeted(2) follows_retargeted follows_enqueue_all)
qed

lemma follows_complete:
  assumes fol: "follows needs a s" and i: "i < length needs"
  shows "follows needs a (fst (call_handle (h_complete os i) i s))"
proof (cases "is_in_transition i s")
  case True
  then show ?thesis
    using followsD [OF fol] i
    by (intro follows_call [OF fol i] transition_free transition_sched_inv complete_turns) auto
next
  case False
  then have "h_phase (fst (fst (h_complete os i (t_handle (st_tasks s ! i)) (st_env s)))) = phases s ! i"
    using h_complete_keeps_views [of "t_handle (st_tasks s ! i)" os i "st_env s"] followsD(3) [OF fol] i
    by (simp add: h_phase_def is_in_transition_def)
  then show ?thesis
    using followsD [OF fol] i
    by (intro follows_same_phases [OF fol] complete_inv) (simp_all add: phases_call list_update_same_conv)
qed

lemma follows_task_completed:
  assumes "follows needs a s" and i: "i < length needs"
  shows "follows needs a (fst (task_completed os i s))"
  unfolding task_completed_def
proof (rule and_then_inv)
  show "follows needs a (fst (call_handle (h_complete os i) i s))"
    using assms by (rule follows_complete)
next
  fix s :: "'a initd_state"
  assume fol: "follows needs a s"
  have sync: "follows needs a (task_sync i s)"
    using followsD [OF fol] i
    by (intro follows_same_phases [OF fol] sync_inv) (simp_all add: phases_sync frame_of_sync)
  note F = followsD [OF sync]
  have "\<forall>j \<in> set (t_dependants (st_tasks (task_sync i s) ! i)). j < length needs"
    "\<forall>j \<in> set (t_dependencies (st_tasks (task_sync i s) ! i)). j < length needs"
    using graph_wfD(1,2) [OF F(6), of i] F(3) i by auto
  with sync show "follows needs a (fst (current_state_changed os i s))"
    by (simp add: current_state_changed_def Let_def follows_enqueue_tasks)
qed

lemma follows_world [simp]:
  "follows needs a (s\<lparr>st_env := (st_env s)\<lparr>env_world := w\<rparr>\<rparr>) = follows needs a s"
  by (simp add: follows_def initd_inv_def sched_inv_def counters_exact_def levels_wf_def)

section \<open>The event loop\<close>

lemma follows_reap_children:
  assumes "reap_children os s = Some r" "follows needs a s" "full_inv (length needs) s"
  shows "follows needs a (fst r)"
proof -
  let ?R = "\<lambda>r. full_inv (length needs) (fst r) \<and> follows needs a (fst r)"
  have "?R r"
  proof (rule reap_children_rule [OF assms(1), where R = ?R])
    fix s :: "'a initd_state" and p w i
    assume s: "?R (s, Done)" and "env_handlers (st_env s) p = Some i"
    then have "i < length needs" by (auto simp: full_inv_def handlers_in_range_def)
    with s show "?R (task_completed os i (s\<lparr>st_env := (st_env s)\<lparr>env_world := w\<rparr>\<rparr>))"
      by (simp add: full_inv_task_completed follows_task_completed)
  qed (use assms in simp_all)
  then show ?thesis by blast
qed

abbreviation needs_of :: "task_descriptions \<Rightarrow> nat list list" where
  "needs_of tds \<equiv> map td_dependencies (all_tasks tds)"

interpretation sim: loop_step os nature "\<lambda>_. True"
    "\<lambda>s. full_inv (length needs) s \<and> follows needs a s"
  for os :: "'w os" and nature needs a
proof unfold_locales
  fix s :: "'w initd_state" and i
  assume "full_inv (length needs) s \<and> follows needs a s" "queue_ready i s"
  then show "full_inv (length needs) (fst (task_completed os i s)) \<and>
      follows needs a (fst (task_completed os i s))"
    using queue_ready_range [of i s "length needs"]
    by (auto simp: full_inv_task_completed follows_task_completed)
next
  fix s :: "'w initd_state" and s' r
  assume "full_inv (length needs) s \<and> follows needs a s" "reap_children os s = Some (s', r)"
  then show "full_inv (length needs) s' \<and> follows needs a s'"
    using full_inv_reap_children [of os s "(s', r)"] follows_reap_children [of os s "(s', r)"]
    by auto
qed (simp_all add: full_inv_set_levels follows_levels)

lemma follows_here:
  assumes "edges_kept tds s"
  shows "follows (needs_of tds) (phases s) s"
  using assms by (simp add: follows_def edges_kept_def full_inv_def)

lemma runs_edges_kept:
  "runs os nature tds rs c \<Longrightarrow> descriptions_ok tds \<Longrightarrow> edges_kept tds (ctx_state c)"
  using edges.P_runs by blast

text \<open>Every step of the loop is a sequence of moves.\<close>

lemma step_moves:
  assumes "runs os nature tds rs c" "descriptions_ok tds" "step os nature r c c'"
  shows "moves (needs_of tds) (phases (ctx_state c)) (phases (ctx_state c'))"
  using sim.P_step [OF assms(3), of "needs_of tds" "phases (ctx_state c)"]
    runs_full_inv [OF assms(1,2)] follows_here [OF runs_edges_kept [OF assms(1,2)]] followsD(5)
  by auto

text \<open>The loop starts with everything stopped.\<close>

lemma construct_phases:
  assumes "wf_descriptions tds"
  shows "phases (fst (initd_state_construct tds e)) = replicate (length (all_tasks tds)) Stopped"
  by (rule nth_equalityI)
     (simp_all add: initd_state_construct_eq [OF assms] edge_task_def task_handles_def new_task_def h_phase_def)

interpretation refine: loop_invariant os nature tds "\<lambda>_. True"
    "\<lambda>s. descriptions_ok tds \<longrightarrow> full_inv (length (needs_of tds)) s \<and>
       follows (needs_of tds) (replicate (length (all_tasks tds)) Stopped) s"
  for os :: "'w os" and nature tds
proof unfold_locales
  fix e :: "'w env"
  assume e: "snd (initd_state_construct tds e) = Done" "env_handlers e = (\<lambda>_. None)"
  have "edges_kept tds (fst (initd_state_construct tds e))" if "descriptions_ok tds"
    using edges.P_construct [OF e] that by simp
  then show "descriptions_ok tds \<longrightarrow> full_inv (length (needs_of tds)) (fst (initd_state_construct tds e)) \<and>
      follows (needs_of tds) (replicate (length (all_tasks tds)) Stopped) (fst (initd_state_construct tds e))"
    using follows_here [of tds "fst (initd_state_construct tds e)"]
    by (auto simp: construct_phases descriptions_ok_def edges_kept_def)
next
  fix s :: "'w initd_state" and i
  assume "descriptions_ok tds \<longrightarrow> full_inv (length (needs_of tds)) s \<and>
      follows (needs_of tds) (replicate (length (all_tasks tds)) Stopped) s" "queue_ready i s"
  then show "descriptions_ok tds \<longrightarrow> full_inv (length (needs_of tds)) (fst (task_completed os i s)) \<and>
      follows (needs_of tds) (replicate (length (all_tasks tds)) Stopped) (fst (task_completed os i s))"
    using sim.P_wake [of "needs_of tds"] by blast
next
  fix s :: "'w initd_state" and s' r
  assume "descriptions_ok tds \<longrightarrow> full_inv (length (needs_of tds)) s \<and>
      follows (needs_of tds) (replicate (length (all_tasks tds)) Stopped) s"
    "reap_children os s = Some (s', r)"
  then show "descriptions_ok tds \<longrightarrow> full_inv (length (needs_of tds)) s' \<and>
      follows (needs_of tds) (replicate (length (all_tasks tds)) Stopped) s'"
    using sim.P_reap [of "needs_of tds" _ _ os s' r] by blast
qed (simp_all add: full_inv_set_levels follows_levels)

lemma runs_moves:
  assumes "runs os nature tds rs c" "descriptions_ok tds"
  shows "moves (needs_of tds) (replicate (length (all_tasks tds)) Stopped) (phases (ctx_state c))"
  using refine.P_runs [OF assms(1)] assms(2) followsD(5) by blast

end
