(* ===== verification/Init_Control.thy ===== *)
theory Init_Control
  imports Init_Loop
begin

text \<open>
  The connections of the control socket (\<^verbatim>\<open>control_task.cpp\<close>): what a connection does
  with the bytes it receives, and what becomes of the connection itself. The connection
  belongs to the control task, which the command it executes may stop.
\<close>

section \<open>A connection\<close>

text \<open>
  The connections are owned by the task object of the control task: they exist as long as
  the object does.
\<close>

definition control_task_alive :: "nat \<Rightarrow> 'w initd_context \<Rightarrow> bool" where
  "control_task_alive i c \<longleftrightarrow>
     (case t_handle (st_tasks (ctx_state c) ! i) of
        Sync_handle a \<Rightarrow> (case sa_handle a of Some (Control_handle h) \<Rightarrow> True | _ \<Rightarrow> False)
      | Start_stop_handle h \<Rightarrow> False)"

text \<open>
  The reading callback of a connection of the control task \<open>i\<close>. The result holds the buffer
  of the connection, or none if the connection was dropped. After the command the callback
  clears its buffer, or calls \<^verbatim>\<open>on_disconnect\<close> if the command threw: both use the
  connection.
\<close>

definition connection_on_ready ::
    "'w os \<Rightarrow> nat \<Rightarrow> byte list \<Rightarrow> 'w initd_context \<Rightarrow> (byte list option \<times> 'w initd_context) \<times> outcome" where
  "connection_on_ready os i buf c =
     (case parse_control buf of
        Incomplete \<Rightarrow> ((Some buf, c), Done)
      | Bad e \<Rightarrow> ((None, c), Done)
      | Message m \<Rightarrow>
          (case execute os m c of
             (c', Done) \<Rightarrow>
               (if control_task_alive i c' then ((Some [], c'), Done)
                else ((None, c'), Aborted ''clear_buffer() of a destroyed connection''))
           | (c', Threw e) \<Rightarrow>
               (if control_task_alive i c' then ((None, c'), Done)
                else ((None, c'), Aborted ''on_disconnect() of a destroyed connection''))
           | (c', Aborted e) \<Rightarrow> ((None, c'), Aborted e)))"

text \<open>\<^verbatim>\<open>read_process\<close> appends what has arrived and calls the callback.\<close>

definition connection_receive ::
    "'w os \<Rightarrow> nat \<Rightarrow> byte list \<Rightarrow> byte list \<Rightarrow> 'w initd_context \<Rightarrow>
     (byte list option \<times> 'w initd_context) \<times> outcome" where
  "connection_receive os i data buf c = connection_on_ready os i (buf @ data) c"

text \<open>A message that arrives in pieces, nothing else happening in between.\<close>

fun connection_pieces ::
    "'w os \<Rightarrow> nat \<Rightarrow> byte list list \<Rightarrow> byte list \<Rightarrow> 'w initd_context \<Rightarrow>
     (byte list option \<times> 'w initd_context) \<times> outcome" where
  "connection_pieces os i [] buf c = ((Some buf, c), Done)"
| "connection_pieces os i (d # ds) buf c =
     (case connection_receive os i d buf c of
        ((Some buf', c'), Done) \<Rightarrow> connection_pieces os i ds buf' c'
      | res \<Rightarrow> res)"

section \<open>Messages in pieces\<close>

lemma take_serialized:
  assumes fits: "msg_fits m" and ser: "fst (serialize pad m []) = p @ q" and q: "q \<noteq> []"
  shows "parse_control p = Incomplete"
proof -
  let ?bs = "uint32_bytes (of_nat (length (msg_body pad m))) @ uint32_bytes (msg_id m) @ msg_body pad m"
  have eq: "p @ q = ?bs" using ser serialize_ok [OF fits, of pad] by simp
  then have "length (p @ q) = length ?bs" by (rule arg_cong)
  then have "length p + length q = 8 + length (msg_body pad m)"
    by (simp only: length_append length_uint32_bytes)
  then have "parse_control (take (length p) ?bs) = Incomplete"
    using q by (intro parse_control_prefix [OF fits]) (cases q; simp)
  moreover have "take (length p) ?bs = p" by (simp add: eq [symmetric])
  ultimately show ?thesis by simp
qed

lemma connection_pieces_message:
  assumes fits: "msg_fits m" and ser: "fst (serialize pad m []) = buf @ concat ds"
    and last: "ds \<noteq> []" "last ds \<noteq> []"
  shows "connection_pieces os i ds buf c = connection_on_ready os i (buf @ concat ds) c"
  using ser last
proof (induction ds arbitrary: buf)
  case (Cons d ds)
  show ?case
  proof (cases "ds = []")
    case True
    then show ?thesis
      by (simp add: connection_receive_def split: prod.splits option.splits outcome.splits)
  next
    case False
    then have "concat ds \<noteq> []" using Cons.prems(3) by (auto dest: last_in_set)
    then have "parse_control (buf @ d) = Incomplete"
      using take_serialized [OF fits, of pad "buf @ d" "concat ds"] Cons.prems(1) by simp
    then show ?thesis
      using Cons.IH [of "buf @ d"] Cons.prems False
      by (simp add: connection_receive_def) (simp add: connection_on_ready_def)
  qed
qed simp

section \<open>The control task and its own command\<close>

text \<open>
  Whether the object of the control task survives a level change is decided by its own turn
  in the loop over all tasks.
\<close>

lemma enqueue_this_other:
  "j < length (st_tasks s) \<Longrightarrow> j \<noteq> i \<Longrightarrow> st_tasks (fst (enqueue_this os i s)) ! j = st_tasks s ! j"
proof -
  assume j: "j < length (st_tasks s)" "j \<noteq> i"
  have "length (st_tasks (fst (enqueue_this os i s))) = length (st_tasks s) \<and>
      st_tasks (fst (enqueue_this os i s)) ! j = st_tasks s ! j"
    unfolding enqueue_this_def
    by (rule and_then_inv [where P = "\<lambda>s'. length (st_tasks s') = length (st_tasks s) \<and>
          st_tasks s' ! j = st_tasks s ! j"]) (use j in \<open>auto simp: nth_call_handle\<close>)
  then show ?thesis by simp
qed

lemma length_enqueue_this [simp]:
  "length (st_tasks (fst (enqueue_this os i s))) = length (st_tasks s)"
  using frame_of_enqueue_this [OF static_views(1), of os i s] frame_of_length by metis

lemma enqueue_tasks_other:
  assumes "j < length (st_tasks s)" "j \<notin> set tts"
  shows "st_tasks (fst (enqueue_tasks os tts s)) ! j = st_tasks s ! j"
proof -
  have "length (st_tasks (fst (enqueue_tasks os tts s))) = length (st_tasks s) \<and>
      st_tasks (fst (enqueue_tasks os tts s)) ! j = st_tasks s ! j"
    unfolding enqueue_tasks_def
    by (rule for_each_inv [where P = "\<lambda>s'. length (st_tasks s') = length (st_tasks s) \<and>
          st_tasks s' ! j = st_tasks s ! j"])
       (use assms in \<open>simp, metis enqueue_this_other length_enqueue_this\<close>)
  then show ?thesis by simp
qed

lemma for_each_Cons_fun: "for_each f (x # xs) = (\<lambda>s. and_then (f x s) (for_each f xs))"
  by (rule ext) simp

lemma enqueue_tasks_fun: "enqueue_tasks os tts = for_each (enqueue_this os) tts"
  by (rule ext) (simp add: enqueue_tasks_def)

lemma enqueue_all_at:
  assumes i: "i < length (st_tasks s)" and ok: "snd (enqueue_all os s) = Done"
  shows "\<exists>s1. st_tasks s1 ! i = st_tasks s ! i \<and> length (st_tasks s1) = length (st_tasks s) \<and>
    snd (enqueue_this os i s1) = Done \<and>
    st_tasks (fst (enqueue_all os s)) ! i = st_tasks (fst (enqueue_this os i s1)) ! i"
proof -
  let ?n = "length (st_tasks s)"
  have split: "[0..<?n] = [0..<i] @ i # [Suc i..<?n]"
    using i by (metis le0 less_imp_le_nat upt_add_eq_append upt_conv_Cons le_add_diff_inverse)
  let ?r1 = "enqueue_tasks os [0..<i] s"
  have whole: "enqueue_all os s = and_then ?r1 (\<lambda>s1. and_then (enqueue_this os i s1)
      (enqueue_tasks os [Suc i..<?n]))"
    by (simp add: enqueue_all_def enqueue_tasks_def split for_each_append for_each_Cons_fun enqueue_tasks_fun)
  note D1 = and_then_DoneE [OF ok [unfolded whole]]
  note D2 = and_then_DoneE [OF D1(2)]
  have len: "length (st_tasks (fst ?r1)) = ?n"
    using frame_of_enqueue_tasks [OF static_views(1), of os "[0..<i]" s] frame_of_length by metis
  have "st_tasks (fst (enqueue_all os s)) ! i = st_tasks (fst (enqueue_this os i (fst ?r1))) ! i"
    unfolding whole D1(3) D2(3) using i len by (intro enqueue_tasks_other) simp_all
  moreover have "st_tasks (fst ?r1) ! i = st_tasks s ! i"
    using i by (intro enqueue_tasks_other) simp_all
  ultimately show ?thesis
    using len D2(1) by blast
qed

lemma stopped_sync_handle:
  assumes i: "i < length (st_tasks s)" and h: "t_handle (st_tasks s ! i) = Sync_handle a"
    and running: "sa_running a" and unmarked: "\<not> t_should_work (st_tasks s ! i)"
    and free: "are_dependants_stopped i s"
  shows "\<exists>a'. t_handle (st_tasks (fst (enqueue_this os i s)) ! i) = Sync_handle a' \<and>
    sa_handle a' = None"
proof -
  have "enqueue_this os i s = call_handle (h_set_should_work os i False) i s"
    using assms by (simp add: enqueue_this_def is_running_def)
  then show ?thesis
    using i h by (auto simp: nth_call_handle sa_set_should_work_def Let_def split: option.splits)
qed

lemma kept_sync_handle:
  assumes i: "i < length (st_tasks s)" and h: "t_handle (st_tasks s ! i) = Sync_handle a"
    and running: "sa_running a"
    and stays: "t_should_work (st_tasks s ! i) \<or> \<not> are_dependants_stopped i s"
  shows "st_tasks (fst (enqueue_this os i s)) ! i = st_tasks s ! i"
  using assms by (auto simp: enqueue_this_def is_running_def is_in_transition_def)

text \<open>How many dependants count as active once the marks have been recomputed.\<close>

lemma retargeted_dependants:
  assumes core: "core_inv n s" and rs: "\<forall>r \<in> set rs. r < n" and i: "i < n"
  shows "are_dependants_stopped i (retargeted rs s) \<longleftrightarrow>
    (\<forall>u < n. i \<in> set (t_dependencies (st_tasks s ! u)) \<longrightarrow> \<not> t_active (st_tasks s ! u))"
proof -
  let ?s = "retargeted rs s"
  note inv = retargeted_inv [OF core rs] and fields = retargeted_fields [OF core rs]
  note wf = sched_invD(1) [OF initd_invD(1) [OF inv(1)]] and cnt = sched_invD(2) [OF initd_invD(1) [OF inv(1)]]
  have counted: "t_counted_in_dependencies (st_tasks ?s ! u) = t_active (st_tasks s ! u)" if "u < n" for u
    using inv(2) fields(1,2) that by (auto simp: all_set_conv_all_nth announced_def task_views)
  have "u \<in> set (t_dependants (st_tasks ?s ! i)) \<longleftrightarrow> u < n \<and> i \<in> set (t_dependencies (st_tasks s ! u))" for u
    using graph_wfD(2) [OF wf, of i u] graph_wfD(3) [OF wf, of u i] fields(1,3) i by auto
  then show ?thesis
    using are_dependants_stopped_iff [OF wf cnt, of i] counted fields(1) i by auto
qed

lemma ctx_state_on_state [simp]: "ctx_state (fst (on_state f c)) = fst (f (ctx_state c))"
  by (simp add: on_state_def split: prod.splits)

lemma reboot_destroys_control_task:
  assumes inv: "full_inv n (ctx_state c)" and i: "i < n"
    and alive: "control_task_alive i c" and running: "is_running i (ctx_state c)"
    and unused: "\<forall>u < n. i \<in> set (t_dependencies (st_tasks (ctx_state c) ! u)) \<longrightarrow>
      \<not> t_active (st_tasks (ctx_state c) ! u)"
    and ended: "on_state (set_empty_run_level os) (c\<lparr>ctx_target := t\<rparr>) = (c', Done)"
  shows "\<not> control_task_alive i c'"
proof -
  let ?s = "retargeted [] (ctx_state c)"
  have core: "core_inv n (ctx_state c)"
    using inv by (simp add: full_inv_def initd_inv_core)
  note fields = retargeted_fields [OF core, of "[]"]
  have c': "ctx_state c' = fst (enqueue_all os ?s)" and ok: "snd (enqueue_all os ?s) = Done"
    using ended by (auto simp: on_state_def set_run_level_retargeted(2) split: prod.splits)
  obtain a where a: "t_handle (st_tasks (ctx_state c) ! i) = Sync_handle a"
    using alive by (auto simp: control_task_alive_def split: async_task_handle.splits)
  then have sa: "sa_running a" using running by (simp add: is_running_def)
  have free: "are_dependants_stopped i ?s"
    using retargeted_dependants [OF core _ i, of "[]"] unused by simp
  obtain s1 where s1: "st_tasks s1 ! i = st_tasks ?s ! i" "length (st_tasks s1) = n"
      "st_tasks (fst (enqueue_all os ?s)) ! i = st_tasks (fst (enqueue_this os i s1)) ! i"
    using enqueue_all_at [of i ?s os] ok i fields(1) by auto
  have "t_handle (st_tasks s1 ! i) = Sync_handle a" "\<not> t_should_work (st_tasks s1 ! i)"
    using s1 fields(2,4) i a by simp_all
  moreover have "are_dependants_stopped i s1"
    using free s1(1) by (simp add: are_dependants_stopped_def)
  ultimately obtain a' where "t_handle (st_tasks (fst (enqueue_all os ?s)) ! i) = Sync_handle a'"
      "sa_handle a' = None"
    using stopped_sync_handle [of i s1 a os] sa s1 i by auto
  then show ?thesis
    by (simp add: control_task_alive_def c')
qed

lemma level_keeps_control_task:
  assumes inv: "full_inv n (ctx_state c)" and i: "i < n"
    and alive: "control_task_alive i c" and running: "is_running i (ctx_state c)"
    and rs: "mm_find (st_run_levels (ctx_state c)) name = Some rs"
    and stays: "(\<exists>r \<in> set rs. (r, i) \<in> (depends_on (st_tasks (ctx_state c)))\<^sup>*)"
  shows "control_task_alive i (fst (set_runlevel os name c))"
proof -
  let ?s = "retargeted rs (ctx_state c)"
  have init: "initd_inv n (ctx_state c)" using inv by (simp add: full_inv_def)
  then have core: "core_inv n (ctx_state c)" by (simp add: initd_inv_core)
  have range: "\<forall>r \<in> set rs. r < n"
    using find_level_in_range [OF initd_invD(2) [OF init] rs] initd_invD(3) [OF init] by simp
  note fields = retargeted_fields [OF core range]
  obtain a where a: "t_handle (st_tasks (ctx_state c) ! i) = Sync_handle a"
    using alive by (auto simp: control_task_alive_def split: async_task_handle.splits)
  then have sa: "sa_running a" using running by (simp add: is_running_def)
  let ?P = "\<lambda>s'. length (st_tasks s') = n \<and> st_tasks s' ! i = st_tasks ?s ! i"
  have keep: "?P (fst (enqueue_this os k s'))" if "?P s'" for k s'
  proof (cases "k = i")
    case True
    then show ?thesis
      using that kept_sync_handle [of i s' a os] i a sa fields(2,4) stays by auto
  qed (use that i enqueue_this_other [of i s' k os] in simp)
  have "?P (fst (enqueue_all os ?s))"
    unfolding enqueue_all_def enqueue_tasks_def
    by (rule for_each_inv) (use keep fields(1) in auto)
  then have "t_handle (st_tasks (fst (enqueue_all os ?s)) ! i) = t_handle (st_tasks (ctx_state c) ! i)"
    using fields(2) i by simp
  then show ?thesis
    using alive by (simp add: control_task_alive_def set_runlevel_def
        set_run_level_retargeted(1) rs)
qed

end
