(* ===== verification/Example_System.thy ===== *)
theory Example_System
  imports Init_Control
begin

text \<open>
  A small concrete system for evaluating the model: an operating system whose calls
  succeed and whose children exit at once, and a configuration with a service that needs
  another one, a control socket, and a run level besides \<^verbatim>\<open>default\<close>.
\<close>

text \<open>The world is the list of children that have exited and were not waited for.\<close>

definition simple_os :: "nat list os" where
  "simple_os =
     \<lparr>os_strerror = (\<lambda>_. ''system error''),
      os_ms_flag = (\<lambda>f. 1),
      os_mnt_detach = 2,
      os_sun_path_size = 108,
      os_fork = (\<lambda>c w. (Inr (Suc (sum_list w)), w @ [Suc (sum_list w)])),
      os_waitpid_any = (\<lambda>w. case w of [] \<Rightarrow> (Inl ECHILD, w)
         | p # ps \<Rightarrow> (Inr (Some (p, 0)), removeAll p ps)),
      os_gethostname = (\<lambda>w. (Inr ''localhost'', w)),
      os_sethostname = (\<lambda>h w. (None, w)),
      os_mount = (\<lambda>a b c f w. (None, w)),
      os_umount2 = (\<lambda>a f w. (None, w)),
      os_open = (\<lambda>f w. (Inr 3, w)),
      os_close = (\<lambda>fd w. w),
      os_loop_set_fd = (\<lambda>d fd w. (None, w)),
      os_loop_clr_fd = (\<lambda>d w. (None, w)),
      os_socket = (\<lambda>w. (Inr 4, w)),
      os_bind = (\<lambda>fd p w. (None, w)),
      os_listen = (\<lambda>fd w. (None, w)),
      os_epoll_add = (\<lambda>fd w. (None, w)),
      os_epoll_del = (\<lambda>fd w. w),
      os_unlink = (\<lambda>p w. (None, w))\<rparr>"

definition service :: "string \<Rightarrow> task_data" where
  "service path =
     Start_stop_task
       \<lparr>start_command = \<lparr>cmd = \<lparr>executable = path, arguments = [''start'']\<rparr>, working_directory = ''/''\<rparr>,
        stop_command = \<lparr>cmd = \<lparr>executable = path, arguments = [''stop'']\<rparr>, working_directory = ''/''\<rparr>\<rparr>"

definition example_descriptions :: task_descriptions where
  "example_descriptions =
     create_run_level ''database'' [0]
       (create_run_level ''default'' [1, 2]
         (push_dependency 1 0
           (snd (create_task_description ''control'' (Control_task \<lparr>uds_filename = ''/tmp/initd-control''\<rparr>)
             (snd (create_task_description ''web'' (service ''/bin/web'')
               (snd (create_task_description ''db'' (service ''/bin/db'') empty_descriptions))))))))"

definition example_context :: "nat list initd_context" where
  "example_context = fst (context_construct simple_os example_descriptions [])"

lemma example_all_tasks: "length (all_tasks example_descriptions) = 3"
  by code_simp

lemma example_descriptions_ok: "descriptions_ok example_descriptions"
proof -
  have "wf_descriptions example_descriptions"
    unfolding example_descriptions_def
    by (intro wf_create_run_level wf_push_dependency wf_create_task_description)
       (simp_all add: all_tasks_push_dependency create_run_level_def)
  moreover have "length (all_edges example_descriptions) = 1" by code_simp
  ultimately show ?thesis
    by (simp add: descriptions_ok_def sizes_fit_def example_all_tasks)
qed

lemma example_constructed: "context_construct simple_os example_descriptions [] = (example_context, Done)"
proof -
  have "snd (context_construct simple_os example_descriptions []) = Done" by code_simp
  then show ?thesis by (simp add: example_context_def prod_eq_iff)
qed

lemma example_runs: "runs simple_os nature example_descriptions [] example_context"
  using example_constructed by (rule runs.constructed)

section \<open>Playing events\<close>

text \<open>Rounds that all end normally; \<open>None\<close> if one of them is not possible.\<close>

fun play :: "'w os \<Rightarrow> event list \<Rightarrow> 'w initd_context \<Rightarrow> 'w initd_context option" where
  "play os [] c = Some c"
| "play os (ev # evs) c =
     (if is_active c then
        (case dispatch os ev c of
           Some (c', r) \<Rightarrow> (if r = Done then play os evs c' else None)
         | None \<Rightarrow> None)
      else None)"

lemma play_runs:
  "play os evs c = Some c' \<Longrightarrow> runs os nature tds rs c \<Longrightarrow> all_done rs \<Longrightarrow>
   \<exists>rs'. runs os nature tds rs' c' \<and> all_done rs'"
proof (induction evs arbitrary: c rs)
  case (Cons ev evs)
  from Cons.prems(1) have active: "is_active c"
    by (auto split: if_splits)
  from Cons.prems(1) obtain c1 where c1: "dispatch os ev c = Some (c1, Done)" "play os evs c1 = Some c'"
    by (auto split: if_splits option.splits prod.splits)
  have "runs os nature tds (Done # rs) c1"
    by (rule runs.stepped [OF Cons.prems(2) step.round [OF active c1(1)]])
  then show ?case
    using Cons.IH [OF c1(2)] Cons.prems(3) by (simp add: all_done_def)
qed auto

lemma play_example:
  assumes "play simple_os evs example_context \<noteq> None"
  shows "\<exists>rs. runs simple_os nature example_descriptions rs (the (play simple_os evs example_context)) \<and>
    all_done rs"
  using assms play_runs [OF _ example_runs [of nature], of evs] by (auto simp: all_done_def)

text \<open>Everything is up; then a request to go down; then everything is down.\<close>

definition example_up :: "nat list initd_context" where
  "example_up = the (play simple_os [Child_exit, Wake_up 2] example_context)"

definition example_down :: "nat list initd_context" where
  "example_down =
     the (play simple_os [Child_exit, Wake_up 2, Termination_signal, Child_exit, Wake_up 2] example_context)"

lemma example_up_runs: "\<exists>rs. runs simple_os nature example_descriptions rs example_up \<and> all_done rs"
proof -
  have "play simple_os [Child_exit, Wake_up 2] example_context \<noteq> None" by code_simp
  then show ?thesis unfolding example_up_def by (rule play_example)
qed

lemma example_down_runs: "\<exists>rs. runs simple_os nature example_descriptions rs example_down \<and> all_done rs"
proof -
  have "play simple_os [Child_exit, Wake_up 2, Termination_signal, Child_exit, Wake_up 2]
      example_context \<noteq> None" by code_simp
  then show ?thesis unfolding example_down_def by (rule play_example)
qed

text \<open>The same services with a dependency the other way round as well.\<close>

definition cyclic_descriptions :: task_descriptions where
  "cyclic_descriptions = push_dependency 0 1 example_descriptions"

definition cyclic_context :: "nat list initd_context" where
  "cyclic_context = fst (context_construct simple_os cyclic_descriptions [])"

lemma cyclic_descriptions_ok: "descriptions_ok cyclic_descriptions"
proof -
  have "wf_descriptions cyclic_descriptions"
    unfolding cyclic_descriptions_def using example_descriptions_ok
    by (intro wf_push_dependency) (simp_all add: descriptions_ok_def example_all_tasks)
  moreover have "length (all_edges cyclic_descriptions) = 2" "length (all_tasks cyclic_descriptions) = 3"
    by code_simp+
  ultimately show ?thesis
    by (simp add: descriptions_ok_def sizes_fit_def)
qed

lemma cyclic_runs: "runs simple_os nature cyclic_descriptions [] cyclic_context"
proof -
  have "snd (context_construct simple_os cyclic_descriptions []) = Done" by code_simp
  then have "context_construct simple_os cyclic_descriptions [] = (cyclic_context, Done)"
    by (simp add: cyclic_context_def prod_eq_iff)
  then show ?thesis by (rule runs.constructed)
qed

text \<open>The system has a process table.\<close>

lemma simple_os_process_table: "process_table simple_os set"
proof -
  have fork: "os_fork simple_os c w = (Inr (Suc (sum_list w)), w @ [Suc (sum_list w)])"
    and waitpid: "os_waitpid_any simple_os w = (case w of [] \<Rightarrow> (Inl ECHILD, w)
         | p # ps \<Rightarrow> (Inr (Some (p, 0)), removeAll p ps))" for c w
    by (simp_all add: simple_os_def)
  have fresh: "Suc (sum_list w) \<notin> set w" for w :: "nat list"
    using member_le_sum_list [of "Suc (sum_list w)" w] by auto
  have create: "snd (create_task simple_os d w) = w" for d w
    by (cases d) (simp_all add: simple_os_def hostname_task_create_def set_hostname_def get_hostname_def
        mounting_guard_create_def mount_filesystem_def server_socket_create_def)
  have destroy: "destroy_task simple_os t w = w" for t w
    by (cases t) (simp_all add: simple_os_def hostname_task_destroy_def set_hostname_def
        mounting_guard_destroy_def umount_filesystem_def control_task_destroy_def split: option.splits)
  show ?thesis
    using fresh by (auto simp: process_table_def fork waitpid create destroy split: list.splits)
qed

end
