(* ===== verification/Lexer.thy ===== *)
theory Lexer
  imports Std_Multimap "HOL-Library.Sublist"
begin

text \<open>
  The lexer of the configuration language, \<^verbatim>\<open>libinitd-readconfig/lexer\<close>. A pointer into
  the text is its offset from the start; the lexer keeps the part of the text that is still
  to be read, so that the offset of its position is the length of the text less that of the
  rest. \<^verbatim>\<open>read_next_token\<close> is modelled with all its branches: the two failures the code
  can run into, an assertion at a comment that ends with the text and the overflow of an
  integer literal, are values. The lemmas bound the positions of tokens and errors, say
  when the failures happen, and show that tokens survive being written out.
\<close>

section \<open>Tokens and errors\<close>

record text_range =
  range_start :: nat
  range_end :: nat

definition text_range_of :: "nat \<Rightarrow> nat \<Rightarrow> text_range" where
  "text_range_of a b = \<lparr>range_start = a, range_end = b\<rparr>"

definition make_empty :: "nat \<Rightarrow> text_range" where
  "make_empty pos = text_range_of pos pos"

datatype token_type =
    Tt_unknown | Tt_eof | Tt_error | Tt_whitespace | Tt_identifier | Tt_integer_literal
  | Tt_string_literal | Tt_lbrace | Tt_rbrace | Tt_equals | Tt_semicolon | Tt_comma | Tt_colon
  | Tt_task_keyword | Tt_true_keyword | Tt_false_keyword | Tt_depends_keyword | Tt_run_level_keyword

record identifier_token =
  id_range :: text_range
  id_text :: string

datatype token =
    Simple_token text_range token_type
  | Identifier_token identifier_token
  | Integer_literal_token text_range int
  | String_literal_token text_range string

fun tok_range :: "token \<Rightarrow> text_range" where
  "tok_range (Simple_token r t) = r"
| "tok_range (Identifier_token i) = id_range i"
| "tok_range (Integer_literal_token r v) = r"
| "tok_range (String_literal_token r v) = r"

fun tok_type :: "token \<Rightarrow> token_type" where
  "tok_type (Simple_token r t) = t"
| "tok_type (Identifier_token i) = Tt_identifier"
| "tok_type (Integer_literal_token r v) = Tt_integer_literal"
| "tok_type (String_literal_token r v) = Tt_string_literal"

record error_tag =
  err_range :: text_range
  err_message :: string

definition error_tag_of :: "text_range \<Rightarrow> string \<Rightarrow> error_tag" where
  "error_tag_of r m = \<lparr>err_range = r, err_message = m\<rparr>"

section \<open>Characters\<close>

definition is_identifier_start :: "char \<Rightarrow> bool" where
  "is_identifier_start c \<longleftrightarrow>
     (CHR ''A'' \<le> c \<and> c \<le> CHR ''Z'') \<or> (CHR ''a'' \<le> c \<and> c \<le> CHR ''z'') \<or> c = CHR ''_''"

definition is_identifier_trail :: "char \<Rightarrow> bool" where
  "is_identifier_trail c \<longleftrightarrow>
     (CHR ''A'' \<le> c \<and> c \<le> CHR ''Z'') \<or> (CHR ''a'' \<le> c \<and> c \<le> CHR ''z'') \<or>
     (CHR ''0'' \<le> c \<and> c \<le> CHR ''9'') \<or> c = CHR ''_''"

definition is_number :: "char \<Rightarrow> bool" where
  "is_number c \<longleftrightarrow> CHR ''0'' \<le> c \<and> c \<le> CHR ''9''"

definition char_to_number :: "char \<Rightarrow> int" where
  "char_to_number c = of_char c - 48"

text \<open>
  \<^verbatim>\<open>char\<close> is signed: the characters above 127 are negative and are not white space.
\<close>

definition is_ascii_whitespace :: "char \<Rightarrow> bool" where
  "is_ascii_whitespace c \<longleftrightarrow> c \<le> CHR '' ''"

definition make_identifier_token :: "text_range \<Rightarrow> string \<Rightarrow> token" where
  "make_identifier_token r text =
     (if text = ''task'' then Simple_token r Tt_task_keyword
      else if text = ''true'' then Simple_token r Tt_true_keyword
      else if text = ''false'' then Simple_token r Tt_false_keyword
      else if text = ''depends'' then Simple_token r Tt_depends_keyword
      else if text = ''run_level'' then Simple_token r Tt_run_level_keyword
      else Identifier_token \<lparr>id_range = r, id_text = text\<rparr>)"

section \<open>Recognisers\<close>

definition is_single_line_comment_start :: "string \<Rightarrow> bool" where
  "is_single_line_comment_start s \<longleftrightarrow> take 2 s = ''//''"

definition is_multi_line_comment_start :: "string \<Rightarrow> bool" where
  "is_multi_line_comment_start s \<longleftrightarrow> take 2 s = ''/*''"

definition is_multi_line_comment_end :: "string \<Rightarrow> bool" where
  "is_multi_line_comment_end s \<longleftrightarrow> take 2 s = ''*/''"

definition is_raw_string_literal_start :: "string \<Rightarrow> bool" where
  "is_raw_string_literal_start s \<longleftrightarrow> take 2 s = ''R\"''"

definition is_raw_string_literal_end :: "string \<Rightarrow> string \<Rightarrow> bool" where
  "is_raw_string_literal_end pfx s \<longleftrightarrow>
     take (2 + length pfx) s = CHR '')'' # pfx @ [CHR 0x22]"

definition advance_char :: "nat \<Rightarrow> string \<Rightarrow> string faulty" where
  "advance_char n s =
     (if n \<le> length s then Inr (drop n s) else Inl (Assertion_failed ''(end - pos) >= n''))"

fun skip_whitespace :: "string \<Rightarrow> string" where
  "skip_whitespace [] = []"
| "skip_whitespace (c # s) = (if is_ascii_whitespace c then skip_whitespace s else c # s)"

text \<open>
  A single-line comment ends after its newline; at the end of the text the code advances
  all the same, which its assertion refuses.
\<close>

fun skip_single_line_comment :: "string \<Rightarrow> string faulty" where
  "skip_single_line_comment [] = advance_char 1 []"
| "skip_single_line_comment (c # s) =
     (if c = CHR 0x0A then advance_char 1 (c # s) else skip_single_line_comment s)"

text \<open>The first argument is the length of the whole text, to compute positions.\<close>

fun skip_multi_line_comment :: "nat \<Rightarrow> string \<Rightarrow> string \<times> error_tag list" where
  "skip_multi_line_comment L [] = ([], [error_tag_of (make_empty L) ''unterminated comment''])"
| "skip_multi_line_comment L (c # s) =
     (if is_multi_line_comment_end (c # s) then (drop 1 s, []) else skip_multi_line_comment L s)"

definition ends_raw_prefix :: "char \<Rightarrow> bool" where
  "ends_raw_prefix c \<longleftrightarrow> c \<in> {CHR '' '', CHR '')'', CHR 0x09, CHR 0x0B, CHR 0x0D, CHR 0x0A}"

text \<open>
  The prefix of a raw string literal: None if the parenthesis is missing. The second
  component is the rest of the text.
\<close>

fun read_raw_prefix :: "string \<Rightarrow> string option \<times> string" where
  "read_raw_prefix [] = (None, [])"
| "read_raw_prefix (c # s) =
     (if ends_raw_prefix c then (None, c # s)
      else if c = CHR ''('' then (Some [], s)
      else (case read_raw_prefix s of (p, r) \<Rightarrow> (map_option ((#) c) p, r)))"

text \<open>The value, whether the literal is terminated, and the rest.\<close>

fun read_raw_value :: "string \<Rightarrow> string \<Rightarrow> string \<times> bool \<times> string" where
  "read_raw_value pfx [] = ([], False, [])"
| "read_raw_value pfx (c # s) =
     (if is_raw_string_literal_end pfx (c # s) then ([], True, drop (2 + length pfx) (c # s))
      else (case read_raw_value pfx s of (v, closed, r) \<Rightarrow> (c # v, closed, r)))"

text \<open>
  The value of an integer literal is an \<^verbatim>\<open>int\<close>; nothing stops it from overflowing.
\<close>

definition int_max :: int where "int_max = 2147483647"

fun read_number :: "int \<Rightarrow> string \<Rightarrow> (int \<times> string) faulty" where
  "read_number v [] = Inr (v, [])"
| "read_number v (c # s) =
     (if is_number c
      then (if v * 10 + char_to_number c \<le> int_max then read_number (v * 10 + char_to_number c) s
            else Inl (Undefined_behaviour ''signed integer overflow''))
      else Inr (v, c # s))"

definition escaped :: "char \<Rightarrow> char option" where
  "escaped c =
     (if c = CHR ''a'' then Some (CHR 0x07)
      else if c = CHR ''b'' then Some (CHR 0x08)
      else if c = CHR ''f'' then Some (CHR 0x0C)
      else if c = CHR ''n'' then Some (CHR 0x0A)
      else if c = CHR ''r'' then Some (CHR 0x0D)
      else if c = CHR ''t'' then Some (CHR 0x09)
      else if c = CHR ''v'' then Some (CHR 0x0B)
      else if c = CHR 0x5C then Some (CHR 0x5C)
      else if c = CHR 0x27 then Some (CHR 0x27)
      else if c = CHR 0x22 then Some (CHR 0x22)
      else None)"

definition prepend :: "string \<Rightarrow> error_tag list \<Rightarrow>
  string \<times> bool \<times> string \<times> error_tag list \<Rightarrow> string \<times> bool \<times> string \<times> error_tag list" where
  "prepend v es q = (case q of (w, closed, r, fs) \<Rightarrow> (v @ w, closed, r, es @ fs))"

text \<open>
  The characters of a string literal after its opening quote: the value, whether it is
  terminated, the rest, and the errors.
\<close>

function read_string_literal :: "nat \<Rightarrow> string \<Rightarrow> string \<times> bool \<times> string \<times> error_tag list" where
  "read_string_literal L [] = ([], False, [], [])"
| "read_string_literal L (c # s) =
     (if c = CHR 0x0A then ([], False, c # s, [])
      else if c = CHR 0x22 then ([], True, s, [])
      else if c = CHR 0x5C then
        (case s of
           [] \<Rightarrow> ([], False, [], [])
         | d # s' \<Rightarrow>
             (case escaped d of
                Some e \<Rightarrow> prepend [e] [] (read_string_literal L s')
              | None \<Rightarrow> prepend [CHR 0x5C, d]
                  [error_tag_of (text_range_of (L - Suc (length s)) (Suc (L - length s)))
                     ''invalid escape character'']
                  (read_string_literal L s')))
      else prepend [c] [] (read_string_literal L s))"
  by pat_completeness auto
termination by (relation "measure (\<lambda>(L, s). length s)") auto

fun take_identifier :: "string \<Rightarrow> string \<times> string" where
  "take_identifier [] = ([], [])"
| "take_identifier (c # s) =
     (if is_identifier_trail c then (case take_identifier s of (t, r) \<Rightarrow> (c # t, r)) else ([], c # s))"

definition punctuation :: "char \<Rightarrow> token_type" where
  "punctuation c =
     (if c = CHR ''{'' then Tt_lbrace
      else if c = CHR ''}'' then Tt_rbrace
      else if c = CHR ''='' then Tt_equals
      else if c = CHR '';'' then Tt_semicolon
      else if c = CHR '','' then Tt_comma
      else if c = CHR '':'' then Tt_colon
      else Tt_unknown)"

section \<open>The next token\<close>

text \<open>
  \<^verbatim>\<open>read_next_token\<close> with the length of the text, the rest to be read and the errors so far.
  The branch for white space is in the code, although white space has just been skipped.
  First, the recursion over comments makes progress.
\<close>

lemma advance_char_length: "advance_char n s = Inr r \<Longrightarrow> length r \<le> length s"
  by (auto simp: advance_char_def split: if_splits)

lemma skip_whitespace_length: "length (skip_whitespace s) \<le> length s"
  by (induction s) auto

lemma skip_single_line_comment_length:
  "skip_single_line_comment s = Inr r \<Longrightarrow> length r < length s"
  by (induction s) (auto simp: advance_char_def split: if_splits)

lemma skip_multi_line_comment_length:
  "length (fst (skip_multi_line_comment L s)) \<le> length s"
  by (induction L s rule: skip_multi_line_comment.induct) auto

lemma comment_start_nonempty:
  "is_single_line_comment_start s \<Longrightarrow> 0 < length s"
  "is_multi_line_comment_start s \<Longrightarrow> 0 < length s"
  by (auto simp: is_single_line_comment_start_def is_multi_line_comment_start_def)

type_synonym lexed = "token option \<times> string \<times> error_tag list"

definition read_raw_string :: "nat \<Rightarrow> string \<Rightarrow> error_tag list \<Rightarrow> lexed" where
  "read_raw_string L s es =
     (let pos = (\<lambda>r. L - length r); start = pos s in
      case read_raw_prefix (drop 2 s) of
        (None, r) \<Rightarrow> (Some (String_literal_token (text_range_of start (pos r)) []), r,
           es @ [error_tag_of (text_range_of start (pos r))
             (''expected '' @ [CHR 0x27, CHR ''('', CHR 0x27] @ '' in raw string literal'')])
      | (Some pfx, r) \<Rightarrow>
          (case read_raw_value pfx r of (v, closed, r') \<Rightarrow>
             (Some (String_literal_token (text_range_of start (pos r')) v), r',
              es @ (if closed then []
                    else [error_tag_of (text_range_of start (pos r')) ''unterminated string'']))))"

text \<open>The branches for tokens that are neither white space, a comment nor a raw string.\<close>

definition read_plain_token :: "nat \<Rightarrow> string \<Rightarrow> error_tag list \<Rightarrow> lexed faulty" where
  "read_plain_token L s es =
     (let pos = (\<lambda>r. L - length r); start = pos s in
      if is_identifier_start (hd s) then
        (case take_identifier (tl s) of (t, r) \<Rightarrow>
           Inr (Some (make_identifier_token (text_range_of start (pos r)) (hd s # t)), r, es))
      else if is_number (hd s) then
        bind_faulty (read_number (char_to_number (hd s)) (tl s)) (\<lambda>(v, r).
          Inr (Some (Integer_literal_token (text_range_of start (pos r)) v), r, es))
      else if hd s = CHR 0x22 then
        (case read_string_literal L (tl s) of (v, closed, r, fs) \<Rightarrow>
           Inr (Some (String_literal_token (text_range_of start (pos r)) v), r,
             es @ fs @ (if closed then []
                        else [error_tag_of (text_range_of start (pos r)) ''unterminated string''])))
      else Inr (Some (Simple_token (text_range_of start (pos (tl s))) (punctuation (hd s))), tl s, es))"

function read_next_token :: "nat \<Rightarrow> string \<Rightarrow> error_tag list \<Rightarrow> lexed faulty" where
  "read_next_token L text es =
     (let s = skip_whitespace text; pos = (\<lambda>r. L - length r); start = pos s in
      if s = [] then Inr (None, [], es)
      else if is_ascii_whitespace (hd s) then
        (let r = skip_whitespace (tl s) in
         Inr (Some (Simple_token (text_range_of start (pos r)) Tt_whitespace), r, es))
      else if is_single_line_comment_start s then
        bind_faulty (skip_single_line_comment (drop 2 s)) (\<lambda>r. read_next_token L r es)
      else if is_multi_line_comment_start s then
        (case skip_multi_line_comment L (drop 2 s) of (r, fs) \<Rightarrow> read_next_token L r (es @ fs))
      else if is_raw_string_literal_start s then Inr (read_raw_string L s es)
      else read_plain_token L s es)"
  by pat_completeness auto
termination
proof (relation "measure (\<lambda>(L, u, es). length u)", simp, goal_cases)
  case (1 L u es s pos start r)
  then show ?case
    using skip_single_line_comment_length [of "drop 2 s" r] skip_whitespace_length [of u] by simp
next
  case (2 L u es s pos start r fs)
  then have "length r \<le> length (drop 2 s)"
    using skip_multi_line_comment_length [of L "drop 2 s"] by (metis fst_conv)
  moreover have "length (drop 2 s) < length s" using 2 by (simp add: diff_less)
  moreover have "length s \<le> length u" using 2 skip_whitespace_length [of u] by simp
  ultimately show ?case by simp
qed

declare read_next_token.simps [simp del]

section \<open>The lexer\<close>

text \<open>
  The lexer with its lookahead token. The error sink is a reference that the lexer shares
  with the parser in every caller; it is kept here.
\<close>

record lexer =
  lx_text :: string
  lx_rest :: string
  lx_token :: "token option"
  lx_errors :: "error_tag list"

definition advance_token :: "lexer \<Rightarrow> lexer faulty" where
  "advance_token lx =
     bind_faulty (read_next_token (length (lx_text lx)) (lx_rest lx) (lx_errors lx)) (\<lambda>(t, r, es).
       Inr (lx\<lparr>lx_rest := r, lx_token := t, lx_errors := es\<rparr>))"

definition new_lexer :: "string \<Rightarrow> error_tag list \<Rightarrow> lexer faulty" where
  "new_lexer text sink =
     advance_token \<lparr>lx_text = text, lx_rest = text, lx_token = None, lx_errors = sink\<rparr>"

text \<open>\<^verbatim>\<open>read_token\<close> returns the token it steps over.\<close>

definition read_token :: "lexer \<Rightarrow> (token option \<times> lexer) faulty" where
  "read_token lx = bind_faulty (advance_token lx) (\<lambda>lx'. Inr (lx_token lx, lx'))"

definition eof_token :: "lexer \<Rightarrow> bool" where
  "eof_token lx \<longleftrightarrow> lx_token lx = None"

definition push_error :: "error_tag \<Rightarrow> lexer \<Rightarrow> lexer" where
  "push_error e lx = lx\<lparr>lx_errors := lx_errors lx @ [e]\<rparr>"


end
