(* ===== verification/Lexer_Facts.thy ===== *)
theory Lexer_Facts
  imports Lexer
begin

text \<open>
  What the lexer guarantees: where tokens and errors lie, when it fails, and that the text
  of a sequence of tokens is read back as that sequence.
\<close>

section \<open>What is left is a suffix\<close>

named_theorems lexing \<open>what the pieces of the lexer leave\<close>

lemma suffix_skip_whitespace [lexing]: "suffix (skip_whitespace s) s"
  by (induction s) (auto intro: suffix_ConsI)

lemma skip_whitespace_stops: "skip_whitespace s = c # r \<Longrightarrow> \<not> is_ascii_whitespace c"
  by (induction s) (auto split: if_splits)

lemma suffix_skip_single_line_comment [lexing]:
  "skip_single_line_comment s = Inr r \<Longrightarrow> suffix r s"
  by (induction s) (auto simp: advance_char_def intro: suffix_ConsI split: if_splits)

lemma suffix_drop_Suc: "suffix (drop n s) (c # s)"
  by (meson suffix_ConsI suffix_drop)

lemma suffix_skip_multi_line_comment [lexing]:
  "skip_multi_line_comment L s = (r, fs) \<Longrightarrow> suffix r s"
  by (induction L s rule: skip_multi_line_comment.induct)
    (auto intro: suffix_ConsI simp: suffix_drop_Suc split: if_splits)

lemma suffix_read_raw_prefix [lexing]: "read_raw_prefix s = (p, r) \<Longrightarrow> suffix r s"
  by (induction s arbitrary: p) (auto intro: suffix_ConsI split: if_splits prod.splits)

lemma suffix_read_raw_value [lexing]: "read_raw_value p s = (v, closed, r) \<Longrightarrow> suffix r s"
  by (induction p s arbitrary: v rule: read_raw_value.induct)
    (auto intro: suffix_ConsI simp: suffix_drop_Suc split: if_splits prod.splits)

lemma suffix_read_number [lexing]: "read_number v s = Inr (w, r) \<Longrightarrow> suffix r s"
  by (induction v s rule: read_number.induct) (auto intro: suffix_ConsI split: if_splits)

lemma take_identifier_append [lexing]: "take_identifier s = (t, r) \<Longrightarrow> s = t @ r"
  by (induction s arbitrary: t) (auto split: if_splits prod.splits)

lemma suffix_read_string_literal [lexing]:
  "read_string_literal L s = (v, closed, r, fs) \<Longrightarrow> suffix r s"
proof (induction L s arbitrary: v fs rule: read_string_literal.induct)
  case (2 L c s)
  then show ?case
    by (auto simp: prepend_def split: if_splits list.splits option.splits prod.splits
        intro!: suffix_ConsI)
qed simp

section \<open>Positions\<close>

text \<open>The new errors of a step lie in the part of the text from one position on.\<close>

definition range_within :: "nat \<Rightarrow> nat \<Rightarrow> text_range \<Rightarrow> bool" where
  "range_within a b r \<longleftrightarrow> a \<le> range_start r \<and> range_start r \<le> range_end r \<and> range_end r \<le> b"

definition errors_within :: "nat \<Rightarrow> nat \<Rightarrow> error_tag list \<Rightarrow> bool" where
  "errors_within a b es \<longleftrightarrow> (\<forall>e \<in> set es. range_within a b (err_range e))"

lemma errors_within_simps [simp]:
  "errors_within a b []"
  "errors_within a b (e # es) \<longleftrightarrow> range_within a b (err_range e) \<and> errors_within a b es"
  "errors_within a b (es @ fs) \<longleftrightarrow> errors_within a b es \<and> errors_within a b fs"
  by (auto simp: errors_within_def)

lemma range_within_of [simp]:
  "range_within a b (text_range_of x y) \<longleftrightarrow> a \<le> x \<and> x \<le> y \<and> y \<le> b"
  by (simp add: range_within_def text_range_of_def)

lemma error_tag_of_sel [simp]:
  "err_range (error_tag_of r m) = r" "err_message (error_tag_of r m) = m"
  by (simp_all add: error_tag_of_def)

lemma errors_within_mono: "errors_within a b es \<Longrightarrow> a' \<le> a \<Longrightarrow> errors_within a' b es"
  by (fastforce simp: errors_within_def range_within_def)

lemma errors_skip_multi_line_comment:
  "skip_multi_line_comment L s = (r, fs) \<Longrightarrow> a + length s \<le> L \<Longrightarrow> errors_within a L fs"
  by (induction L s rule: skip_multi_line_comment.induct) (auto simp: make_empty_def split: if_splits)

lemma errors_read_string_literal:
  "read_string_literal L s = (v, closed, r, fs) \<Longrightarrow> a + length s \<le> L \<Longrightarrow> errors_within a L fs"
proof (induction L s arbitrary: v fs rule: read_string_literal.induct)
  case (2 L c s)
  have "a \<le> L - Suc (Suc n)" "L - Suc (Suc n) \<le> Suc (L - Suc n)" "Suc (L - Suc n) \<le> L"
    if "s = d # s'" "n = length s'" for d s' n
    using 2(5) that by auto
  with 2 show ?case
    by (auto simp: prepend_def split: if_splits list.splits option.splits prod.splits)
qed simp

text \<open>
  What a step does that does not fail: it keeps the errors and adds to them in the part of
  the text it read, what is left is a suffix, and a token is a non-empty range in that part
  which ends where the next step begins. Without a token, the text has been read. The class
  of a token is the one its type stands for, and white space is never a token.
\<close>

fun proper_token :: "token \<Rightarrow> bool" where
  "proper_token (Simple_token r t) \<longleftrightarrow>
     t \<notin> {Tt_identifier, Tt_integer_literal, Tt_string_literal, Tt_eof, Tt_error, Tt_whitespace}"
| "proper_token _ \<longleftrightarrow> True"

lemma proper_token_made [simp]:
  "proper_token (make_identifier_token r t)"
  "punctuation c \<noteq> Tt_identifier" "punctuation c \<noteq> Tt_integer_literal" "punctuation c \<noteq> Tt_string_literal"
  "punctuation c \<noteq> Tt_eof" "punctuation c \<noteq> Tt_error" "punctuation c \<noteq> Tt_whitespace"
  by (simp_all add: make_identifier_token_def punctuation_def)

definition lexed_between :: "nat \<Rightarrow> string \<Rightarrow> error_tag list \<Rightarrow> lexed \<Rightarrow> bool" where
  "lexed_between L u es q \<longleftrightarrow> (case q of (t, r, es') \<Rightarrow>
     suffix r u \<and>
     (\<exists>fs. es' = es @ fs \<and> errors_within (L - length u) L fs) \<and>
     (case t of
        None \<Rightarrow> r = []
      | Some k \<Rightarrow> proper_token k \<and> length r < length u \<and> L - length u \<le> range_start (tok_range k) \<and>
          range_start (tok_range k) < range_end (tok_range k) \<and> range_end (tok_range k) = L - length r))"

lemma lexed_between_later:
  assumes "lexed_between L u (es @ fs) q" "suffix u w" "errors_within (L - length w) L fs"
  shows "lexed_between L w es q"
proof -
  have "length u \<le> length w" using assms(2) by (rule suffix_length_le)
  then show ?thesis
    using assms by (cases q)
      (fastforce simp: lexed_between_def split: option.splits
        intro: suffix_order.trans errors_within_mono [OF _ diff_le_mono2])
qed

lemma lexed_between_token:
  assumes "suffix (c # s) u" "suffix r s" "length u \<le> L" "proper_token k"
    and "errors_within (L - length u) L fs"
    and "range_start (tok_range k) = L - length (c # s)" "range_end (tok_range k) = L - length r"
  shows "lexed_between L u es (Some k, r, es @ fs)"
proof -
  have "length r < length u" "length (c # s) \<le> length u" "length r \<le> length s"
    using suffix_length_le [OF assms(1)] suffix_length_le [OF assms(2)] by auto
  moreover from this have "L - length u \<le> L - Suc (length s)" "L - Suc (length s) < L - length r"
    using assms(3) by auto
  moreover have "suffix r u"
    using assms(1,2) by (meson suffix_ConsI suffix_order.trans)
  ultimately show ?thesis
    using assms(3-7) by (simp add: lexed_between_def)
qed

lemmas lexed_between_clean = lexed_between_token [where fs = "[]", simplified]

lemma text_range_of_sel [simp]:
  "range_start (text_range_of a b) = a" "range_end (text_range_of a b) = b"
  by (simp_all add: text_range_of_def)

lemma tok_range_make_identifier [simp]: "tok_range (make_identifier_token r t) = r"
  by (simp add: make_identifier_token_def)

lemma lexed_between_raw_string:
  assumes "suffix s u" "length u \<le> L" "is_raw_string_literal_start s"
  shows "lexed_between L u es (read_raw_string L s es)"
proof -
  obtain c d s' where s: "s = c # d # s'"
    using assms(3) by (cases s; cases "tl s") (auto simp: is_raw_string_literal_start_def)
  have len: "length s \<le> length u" using assms(1) by (rule suffix_length_le)
  note bounds = len assms(2) s
  obtain p r where p: "read_raw_prefix s' = (p, r)" by fastforce
  have r: "suffix r s'" using p by (rule suffix_read_raw_prefix)
  show ?thesis
  proof (cases p)
    case None
    then have "read_raw_string L s es = (Some (String_literal_token (text_range_of (L - length s) (L - length r)) []), r,
        es @ [error_tag_of (text_range_of (L - length s) (L - length r))
          (''expected '' @ [CHR 0x27, CHR ''('', CHR 0x27] @ '' in raw string literal'')])"
      using p s by (simp add: read_raw_string_def Let_def)
    then show ?thesis
      using bounds suffix_length_le [OF r] assms(1) suffix_ConsI [OF r]
      by (auto intro!: lexed_between_token [of c "d # s'"] simp: s)
  next
    case (Some q)
    obtain v closed r' where v: "read_raw_value q r = (v, closed, r')" by (metis prod_cases3)
    have r': "suffix r' s'" using suffix_read_raw_value [OF v] r by (rule suffix_order.trans)
    show ?thesis
      using bounds suffix_length_le [OF r'] assms(1) suffix_ConsI [OF r'] Some p v
      by (auto intro!: lexed_between_token [of c "d # s'"] lexed_between_clean [of c "d # s'"] simp: s read_raw_string_def Let_def)
  qed
qed



lemma plain_token_between:
  assumes "read_plain_token L s es = Inr q" "suffix s u" "length u \<le> L" "s \<noteq> []"
  shows "lexed_between L u es q"
proof -
  obtain c r0 where s: "s = c # r0" using assms(4) by (cases s) auto
  note token = lexed_between_token [OF assms(2) [unfolded s] _ assms(3)]
    lexed_between_clean [OF assms(2) [unfolded s] _ assms(3)]
  have clean: "lexed_between L u es (Some k, r, es)"
    if "suffix r r0" "proper_token k" "tok_range k = text_range_of (L - length (c # r0)) (L - length r)" for k r
    using token(2) [of r k] that by simp
  have q: "read_plain_token L (c # r0) es = Inr q" using assms(1) s by simp
  note defs = read_plain_token_def Let_def bind_faulty_Inr_iff
  consider (ident) "is_identifier_start c" | (number) "\<not> is_identifier_start c" "is_number c"
    | (str) "\<not> is_identifier_start c" "\<not> is_number c" "c = CHR 0x22"
    | (single) "\<not> is_identifier_start c" "\<not> is_number c" "c \<noteq> CHR 0x22" by blast
  then show ?thesis
  proof cases
    case ident
    obtain t r where t: "take_identifier r0 = (t, r)" by fastforce
    then show ?thesis
      using q ident take_identifier_append [OF t] by (auto simp: defs suffix_def intro!: clean)
  next
    case number
    then show ?thesis using q by (auto simp: defs suffix_read_number intro!: clean)
  next
    case str
    obtain v closed r fs where v: "read_string_literal L r0 = (v, closed, r, fs)" by (metis prod_cases4)
    have "errors_within (L - length u) L fs"
      by (rule errors_read_string_literal [OF v])
        (use assms(3) suffix_length_le [OF assms(2)] s in simp)
    moreover have "suffix r r0" using v by (rule suffix_read_string_literal)
    ultimately show ?thesis
      using q str v assms(3) suffix_length_le [OF assms(2)] suffix_length_le [of r r0] s
      by (auto simp: defs intro!: token)
  next
    case single
    then show ?thesis using q by (auto simp: defs intro!: clean)
  qed
qed

text \<open>The whole step, by the recursion over comments.\<close>

lemma read_next_token_cases [consumes 1, case_names eof line block raw plain]:
  assumes "read_next_token L u es = x"
  obtains "skip_whitespace u = []" "x = Inr (None, [], es)"
  | s where "skip_whitespace u = CHR ''/'' # CHR ''/'' # s"
      "x = bind_faulty (skip_single_line_comment s) (\<lambda>r. read_next_token L r es)"
  | s r fs where "skip_whitespace u = CHR ''/'' # CHR ''*'' # s"
      "skip_multi_line_comment L s = (r, fs)" "x = read_next_token L r (es @ fs)"
  | "is_raw_string_literal_start (skip_whitespace u)" "x = Inr (read_raw_string L (skip_whitespace u) es)"
  | "skip_whitespace u \<noteq> []" "x = read_plain_token L (skip_whitespace u) es"
proof -
  have two: "\<exists>r. s = a # b # r" if "take 2 s = [a, b]" for s and a b :: char
    using that by (cases s; cases "tl s") auto
  note step = assms [unfolded read_next_token.simps [of L u es] Let_def]
  show ?thesis
  proof (cases "skip_whitespace u")
    case Nil
    then show ?thesis using that(1) step by auto
  next
    case (Cons c s)
    let ?s = "skip_whitespace u"
    have "\<not> is_ascii_whitespace (hd ?s)" "?s \<noteq> []"
      using Cons skip_whitespace_stops [OF Cons] by simp_all
    note step = step [simplified this if_False]
    consider (line) "is_single_line_comment_start ?s"
      | (block) "\<not> is_single_line_comment_start ?s" "is_multi_line_comment_start ?s"
      | (raw) "\<not> is_single_line_comment_start ?s" "\<not> is_multi_line_comment_start ?s" "is_raw_string_literal_start ?s"
      | (plain) "\<not> is_single_line_comment_start ?s" "\<not> is_multi_line_comment_start ?s" "\<not> is_raw_string_literal_start ?s"
      by blast
    then show ?thesis
    proof cases
      case line
      then obtain r where "?s = CHR ''/'' # CHR ''/'' # r"
        using two [of ?s "CHR ''/''" "CHR ''/''"] by (auto simp: is_single_line_comment_start_def)
      then show ?thesis using that(2) [of r] step line by simp
    next
      case block
      then obtain r where r: "?s = CHR ''/'' # CHR ''*'' # r"
        using two [of ?s "CHR ''/''" "CHR ''*''"] by (auto simp: is_multi_line_comment_start_def)
      obtain r' fs where "skip_multi_line_comment L r = (r', fs)" by fastforce
      then show ?thesis using that(3) [of r r' fs] step block r by simp
    next
      case raw
      then show ?thesis using that(4) step by simp
    next
      case plain
      then show ?thesis using that(5) step \<open>?s \<noteq> []\<close> by simp
    qed
  qed
qed

lemma suffix_below:
  assumes "suffix (c # d # s) u" "suffix r s"
  shows "suffix r u" "length r < length u"
  using assms by (auto simp: suffix_def)

lemma read_next_token_between:
  assumes "read_next_token L u es = Inr q" "length u \<le> L"
  shows "lexed_between L u es q"
  using assms
proof (induction "length u" arbitrary: u es rule: less_induct)
  case less
  have su: "suffix (skip_whitespace u) u" by (rule suffix_skip_whitespace)
  from less.prems(1) show ?case
  proof (cases rule: read_next_token_cases)
    case eof
    then show ?thesis using su by (simp add: lexed_between_def)
  next
    case (line s)
    then obtain r where r: "skip_single_line_comment s = Inr r" and q: "read_next_token L r es = Inr q"
      using line(2) [symmetric] by (auto simp: bind_faulty_Inr_iff)
    have sr: "suffix r u" "length r < length u"
      using suffix_below [OF su [unfolded line(1)] suffix_skip_single_line_comment [OF r]] by simp_all
    show ?thesis
      by (rule lexed_between_later [of L r es "[]"])
        (use less.hyps [OF sr(2) q] less.prems(2) sr in simp_all)
  next
    case (block s r fs)
    have sr: "suffix r u" "length r < length u"
      using suffix_below [OF su [unfolded block(1)] suffix_skip_multi_line_comment [OF block(2)]] by simp_all
    have "errors_within (L - length u) L fs"
      by (rule errors_skip_multi_line_comment [OF block(2)])
        (use less.prems(2) suffix_length_le [OF su] block(1) in simp)
    then show ?thesis
      using less.hyps [OF sr(2) block(3) [symmetric]] less.prems(2) sr lexed_between_later by simp
  next
    case raw
    then show ?thesis using lexed_between_raw_string [OF su less.prems(2)] by simp
  next
    case plain
    then show ?thesis using plain_token_between [OF _ su less.prems(2)] by simp
  qed
qed

section \<open>When the lexer fails\<close>

definition ends_line :: "string \<Rightarrow> bool" where
  "ends_line u \<longleftrightarrow> u = [] \<or> last u = CHR 0x0A"

lemma ends_line_suffix: "ends_line u \<Longrightarrow> suffix r u \<Longrightarrow> ends_line r"
  by (auto simp: ends_line_def suffix_def last_append split: if_splits)

lemma line_comment_ends: "s \<noteq> [] \<Longrightarrow> last s = CHR 0x0A \<Longrightarrow> \<exists>r. skip_single_line_comment s = Inr r"
  by (induction s) (auto simp: advance_char_def split: if_splits)

lemma line_comment_at_end:
  "CHR 0x0A \<notin> set s \<Longrightarrow> skip_single_line_comment s = Inl (Assertion_failed ''(end - pos) >= n'')"
  by (induction s) (auto simp: advance_char_def)

lemma read_number_fault: "read_number v s = Inl f \<Longrightarrow> f = Undefined_behaviour ''signed integer overflow''"
  by (induction v s rule: read_number.induct) (auto split: if_splits)

lemma plain_token_fault:
  "read_plain_token L s es = Inl f \<Longrightarrow> f = Undefined_behaviour ''signed integer overflow''"
  by (auto simp: read_plain_token_def Let_def bind_faulty_Inl_iff dest: read_number_fault
      split: if_splits prod.splits)

lemma read_next_token_fault:
  assumes "read_next_token L u es = Inl f" "ends_line u"
  shows "f = Undefined_behaviour ''signed integer overflow''"
  using assms
proof (induction "length u" arbitrary: u es rule: less_induct)
  case less
  have su: "suffix (skip_whitespace u) u" by (rule suffix_skip_whitespace)
  from less.prems(1) show ?case
  proof (cases rule: read_next_token_cases)
    case (line s)
    have "ends_line (CHR ''/'' # CHR ''/'' # s)"
      using ends_line_suffix [OF less.prems(2) su] line(1) by simp
    then obtain r where r: "skip_single_line_comment s = Inr r"
      using line_comment_ends [of s] by (auto simp: ends_line_def split: if_splits)
    note sr = suffix_below [OF su [unfolded line(1)] suffix_skip_single_line_comment [OF r]]
    show ?thesis
      by (rule less.hyps [OF sr(2) _ ends_line_suffix [OF less.prems(2) sr(1)]]) (use line(2) r in simp)
  next
    case (block s r fs)
    note sr = suffix_below [OF su [unfolded block(1)] suffix_skip_multi_line_comment [OF block(2)]]
    show ?thesis
      by (rule less.hyps [OF sr(2) block(3) [symmetric] ends_line_suffix [OF less.prems(2) sr(1)]])
  next
    case plain
    then show ?thesis using plain_token_fault by simp
  qed simp_all
qed

section \<open>Numbers\<close>

definition digits_value :: "int \<Rightarrow> string \<Rightarrow> int" where
  "digits_value = foldl (\<lambda>v c. v * 10 + char_to_number c)"

lemma digits_value_simps [simp]:
  "digits_value v [] = v"
  "digits_value v (c # s) = digits_value (v * 10 + char_to_number c) s"
  "digits_value v (s @ t) = digits_value (digits_value v s) t"
  by (simp_all add: digits_value_def)

lemma is_number_nat: "is_number c \<longleftrightarrow> 48 \<le> (of_char c :: nat) \<and> (of_char c :: nat) \<le> 57"
  by (simp add: is_number_def less_eq_char_def)

lemma char_to_number_int: "char_to_number c = int (of_char c) - 48"
  unfolding char_to_number_def by (subst of_nat_of_char [symmetric]) (rule refl)

lemma char_to_number_nonneg: "is_number c \<Longrightarrow> 0 \<le> char_to_number c"
  by (simp add: is_number_nat char_to_number_int)

lemma digits_value_ge: "\<forall>c \<in> set s. is_number c \<Longrightarrow> 0 \<le> v \<Longrightarrow> v \<le> digits_value v s"
proof (induction s arbitrary: v)
  case (Cons c s)
  have "0 \<le> char_to_number c" using Cons.prems by (simp add: char_to_number_nonneg)
  then show ?case using Cons.IH [of "v * 10 + char_to_number c"] Cons.prems by simp
qed simp

lemma read_number_digits:
  assumes "\<forall>c \<in> set ds. is_number c" "0 \<le> v" "v \<le> int_max" "rest = [] \<or> \<not> is_number (hd rest)"
  shows "read_number v (ds @ rest) =
    (if digits_value v ds \<le> int_max then Inr (digits_value v ds, rest)
     else Inl (Undefined_behaviour ''signed integer overflow''))"
  using assms
proof (induction ds arbitrary: v)
  case Nil
  then show ?case by (cases rest) simp_all
next
  case (Cons c ds)
  let ?v = "v * 10 + char_to_number c"
  have "0 \<le> ?v" using Cons.prems char_to_number_nonneg [of c] by simp
  moreover have "?v \<le> digits_value ?v ds"
    using Cons.prems calculation by (intro digits_value_ge) simp_all
  ultimately show ?case using Cons by auto
qed

lemma is_number_digit_char: "d < 10 \<Longrightarrow> is_number (digit_char d)"
  by (simp add: is_number_nat digit_char_def)

lemma char_to_number_digit: "d < 10 \<Longrightarrow> char_to_number (digit_char d) = int d"
  unfolding char_to_number_def digit_char_def
  by (subst of_nat_of_char [symmetric]) (simp only: of_char_of, simp)

lemma show_nat_digits: "\<forall>c \<in> set (show_nat n). is_number c"
  by (induction n rule: show_nat.induct) (subst show_nat.simps, simp add: is_number_digit_char)

lemma digits_value_show_nat: "digits_value 0 (show_nat n) = int n"
proof (induction n rule: show_nat.induct)
  case (1 n)
  show ?case
    using 1 by (subst show_nat.simps) (simp add: char_to_number_digit zdiv_int zmod_int)
qed

lemma show_nat_nonempty [simp]: "show_nat n \<noteq> []"
  by (subst show_nat.simps) simp


section \<open>Tokens written out\<close>

text \<open>A token without its position, and a text for it.\<close>

datatype symbol =
    Punctuation token_type
  | Name string
  | Number int
  | Text string

fun symbol_of :: "token \<Rightarrow> symbol" where
  "symbol_of (Simple_token r t) = Punctuation t"
| "symbol_of (Identifier_token i) = Name (id_text i)"
| "symbol_of (Integer_literal_token r v) = Number v"
| "symbol_of (String_literal_token r v) = Text v"

definition keyword_of :: "string \<Rightarrow> token_type option" where
  "keyword_of = map_of [(''task'', Tt_task_keyword), (''true'', Tt_true_keyword),
     (''false'', Tt_false_keyword), (''depends'', Tt_depends_keyword), (''run_level'', Tt_run_level_keyword)]"

fun print_type :: "token_type \<Rightarrow> string" where
  "print_type Tt_lbrace = ''{''"
| "print_type Tt_rbrace = ''}''"
| "print_type Tt_equals = ''=''"
| "print_type Tt_semicolon = '';''"
| "print_type Tt_comma = '',''"
| "print_type Tt_colon = '':''"
| "print_type Tt_task_keyword = ''task''"
| "print_type Tt_true_keyword = ''true''"
| "print_type Tt_false_keyword = ''false''"
| "print_type Tt_depends_keyword = ''depends''"
| "print_type Tt_run_level_keyword = ''run_level''"
| "print_type _ = []"

definition print_char :: "char \<Rightarrow> string" where
  "print_char c =
     (if c = CHR 0x0A then [CHR 0x5C, CHR ''n'']
      else if c \<in> {CHR 0x22, CHR 0x5C} then [CHR 0x5C, c]
      else [c])"

fun print_symbol :: "symbol \<Rightarrow> string" where
  "print_symbol (Punctuation t) = print_type t"
| "print_symbol (Name s) = s"
| "print_symbol (Number v) = show_nat (nat v)"
| "print_symbol (Text s) = CHR 0x22 # concat (map print_char s) @ [CHR 0x22]"

fun writable :: "symbol \<Rightarrow> bool" where
  "writable (Punctuation t) \<longleftrightarrow> print_type t \<noteq> []"
| "writable (Name s) \<longleftrightarrow> s \<noteq> [] \<and> is_identifier_start (hd s) \<and> list_all is_identifier_trail s \<and> keyword_of s = None"
| "writable (Number v) \<longleftrightarrow> 0 \<le> v \<and> v \<le> int_max"
| "writable (Text s) \<longleftrightarrow> True"

lemma read_string_literal_printed:
  "read_string_literal L (concat (map print_char s) @ CHR 0x22 # rest) = (s, True, rest, [])"
  by (induction s) (auto simp: print_char_def prepend_def escaped_def)

lemma take_identifier_all:
  assumes "list_all is_identifier_trail t" "rest = [] \<or> \<not> is_identifier_trail (hd rest)"
  shows "take_identifier (t @ rest) = (t, rest)"
  using assms
proof (induction t)
  case Nil
  then show ?case by (cases rest) simp_all
qed simp

lemma identifier_start_facts:
  assumes "is_identifier_start c"
  shows "is_identifier_trail c" "\<not> is_ascii_whitespace c" "c \<noteq> CHR ''/''" "\<not> is_number c"
  using assms by (auto simp: is_identifier_start_def is_identifier_trail_def is_ascii_whitespace_def
      is_number_def less_eq_char_def)

lemma number_facts:
  assumes "is_number c"
  shows "\<not> is_identifier_start c" "\<not> is_ascii_whitespace c" "c \<noteq> CHR ''/''" "c \<noteq> CHR ''R''"
  using assms by (auto simp: is_identifier_start_def is_ascii_whitespace_def is_number_def less_eq_char_def)

text \<open>A token that starts with a character that neither a comment nor a raw string starts with.\<close>

lemma read_next_token_plain:
  assumes "\<not> is_ascii_whitespace c" "c \<noteq> CHR ''/''" "\<not> is_raw_string_literal_start (c # s)"
  shows "read_next_token L (c # s) es = read_plain_token L (c # s) es"
  using assms by (subst read_next_token.simps) (auto simp: Let_def is_single_line_comment_start_def is_multi_line_comment_start_def)


text \<open>What may follow a token: nothing that could still belong to it.\<close>

definition separates :: "string \<Rightarrow> bool" where
  "separates rest \<longleftrightarrow> rest = [] \<or> (\<not> is_identifier_trail (hd rest) \<and> hd rest \<noteq> CHR 0x22)"

lemma is_number_trail: "is_number c \<Longrightarrow> is_identifier_trail c"
  by (simp add: is_number_def is_identifier_trail_def)

lemma not_raw:
  assumes "list_all is_identifier_trail s" "s \<noteq> []" "separates rest"
  shows "\<not> is_raw_string_literal_start (s @ rest)"
proof -
  have "\<not> is_identifier_trail (CHR 0x22)"
    by (simp add: is_identifier_trail_def less_eq_char_def)
  then show ?thesis
    using assms by (cases s; cases "tl s"; cases rest)
      (auto simp: is_raw_string_literal_start_def separates_def)
qed

lemma read_word:
  assumes "is_identifier_start c" "list_all is_identifier_trail s" "separates rest"
  shows "read_next_token L (c # s @ rest) es =
    Inr (Some (make_identifier_token (text_range_of (L - length (c # s @ rest)) (L - length rest)) (c # s)), rest, es)"
proof -
  have "\<not> is_raw_string_literal_start ((c # s) @ rest)"
    using assms identifier_start_facts(1) by (intro not_raw) auto
  moreover have "take_identifier (s @ rest) = (s, rest)"
    using assms by (intro take_identifier_all) (auto simp: separates_def)
  ultimately show ?thesis
    using assms identifier_start_facts [OF assms(1)]
    by (simp add: read_next_token_plain read_plain_token_def Let_def)
qed

lemma read_digits:
  assumes "is_number c" "\<forall>d \<in> set ds. is_number d" "rest = [] \<or> \<not> is_number (hd rest)"
  shows "read_next_token L (c # ds @ rest) es =
    (if digits_value 0 (c # ds) \<le> int_max
     then Inr (Some (Integer_literal_token (text_range_of (L - length (c # ds @ rest)) (L - length rest))
       (digits_value 0 (c # ds))), rest, es)
     else Inl (Undefined_behaviour ''signed integer overflow''))"
proof -
  have "char_to_number c \<le> int_max"
    using assms(1) by (simp add: is_number_nat char_to_number_int int_max_def)
  then show ?thesis
    using assms number_facts [OF assms(1)] char_to_number_nonneg [OF assms(1)]
    by (simp add: read_next_token_plain is_raw_string_literal_start_def read_plain_token_def Let_def read_number_digits)
qed

lemma read_string:
  "read_next_token L (CHR 0x22 # concat (map print_char s) @ CHR 0x22 # rest) es =
    Inr (Some (String_literal_token (text_range_of (L - Suc (length (concat (map print_char s) @ CHR 0x22 # rest)))
      (L - length rest)) s), rest, es)"
proof -
  have "\<not> is_ascii_whitespace (CHR 0x22)" "\<not> is_identifier_start (CHR 0x22)" "\<not> is_number (CHR 0x22)"
    by (simp_all add: is_ascii_whitespace_def is_identifier_start_def is_number_def less_eq_char_def)
  then show ?thesis
    by (simp add: read_next_token_plain is_raw_string_literal_start_def read_plain_token_def Let_def
        read_string_literal_printed)
qed

lemma read_punctuation:
  assumes "print_type t \<noteq> []" "\<not> is_identifier_start (hd (print_type t))"
  shows "read_next_token L (print_type t @ rest) es =
    Inr (Some (Simple_token (text_range_of (L - length (print_type t @ rest)) (L - length rest)) t), rest, es)"
  using assms by (cases t)
    (simp_all add: read_next_token_plain is_raw_string_literal_start_def read_plain_token_def Let_def
      is_ascii_whitespace_def is_identifier_start_def is_number_def less_eq_char_def punctuation_def)


lemma keyword_token:
  "keyword_of s = None \<Longrightarrow> symbol_of (make_identifier_token r s) = Name s"
  "keyword_of s = Some t \<Longrightarrow> symbol_of (make_identifier_token r s) = Punctuation t"
  by (auto simp: keyword_of_def make_identifier_token_def split: if_splits)

lemma keyword_printed:
  assumes "is_identifier_start (hd (print_type t))" "print_type t \<noteq> []"
  shows "keyword_of (print_type t) = Some t" "list_all is_identifier_trail (print_type t)"
proof -
  have "keyword_of (print_type t) = Some t \<and> list_all is_identifier_trail (print_type t)"
    using assms by (cases t) (simp_all add: keyword_of_def is_identifier_start_def is_identifier_trail_def less_eq_char_def)
  then show "keyword_of (print_type t) = Some t" "list_all is_identifier_trail (print_type t)" by simp_all
qed

definition token_at :: "nat \<Rightarrow> string \<Rightarrow> symbol \<Rightarrow> string \<Rightarrow> error_tag list \<Rightarrow> lexed faulty \<Rightarrow> bool" where
  "token_at L u y rest es x \<longleftrightarrow> (\<exists>k. x = Inr (Some k, rest, es) \<and> symbol_of k = y \<and>
     tok_range k = text_range_of (L - length u) (L - length rest))"

lemma token_at_word:
  assumes "is_identifier_start (hd s)" "s \<noteq> []" "list_all is_identifier_trail s" "separates rest"
  shows "token_at L (s @ rest) (case keyword_of s of None \<Rightarrow> Name s | Some t \<Rightarrow> Punctuation t) rest es
    (read_next_token L (s @ rest) es)"
  using assms by (cases s) (auto simp: token_at_def read_word keyword_token split: option.split)

lemma read_printed_symbol:
  assumes "writable y" "separates rest"
  shows "token_at L (print_symbol y @ rest) y rest es (read_next_token L (print_symbol y @ rest) es)"
proof (cases y)
  case (Punctuation t)
  then show ?thesis
    using token_at_word [of "print_type t" rest L es] keyword_printed [of t] assms read_punctuation [of t L rest es]
    by (cases "is_identifier_start (hd (print_type t))") (auto simp: token_at_def)
next
  case (Name s)
  then show ?thesis using token_at_word [of s rest L es] assms by simp
next
  case (Number v)
  obtain c ds where digits: "show_nat (nat v) = c # ds" using show_nat_nonempty by (cases "show_nat (nat v)") auto
  have "rest = [] \<or> \<not> is_number (hd rest)"
    using assms(2) is_number_trail by (auto simp: separates_def)
  then show ?thesis
    using read_digits [of c ds rest L es] show_nat_digits [of "nat v"] digits_value_show_nat [of "nat v"] assms(1) Number
    by (simp add: digits token_at_def)
next
  case (Text s)
  then show ?thesis using read_string [of L s rest es] by (simp add: token_at_def)
qed

section \<open>Layout\<close>

text \<open>What may stand between tokens: white space and comments.\<close>

datatype filler = Blank string | Line_comment string | Block_comment string

fun print_filler :: "filler \<Rightarrow> string" where
  "print_filler (Blank s) = s"
| "print_filler (Line_comment s) = CHR ''/'' # CHR ''/'' # s @ [CHR 0x0A]"
| "print_filler (Block_comment s) = CHR ''/'' # CHR ''*'' # s @ [CHR ''*'', CHR ''/'']"

fun fills :: "filler \<Rightarrow> bool" where
  "fills (Blank s) \<longleftrightarrow> list_all is_ascii_whitespace s"
| "fills (Line_comment s) \<longleftrightarrow> CHR 0x0A \<notin> set s"
| "fills (Block_comment s) \<longleftrightarrow> \<not> sublist ''*/'' s"

abbreviation print_gap :: "filler list \<Rightarrow> string" where
  "print_gap fs \<equiv> concat (map print_filler fs)"

lemma skip_whitespace_blank: "list_all is_ascii_whitespace s \<Longrightarrow> skip_whitespace (s @ u) = skip_whitespace u"
  by (induction s) auto

lemma skip_line_comment_body:
  "CHR 0x0A \<notin> set s \<Longrightarrow> skip_single_line_comment (s @ CHR 0x0A # u) = Inr u"
  by (induction s) (auto simp: advance_char_def)

lemma skip_block_comment_body:
  "\<not> sublist ''*/'' s \<Longrightarrow> skip_multi_line_comment L (s @ CHR ''*'' # CHR ''/'' # u) = (u, [])"
proof (induction s)
  case (Cons c s)
  have "\<not> is_multi_line_comment_end (c # s @ CHR ''*'' # CHR ''/'' # u)"
  proof (cases s)
    case (Cons d s')
    then show ?thesis
      using Cons.prems prefix_imp_sublist [of "''*/''" "c # s"] by (auto simp: is_multi_line_comment_end_def)
  qed (simp add: is_multi_line_comment_end_def)
  moreover have "\<not> sublist ''*/'' s" using Cons.prems by (simp add: sublist_Cons_right)
  ultimately show ?case using Cons.IH by simp
qed (simp add: is_multi_line_comment_end_def)

lemma not_whitespace_slash [simp]: "\<not> is_ascii_whitespace (CHR ''/'')"
  by (simp add: is_ascii_whitespace_def less_eq_char_def)

lemma read_next_token_filler:
  assumes "fills f"
  shows "read_next_token L (print_filler f @ u) es = read_next_token L u es"
proof (cases f)
  case (Blank s)
  then have "skip_whitespace (print_filler f @ u) = skip_whitespace u"
    using assms by (simp add: skip_whitespace_blank)
  then show ?thesis
    by (subst (1 2) read_next_token.simps) (simp only: Let_def)
next
  case (Line_comment s)
  then show ?thesis
    using assms by (subst read_next_token.simps) (simp add: Let_def is_single_line_comment_start_def skip_line_comment_body)
next
  case (Block_comment s)
  then show ?thesis
    using assms by (subst read_next_token.simps)
      (simp add: Let_def is_single_line_comment_start_def is_multi_line_comment_start_def skip_block_comment_body)
qed

lemma read_next_token_gap:
  "list_all fills fs \<Longrightarrow> read_next_token L (print_gap fs @ u) es = read_next_token L u es"
  by (induction fs) (simp_all add: read_next_token_filler)


fun print_layout :: "(filler list \<times> symbol) list \<Rightarrow> filler list \<Rightarrow> string" where
  "print_layout [] end_gap = print_gap end_gap"
| "print_layout ((fs, y) # l) end_gap = print_gap fs @ print_symbol y @ print_layout l end_gap"

text \<open>Every token can be read back, and something stands between any two of them.\<close>

definition layout_ok :: "(filler list \<times> symbol) list \<Rightarrow> filler list \<Rightarrow> bool" where
  "layout_ok l end_gap \<longleftrightarrow> list_all (\<lambda>(fs, y). list_all fills fs \<and> writable y) l \<and>
     list_all fills end_gap \<and> list_all (\<lambda>(fs, y). print_gap fs \<noteq> []) (tl l)"

lemma separates_simps [simp]: "separates []" "separates (c # s) \<longleftrightarrow> \<not> is_identifier_trail c \<and> c \<noteq> CHR 0x22"
  by (simp_all add: separates_def)

lemma whitespace_separates: "is_ascii_whitespace c \<Longrightarrow> separates (c # s)"
  by (auto simp: is_ascii_whitespace_def is_identifier_trail_def less_eq_char_def)

lemma filler_separates:
  assumes "fills f" "print_filler f \<noteq> []"
  shows "separates (print_filler f @ u)"
proof (cases f)
  case (Blank s)
  then show ?thesis using assms whitespace_separates by (cases s) auto
qed (simp_all add: is_identifier_trail_def less_eq_char_def)

lemma gap_separates:
  assumes "list_all fills fs" "print_gap fs = [] \<Longrightarrow> separates u"
  shows "separates (print_gap fs @ u)"
  using assms
proof (induction fs)
  case (Cons f fs)
  then show ?case
    using filler_separates [of f "print_gap fs @ u"] by (cases "print_filler f = []") auto
qed simp

lemma layout_separates:
  assumes "layout_ok ((fs, y) # l) end_gap"
  shows "separates (print_layout l end_gap)"
proof (cases l)
  case Nil
  then show ?thesis using assms gap_separates [of end_gap "[]"] by (auto simp: layout_ok_def)
next
  case (Cons x l')
  then show ?thesis
    using assms gap_separates by (cases x) (auto simp: layout_ok_def)
qed

lemma layout_ok_tl: "layout_ok (x # l) end_gap \<Longrightarrow> layout_ok l end_gap"
  by (cases l) (auto simp: layout_ok_def)

section \<open>The tokens a lexer will yield\<close>

fun yields :: "lexer \<Rightarrow> symbol list \<Rightarrow> bool" where
  "yields lx [] \<longleftrightarrow> lx_token lx = None"
| "yields lx (y # ys) \<longleftrightarrow> (\<exists>k lx'. lx_token lx = Some k \<and> symbol_of k = y \<and>
     advance_token lx = Inr lx' \<and> lx_errors lx' = lx_errors lx \<and> yields lx' ys)"

lemma advance_reads_layout:
  assumes "layout_ok l end_gap" "lx_rest lx = print_layout l end_gap"
  shows "\<exists>lx'. advance_token lx = Inr lx' \<and> lx_errors lx' = lx_errors lx \<and> yields lx' (map snd l)"
  using assms
proof (induction l arbitrary: lx)
  case Nil
  then have "read_next_token (length (lx_text lx)) (lx_rest lx) (lx_errors lx) = Inr (None, [], lx_errors lx)"
    using read_next_token_gap [of end_gap _ "[]"]
    by (simp add: layout_ok_def) (simp add: read_next_token.simps)
  then show ?case by (simp add: advance_token_def)
next
  case (Cons x l)
  obtain fs y where x: "x = (fs, y)" by fastforce
  let ?u = "print_layout l end_gap"
  have ok: "list_all fills fs" "writable y" using Cons.prems(1) by (auto simp: layout_ok_def x)
  note at = read_printed_symbol [OF ok(2) layout_separates [OF Cons.prems(1) [unfolded x]]]
  obtain k where k: "read_next_token (length (lx_text lx)) (lx_rest lx) (lx_errors lx) = Inr (Some k, ?u, lx_errors lx)"
    "symbol_of k = y"
    using at [of "length (lx_text lx)" "lx_errors lx"] ok(1)
    by (auto simp: token_at_def Cons.prems(2) x read_next_token_gap)
  let ?lx = "lx\<lparr>lx_rest := ?u, lx_token := Some k\<rparr>"
  have adv: "advance_token lx = Inr ?lx" using k(1) by (simp add: advance_token_def)
  show ?case
    using Cons.IH [OF layout_ok_tl [OF Cons.prems(1)], of ?lx] k(2) adv by (auto simp: x)
qed

lemma new_lexer_reads_layout:
  assumes "layout_ok l end_gap"
  shows "\<exists>lx. new_lexer (print_layout l end_gap) sink = Inr lx \<and> lx_errors lx = sink \<and> yields lx (map snd l)"
  using advance_reads_layout [OF assms, of "\<lparr>lx_text = print_layout l end_gap, lx_rest = print_layout l end_gap,
    lx_token = None, lx_errors = sink\<rparr>"] by (auto simp: new_lexer_def)

end
