(* ===== verification/Parser.thy ===== *)
theory Parser
  imports Lexer_Facts
begin

text \<open>
  The parser of the configuration language, \<^verbatim>\<open>libinitd-readconfig/parser/parser.cpp\<close>: the
  nodes of the syntax tree, with a missing value or name as None where the code keeps a null
  pointer, the parsing functions with their error recovery, and the suppression of a second
  error at the same place. Loops recurse on fuel; \<open>Parser_Facts\<close> shows that the fuel given is
  never used up.
\<close>

section \<open>The syntax tree\<close>

datatype value_node =
    Integer_node text_range int
  | String_node text_range string
  | Boolean_node text_range bool
  | Pseudo_identifier_node identifier_token
  | Struct_node identifier_token "property_node list"
and property_node = Property_node identifier_token text_range "value_node option"

fun value_range :: "value_node \<Rightarrow> text_range" where
  "value_range (Integer_node r v) = r"
| "value_range (String_node r v) = r"
| "value_range (Boolean_node r v) = r"
| "value_range (Pseudo_identifier_node i) = id_range i"
| "value_range (Struct_node i ps) = id_range i"

fun prop_key :: "property_node \<Rightarrow> identifier_token" where
  "prop_key (Property_node k eq v) = k"

fun prop_eq :: "property_node \<Rightarrow> text_range" where
  "prop_eq (Property_node k eq v) = eq"

fun prop_value :: "property_node \<Rightarrow> value_node option" where
  "prop_value (Property_node k eq v) = v"

text \<open>The index that the constructor of \<^verbatim>\<open>struct_node\<close> builds.\<close>

definition properties_by_name :: "property_node list \<Rightarrow> (string, property_node) multimap" where
  "properties_by_name ps = foldl (\<lambda>m p. mm_insert (id_text (prop_key p)) p m) [] ps"

record task_node =
  tn_name :: identifier_token
  tn_value :: "value_node option"

record dependency_node =
  dn_dependant :: identifier_token
  dn_dependencies :: "identifier_token list"

record run_level_node =
  rn_name :: "identifier_token option"
  rn_dependencies :: "identifier_token list"

record top_level_node =
  top_tasks :: "task_node list"
  top_dependencies :: "dependency_node list"
  top_run_levels :: "run_level_node list"

section \<open>The state of the parser\<close>

record parser =
  ps_lexer :: lexer
  ps_last_error :: "nat option"

type_synonym 'a parsing = "parser \<Rightarrow> ('a \<times> parser) faulty"

definition pbind :: "'a parsing \<Rightarrow> ('a \<Rightarrow> 'b parsing) \<Rightarrow> 'b parsing" where
  "pbind m f p = bind_faulty (m p) (\<lambda>(x, q). f x q)"

definition preturn :: "'a \<Rightarrow> 'a parsing" where
  "preturn x p = Inr (x, p)"

definition tt :: "parser \<Rightarrow> token_type" where
  "tt p = (case lx_token (ps_lexer p) of None \<Rightarrow> Tt_eof | Some k \<Rightarrow> tok_type k)"

text \<open>An error is reported before the white space in front of the lookahead token.\<close>

fun before_whitespace :: "string \<Rightarrow> nat \<Rightarrow> nat" where
  "before_whitespace text 0 = 0"
| "before_whitespace text (Suc n) =
     (if is_ascii_whitespace (text ! n) then before_whitespace text n else Suc n)"

definition error_place :: "parser \<Rightarrow> nat" where
  "error_place p =
     before_whitespace (lx_text (ps_lexer p))
       (case lx_token (ps_lexer p) of
          None \<Rightarrow> length (lx_text (ps_lexer p))
        | Some k \<Rightarrow> range_start (tok_range k))"

definition parse_error :: "string \<Rightarrow> parser \<Rightarrow> parser" where
  "parse_error msg p =
     (if ps_last_error p \<noteq> Some (error_place p)
      then p\<lparr>ps_lexer := push_error (error_tag_of (make_empty (error_place p)) msg) (ps_lexer p),
             ps_last_error := Some (error_place p)\<rparr>
      else p)"

definition report :: "string \<Rightarrow> unit parsing" where
  "report msg p = Inr ((), parse_error msg p)"

definition next_token :: "token option parsing" where
  "next_token p = bind_faulty (read_token (ps_lexer p)) (\<lambda>(k, lx). Inr (k, p\<lparr>ps_lexer := lx\<rparr>))"

definition quoted :: "string \<Rightarrow> string" where
  "quoted s = CHR 0x27 # s @ [CHR 0x27]"

fun token_error_msg :: "token_type \<Rightarrow> string" where
  "token_error_msg Tt_identifier = ''expected identifier''"
| "token_error_msg Tt_integer_literal = ''expected integer literal''"
| "token_error_msg Tt_string_literal = ''expected string literal''"
| "token_error_msg Tt_lbrace = ''expected '' @ quoted ''{''"
| "token_error_msg Tt_rbrace = ''expected '' @ quoted ''}''"
| "token_error_msg Tt_equals = ''expected '' @ quoted ''=''"
| "token_error_msg Tt_semicolon = ''expected '' @ quoted '';''"
| "token_error_msg Tt_comma = ''expected '' @ quoted '',''"
| "token_error_msg Tt_colon = ''expected '' @ quoted '':''"
| "token_error_msg Tt_task_keyword = ''expected '' @ quoted ''task'' @ '' keyword''"
| "token_error_msg Tt_true_keyword = ''expected '' @ quoted ''true'' @ '' keyword''"
| "token_error_msg Tt_false_keyword = ''expected '' @ quoted ''false'' @ '' keyword''"
| "token_error_msg Tt_depends_keyword = ''expected '' @ quoted ''depends'' @ '' keyword''"
| "token_error_msg Tt_run_level_keyword = ''expected '' @ quoted ''run_level'' @ '' keyword''"
| "token_error_msg _ = []"

definition expect_token_msg :: "token_type \<Rightarrow> string \<Rightarrow> token option parsing" where
  "expect_token_msg t msg p = (if tt p = t then next_token p else pbind (report msg) (\<lambda>_. preturn None) p)"

definition expect_token :: "token_type \<Rightarrow> token option parsing" where
  "expect_token t = expect_token_msg t (token_error_msg t)"

text \<open>
  \<^verbatim>\<open>assert_token\<close>: the token read is used without a check for the end of the text.
\<close>

definition assert_token :: "token_type \<Rightarrow> token parsing" where
  "assert_token t p = pbind next_token (\<lambda>k q.
     (case k of
        None \<Rightarrow> Inl (Undefined_behaviour ''null token'')
      | Some k \<Rightarrow> (if tok_type k = t then Inr (k, q) else Inl (Assertion_failed ''t->get_type() == type'')))) p"

text \<open>The conversion of a token to the class that its type stands for.\<close>

fun as_identifier :: "token \<Rightarrow> identifier_token option" where
  "as_identifier (Identifier_token i) = Some i"
| "as_identifier _ = None"

definition expect_identifier :: "string \<Rightarrow> identifier_token option parsing" where
  "expect_identifier msg =
     pbind (expect_token_msg Tt_identifier msg) (\<lambda>k. preturn (Option.bind k as_identifier))"

fun literal_node :: "token \<Rightarrow> value_node option" where
  "literal_node (Integer_literal_token r v) = Some (Integer_node r v)"
| "literal_node (String_literal_token r v) = Some (String_node r v)"
| "literal_node (Simple_token r t) =
     (if t = Tt_true_keyword then Some (Boolean_node r True)
      else if t = Tt_false_keyword then Some (Boolean_node r False) else None)"
| "literal_node (Identifier_token i) = None"

section \<open>The grammar\<close>

definition cons_option :: "'a option \<Rightarrow> 'a list \<Rightarrow> 'a list" where
  "cons_option x xs = (case x of None \<Rightarrow> xs | Some y \<Rightarrow> y # xs)"

text \<open>A property without its equals sign is dropped; one without a value is kept.\<close>

definition property_of :: "token \<Rightarrow> token option \<Rightarrow> value_node option \<Rightarrow> property_node option" where
  "property_of key eq v =
     (case (as_identifier key, eq) of
        (Some k, Some e) \<Rightarrow> Some (Property_node k (tok_range e) v)
      | _ \<Rightarrow> None)"

fun parse_value :: "nat \<Rightarrow> value_node option parsing"
and parse_properties :: "nat \<Rightarrow> property_node list parsing"
and parse_property :: "nat \<Rightarrow> property_node option parsing" where
  "parse_value 0 p = Inl Out_of_fuel"
| "parse_value (Suc n) p =
     (let t = tt p in
      if t \<in> {Tt_integer_literal, Tt_string_literal, Tt_true_keyword, Tt_false_keyword} then
        pbind (assert_token t) (\<lambda>lit. preturn (literal_node lit)) p
      else if t = Tt_identifier then
        pbind (expect_identifier ''expected value tag'') (\<lambda>tag q.
          if tt q \<noteq> Tt_lbrace then preturn (map_option Pseudo_identifier_node tag) q
          else pbind (expect_token Tt_lbrace) (\<lambda>lbrace.
            (if lbrace \<noteq> None then
               pbind (parse_properties n) (\<lambda>ps.
               pbind (expect_token Tt_rbrace) (\<lambda>rbrace.
               preturn (map_option (\<lambda>i. Struct_node i ps) tag)))
             else preturn None)) q) p
      else pbind (report ''expected value'') (\<lambda>_. preturn None) p)"
| "parse_properties 0 p = Inl Out_of_fuel"
| "parse_properties (Suc n) p =
     (let t = tt p in
      if t = Tt_eof then preturn [] p
      else if t = Tt_rbrace then preturn [] p
      else if t = Tt_identifier then
        pbind (parse_property n) (\<lambda>prop.
        pbind (\<lambda>q. if tt q \<noteq> Tt_rbrace then expect_token Tt_comma q else preturn None q) (\<lambda>_.
        pbind (parse_properties n) (\<lambda>ps.
        preturn (cons_option prop ps)))) p
      else
        pbind (report ''expected property'') (\<lambda>_.
        pbind next_token (\<lambda>_.
        parse_properties n)) p)"
| "parse_property 0 p = Inl Out_of_fuel"
| "parse_property (Suc n) p =
     pbind (assert_token Tt_identifier) (\<lambda>key.
     pbind (expect_token Tt_equals) (\<lambda>eq.
     pbind (parse_value n) (\<lambda>v.
     preturn (property_of key eq v)))) p"

text \<open>
  How much is left to be read: nothing when the lookahead is the end of the text. Every
  token that is read makes it smaller, so that three times as much fuel is enough.
\<close>

definition left_to_read :: "parser \<Rightarrow> nat" where
  "left_to_read p =
     (case lx_token (ps_lexer p) of None \<Rightarrow> 0 | Some k \<Rightarrow> Suc (length (lx_rest (ps_lexer p))))"

definition enough_fuel :: "parser \<Rightarrow> nat" where
  "enough_fuel p = Suc (3 * left_to_read p)"

definition parse_task :: "task_node option parsing" where
  "parse_task =
     pbind (assert_token Tt_task_keyword) (\<lambda>task_kw.
     pbind (expect_identifier ''expected task name'') (\<lambda>name.
     pbind (expect_token Tt_equals) (\<lambda>eq.
     pbind (\<lambda>p. parse_value (enough_fuel p) p) (\<lambda>v.
     pbind (expect_token Tt_semicolon) (\<lambda>semicolon.
     preturn (case (name, eq) of
         (Some i, Some e) \<Rightarrow> Some \<lparr>tn_name = i, tn_value = v\<rparr>
       | _ \<Rightarrow> None))))))"

text \<open>
  The loop over the names of a dependency declaration; that of a run level is the same.
\<close>

fun parse_identifiers :: "nat \<Rightarrow> identifier_token list parsing" where
  "parse_identifiers 0 p = Inl Out_of_fuel"
| "parse_identifiers (Suc n) p =
     pbind (expect_identifier (token_error_msg Tt_identifier)) (\<lambda>i q.
       let t = tt q in
       if t = Tt_eof then preturn (cons_option i []) q
       else if t = Tt_semicolon then preturn (cons_option i []) q
       else if t = Tt_comma then
         pbind next_token (\<lambda>_. pbind (parse_identifiers n) (\<lambda>is. preturn (cons_option i is))) q
       else if i = None then preturn [] q
       else pbind (report (''expected '' @ quoted '','' @ '' or '' @ quoted '';'')) (\<lambda>_.
         pbind (parse_identifiers n) (\<lambda>is. preturn (cons_option i is))) q) p"

definition parse_dependencies_declaration :: "dependency_node option parsing" where
  "parse_dependencies_declaration =
     pbind (assert_token Tt_identifier) (\<lambda>name.
     pbind (expect_token Tt_depends_keyword) (\<lambda>depends_kw.
     pbind (\<lambda>p. parse_identifiers (enough_fuel p) p) (\<lambda>is.
     pbind (expect_token Tt_semicolon) (\<lambda>_.
     preturn (map_option (\<lambda>i. \<lparr>dn_dependant = i, dn_dependencies = is\<rparr>) (as_identifier name))))))"

text \<open>The name of a run level may be missing: the node is built all the same.\<close>

definition parse_run_level :: "run_level_node parsing" where
  "parse_run_level =
     pbind (assert_token Tt_run_level_keyword) (\<lambda>run_level_kw.
     pbind (expect_identifier (token_error_msg Tt_identifier)) (\<lambda>name.
     pbind (expect_token Tt_colon) (\<lambda>colon.
     pbind (\<lambda>p. parse_identifiers (enough_fuel p) p) (\<lambda>is.
     pbind (expect_token Tt_semicolon) (\<lambda>_.
     preturn \<lparr>rn_name = name, rn_dependencies = is\<rparr>)))))"

fun parse_declarations :: "nat \<Rightarrow> top_level_node \<Rightarrow> top_level_node parsing" where
  "parse_declarations 0 tree p = Inl Out_of_fuel"
| "parse_declarations (Suc n) tree p =
     (let t = tt p in
      if t = Tt_eof then preturn tree p
      else if t = Tt_task_keyword then
        pbind parse_task (\<lambda>node. parse_declarations n
          (tree\<lparr>top_tasks := top_tasks tree @ cons_option node []\<rparr>)) p
      else if t = Tt_identifier then
        pbind parse_dependencies_declaration (\<lambda>node. parse_declarations n
          (tree\<lparr>top_dependencies := top_dependencies tree @ cons_option node []\<rparr>)) p
      else if t = Tt_run_level_keyword then
        pbind parse_run_level (\<lambda>node. parse_declarations n
          (tree\<lparr>top_run_levels := top_run_levels tree @ [node]\<rparr>)) p
      else
        pbind (report ''expected declaration'') (\<lambda>_.
        pbind next_token (\<lambda>_.
        parse_declarations n tree)) p)"

definition empty_top :: top_level_node where
  "empty_top = \<lparr>top_tasks = [], top_dependencies = [], top_run_levels = []\<rparr>"

text \<open>The tree, and the lexer with the errors of both.\<close>

definition parse_file :: "lexer \<Rightarrow> (top_level_node \<times> lexer) faulty" where
  "parse_file lx =
     (let p = \<lparr>ps_lexer = lx, ps_last_error = None\<rparr> in
      bind_faulty (parse_declarations (enough_fuel p) empty_top p) (\<lambda>(tree, q). Inr (tree, ps_lexer q)))"

definition parse_text :: "string \<Rightarrow> (top_level_node \<times> error_tag list) faulty" where
  "parse_text text =
     bind_faulty (new_lexer text []) (\<lambda>lx.
     bind_faulty (parse_file lx) (\<lambda>(tree, lx'). Inr (tree, lx_errors lx')))"

end
