(* ===== verification/Parser_Facts.thy ===== *)
theory Parser_Facts
  imports Parser
begin

text \<open>
  What the parser guarantees on every input: it ends and fails only where the lexer does,
  errors lie in the text, and a tree without errors has nothing missing.
\<close>

section \<open>Results of parsing functions\<close>

text \<open>
  A relation between the state before and after that holds on success; a failure is that of
  the lexer in a state so related, or the end of the fuel.
\<close>

definition stepping :: "(parser \<Rightarrow> parser \<Rightarrow> bool) \<Rightarrow> parser \<Rightarrow> ('a \<times> parser) faulty \<Rightarrow> bool" where
  "stepping R p r \<longleftrightarrow> (case r of
     Inr (x, q) \<Rightarrow> R p q
   | Inl f \<Rightarrow> f = Out_of_fuel \<or> (\<exists>q. R p q \<and> advance_token (ps_lexer q) = Inl f))"

lemma stepping_simps [simp]:
  "stepping R p (Inr (x, q)) \<longleftrightarrow> R p q"
  "stepping R p (Inl Out_of_fuel)"
  by (simp_all add: stepping_def)

lemma pbind_Inr_iff:
  "pbind m f p = Inr z \<longleftrightarrow> (\<exists>x q. m p = Inr (x, q) \<and> f x q = Inr z)"
  by (auto simp: pbind_def bind_faulty_Inr_iff)

lemma pbind_Inl_iff:
  "pbind m f p = Inl e \<longleftrightarrow> m p = Inl e \<or> (\<exists>x q. m p = Inr (x, q) \<and> f x q = Inl e)"
  by (auto simp: pbind_def bind_faulty_Inl_iff)

lemma preturn_apply [simp]: "preturn x p = Inr (x, p)"
  by (simp add: preturn_def)

lemma tt_parse_error [simp]: "tt (parse_error msg p) = tt p"
  by (simp add: parse_error_def tt_def push_error_def)

lemma tt_report: "report msg p = Inr (x, q) \<Longrightarrow> tt q = tt p"
  by (auto simp: report_def)

lemma report_apply: "report msg p = Inr ((), parse_error msg p)"
  by (simp add: report_def)

lemma pbind_apply:
  "m p = Inr (x, q) \<Longrightarrow> pbind m f p = f x q"
  "m p = Inl e \<Longrightarrow> pbind m f p = Inl e"
  by (simp_all add: pbind_def)

locale parser_relation =
  fixes R :: "parser \<Rightarrow> parser \<Rightarrow> bool"
  assumes R_refl: "R p p"
    and R_trans: "R p q \<Longrightarrow> R q r \<Longrightarrow> R p r"
    and R_advance: "lx_token (ps_lexer p) \<noteq> None \<Longrightarrow> advance_token (ps_lexer p) = Inr lx \<Longrightarrow> R p (p\<lparr>ps_lexer := lx\<rparr>)"
    and R_error: "R p (parse_error msg p)"
begin

lemma step_bind:
  assumes "stepping R p (m p)" "\<And>x q. m p = Inr (x, q) \<Longrightarrow> stepping R q (f x q)"
  shows "stepping R p (pbind m f p)"
proof (cases "m p")
  case (Inr z)
  obtain x q where z: "z = (x, q)" by fastforce
  have "R p q" "stepping R q (f x q)" using assms Inr z by auto
  then show ?thesis
    using Inr z by (cases "f x q") (auto simp: stepping_def pbind_apply intro: R_trans)
qed (use assms(1) in \<open>simp add: stepping_def pbind_apply\<close>)

lemma step_return: "stepping R p (preturn x p)"
  by (simp add: R_refl)

lemma step_report: "stepping R p (report msg p)"
  by (simp add: R_error report_apply)

lemma step_next: "tt p \<noteq> Tt_eof \<Longrightarrow> stepping R p (next_token p)"
  using R_advance [of p] R_refl [of p]
  by (cases "advance_token (ps_lexer p)")
    (auto simp: next_token_def read_token_def stepping_def tt_def split: option.splits)

lemma step_expect_msg: "t \<noteq> Tt_eof \<Longrightarrow> stepping R p (expect_token_msg t msg p)"
  by (auto simp: expect_token_msg_def R_refl intro: step_next step_bind step_report)

lemma step_expect: "t \<noteq> Tt_eof \<Longrightarrow> stepping R p (expect_token t p)"
  unfolding expect_token_def by (rule step_expect_msg)

lemma step_identifier: "stepping R p (expect_identifier msg p)"
  unfolding expect_identifier_def by (rule step_bind) (auto simp: R_refl intro: step_expect_msg)

lemma step_assert:
  assumes "tt p = t" "t \<noteq> Tt_eof"
  shows "stepping R p (assert_token t p)"
proof -
  obtain k where "lx_token (ps_lexer p) = Some k" "tok_type k = t"
    using assms by (auto simp: tt_def split: option.splits)
  then show ?thesis
    using R_advance [of p] R_refl [of p]
    by (cases "advance_token (ps_lexer p)")
      (auto simp: assert_token_def pbind_def next_token_def read_token_def stepping_def)
qed

lemmas steps = step_bind step_return step_next step_expect_msg step_expect step_identifier step_assert step_report

lemma step_value_all:
  "stepping R p (parse_value n p) \<and> stepping R p (parse_properties n p) \<and>
   (tt p = Tt_identifier \<longrightarrow> stepping R p (parse_property n p))"
proof (induction n arbitrary: p)
  case (Suc n)
  then have IH: "stepping R q (parse_value n q)" "stepping R q (parse_properties n q)"
    "tt q = Tt_identifier \<Longrightarrow> stepping R q (parse_property n q)" for q by simp_all
  show ?case
    by (auto simp: Let_def R_refl dest: tt_report intro!: steps IH split: if_splits)
qed simp

lemmas step_value = step_value_all [THEN conjunct1] step_value_all [THEN conjunct2, THEN conjunct1]

lemma step_identifiers: "stepping R p (parse_identifiers n p)"
  by (induction n arbitrary: p) (auto simp: Let_def R_refl dest: tt_report intro!: steps split: if_splits)

lemma step_declaration:
  "tt p = Tt_task_keyword \<Longrightarrow> stepping R p (parse_task p)"
  "tt p = Tt_identifier \<Longrightarrow> stepping R p (parse_dependencies_declaration p)"
  "tt p = Tt_run_level_keyword \<Longrightarrow> stepping R p (parse_run_level p)"
  unfolding parse_task_def parse_dependencies_declaration_def parse_run_level_def
  by (auto simp: R_refl intro!: steps step_value step_identifiers)

lemma step_declarations: "stepping R p (parse_declarations n tree p)"
proof (induction n arbitrary: p tree)
  case (Suc n)
  show ?case
    by (auto simp: Let_def R_refl dest: tt_report intro!: steps step_declaration Suc.IH split: if_splits)
qed simp

end

section \<open>Progress\<close>

text \<open>A lexer as its constructor and every step leave it.\<close>

definition valid_lexer :: "lexer \<Rightarrow> bool" where
  "valid_lexer lx \<longleftrightarrow> suffix (lx_rest lx) (lx_text lx) \<and>
     (\<forall>k. lx_token lx = Some k \<longrightarrow> proper_token k \<and> range_start (tok_range k) < range_end (tok_range k) \<and>
        range_end (tok_range k) = length (lx_text lx) - length (lx_rest lx))"

text \<open>An error that is suppressed has been reported before.\<close>

definition valid :: "parser \<Rightarrow> bool" where
  "valid p \<longleftrightarrow> valid_lexer (ps_lexer p) \<and> (ps_last_error p \<noteq> None \<longrightarrow> lx_errors (ps_lexer p) \<noteq> [])"

definition lexer_step :: "lexer \<Rightarrow> lexer \<Rightarrow> bool" where
  "lexer_step lx lx' \<longleftrightarrow> lx_text lx' = lx_text lx \<and>
     (\<exists>fs. lx_errors lx' = lx_errors lx @ fs \<and> errors_within 0 (length (lx_text lx)) fs)"

definition progress_of :: "parser \<Rightarrow> parser \<Rightarrow> bool" where
  "progress_of p q \<longleftrightarrow> (valid p \<longrightarrow> valid q \<and> lexer_step (ps_lexer p) (ps_lexer q) \<and>
     left_to_read q \<le> left_to_read p)"

lemma advance_token_step:
  assumes "advance_token lx = Inr lx'" "suffix (lx_rest lx) (lx_text lx)"
  shows "valid_lexer lx'" "lexer_step lx lx'"
    "(case lx_token lx' of None \<Rightarrow> 0 | Some k \<Rightarrow> Suc (length (lx_rest lx'))) \<le> length (lx_rest lx)"
proof -
  obtain t r es where q: "read_next_token (length (lx_text lx)) (lx_rest lx) (lx_errors lx) = Inr (t, r, es)"
    and lx': "lx' = lx\<lparr>lx_rest := r, lx_token := t, lx_errors := es\<rparr>"
    using assms(1) by (auto simp: advance_token_def bind_faulty_Inr_iff)
  have b: "lexed_between (length (lx_text lx)) (lx_rest lx) (lx_errors lx) (t, r, es)"
    by (rule read_next_token_between [OF q]) (rule suffix_length_le [OF assms(2)])
  then show "valid_lexer lx'" "lexer_step lx lx'"
    using assms(2) by (auto simp: lx' valid_lexer_def lexer_step_def lexed_between_def
        intro: suffix_order.trans errors_within_mono split: option.splits)
  show "(case lx_token lx' of None \<Rightarrow> 0 | Some k \<Rightarrow> Suc (length (lx_rest lx'))) \<le> length (lx_rest lx)"
    using b by (auto simp: lx' lexed_between_def split: option.splits)
qed

lemma lexer_step_refl: "lexer_step lx lx"
  by (simp add: lexer_step_def)

lemma lexer_step_trans: "lexer_step a b \<Longrightarrow> lexer_step b c \<Longrightarrow> lexer_step a c"
  by (auto simp: lexer_step_def)

lemma before_whitespace_le: "before_whitespace u n \<le> n"
  by (induction n) auto

lemma error_place_le:
  assumes "valid p"
  shows "error_place p \<le> length (lx_text (ps_lexer p))"
proof -
  have "range_start (tok_range k) \<le> length (lx_text (ps_lexer p))" if "lx_token (ps_lexer p) = Some k" for k
    using assms that by (auto simp: valid_def valid_lexer_def)
  then show ?thesis
    unfolding error_place_def
    by (intro order.trans [OF before_whitespace_le]) (simp split: option.split)
qed

lemma parse_error_step:
  assumes "valid p"
  shows "valid (parse_error msg p)" "lexer_step (ps_lexer p) (ps_lexer (parse_error msg p))"
    "lx_errors (ps_lexer (parse_error msg p)) \<noteq> []"
  using assms error_place_le [OF assms]
  by (auto simp: parse_error_def valid_def valid_lexer_def lexer_step_def push_error_def make_empty_def)

lemma parse_error_keeps [simp]: "left_to_read (parse_error msg p) = left_to_read p"
  by (cases "lx_token (ps_lexer p)") (simp_all add: parse_error_def left_to_read_def push_error_def)

interpretation prog: parser_relation progress_of
proof
  show "progress_of p p" for p by (simp add: progress_of_def lexer_step_refl)
  show "progress_of p q \<Longrightarrow> progress_of q r \<Longrightarrow> progress_of p r" for p q r
    by (auto simp: progress_of_def intro: lexer_step_trans)
  show "progress_of p (parse_error msg p)" for msg p
    by (simp add: progress_of_def parse_error_step)
  show "progress_of p (p\<lparr>ps_lexer := lx\<rparr>)"
    if "lx_token (ps_lexer p) \<noteq> None" "advance_token (ps_lexer p) = Inr lx" for p lx
    using that advance_token_step [OF that(2)]
    by (auto simp: progress_of_def valid_def valid_lexer_def left_to_read_def lexer_step_def split: option.splits)
qed

text \<open>Reading a token that is there makes strict progress.\<close>

lemma next_token_less:
  assumes "next_token p = Inr (k, q)" "valid p" "tt p \<noteq> Tt_eof"
  shows "left_to_read q < left_to_read p"
  using assms advance_token_step(3) [of "ps_lexer p"]
  by (auto simp: next_token_def read_token_def bind_faulty_Inr_iff left_to_read_def tt_def valid_def valid_lexer_def
      split: option.splits)

lemma expect_token_less:
  assumes "expect_token_msg t msg p = Inr (k, q)" "valid p" "tt p = t" "t \<noteq> Tt_eof"
  shows "left_to_read q < left_to_read p"
  using assms next_token_less by (simp add: expect_token_msg_def)

lemma assert_token_less:
  assumes "assert_token t p = Inr (k, q)" "valid p" "tt p = t" "t \<noteq> Tt_eof"
  shows "left_to_read q < left_to_read p"
  using assms next_token_less by (auto simp: assert_token_def pbind_Inr_iff split: option.splits if_splits)

lemma stepping_progress:
  assumes "stepping progress_of p y" "y = Inr (x, q)" "valid p"
  shows "valid q" "left_to_read q \<le> left_to_read p" "lexer_step (ps_lexer p) (ps_lexer q)"
  using assms by (auto simp: progress_of_def)


section \<open>The fuel is enough\<close>

definition fueled :: "'a faulty \<Rightarrow> bool" where
  "fueled r \<longleftrightarrow> r \<noteq> Inl Out_of_fuel"

lemma fueled_bind:
  assumes "fueled (m p)" "\<And>x q. m p = Inr (x, q) \<Longrightarrow> fueled (f x q)"
  shows "fueled (pbind m f p)"
  using assms by (auto simp: fueled_def pbind_Inl_iff)

lemma fueled_simps [simp]: "fueled (Inr z)" "fueled (preturn x p)" "fueled (report msg p)"
  by (simp_all add: fueled_def report_apply)

lemma skip_line_fueled: "skip_single_line_comment s \<noteq> Inl Out_of_fuel"
  by (induction s) (auto simp: advance_char_def)

lemma read_next_token_fueled: "read_next_token L u es \<noteq> Inl Out_of_fuel"
proof (induction "length u" arbitrary: u es rule: less_induct)
  case less
  have su: "suffix (skip_whitespace u) u" by (rule suffix_skip_whitespace)
  show ?case
  proof
    assume "read_next_token L u es = Inl Out_of_fuel"
    then show False
    proof (cases rule: read_next_token_cases)
      case (line s)
      then obtain r where r: "skip_single_line_comment s = Inr r" "read_next_token L r es = Inl Out_of_fuel"
        using skip_line_fueled [of s] by (cases "skip_single_line_comment s") simp_all
      then show False
        using less suffix_below(2) [OF su [unfolded line(1)] suffix_skip_single_line_comment [OF r(1)]] by blast
    next
      case (block s r fs)
      then show False
        using less suffix_below(2) [OF su [unfolded block(1)] suffix_skip_multi_line_comment [OF block(2)]] by metis
    next
      case plain
      then show False using plain_token_fault [OF plain(2) [symmetric]] by simp
    qed simp_all
  qed
qed

lemma next_token_fueled: "fueled (next_token p)"
  using read_next_token_fueled
  by (auto simp: fueled_def next_token_def read_token_def advance_token_def bind_faulty_Inl_iff)

lemma expect_msg_fueled: "fueled (expect_token_msg t msg p)"
  by (auto simp: expect_token_msg_def intro: next_token_fueled fueled_bind)

lemma expect_fueled: "fueled (expect_token t p)"
  by (simp add: expect_token_def expect_msg_fueled)

lemma identifier_fueled: "fueled (expect_identifier msg p)"
  unfolding expect_identifier_def by (rule fueled_bind) (simp_all add: expect_msg_fueled)

lemma assert_fueled: "fueled (assert_token t p)"
  unfolding assert_token_def by (rule fueled_bind) (auto simp: next_token_fueled fueled_def [of "Inl _"] split: option.splits)

lemmas fueled_steps = fueled_bind next_token_fueled expect_msg_fueled expect_fueled identifier_fueled assert_fueled

lemma identifier_progress:
  assumes "expect_identifier msg p = Inr (i, q)" "valid p"
  shows "valid q" "left_to_read q \<le> left_to_read p" "tt p = Tt_identifier \<Longrightarrow> left_to_read q < left_to_read p"
    "i \<noteq> None \<Longrightarrow> tt p = Tt_identifier"
proof -
  show "valid q" "left_to_read q \<le> left_to_read p"
    using stepping_progress [OF prog.step_identifier assms] by simp_all
  obtain k where k: "expect_token_msg Tt_identifier msg p = Inr (k, q)" "i = Option.bind k as_identifier"
    using assms(1) by (auto simp: expect_identifier_def pbind_Inr_iff)
  show "left_to_read q < left_to_read p" if "tt p = Tt_identifier"
    using expect_token_less [OF k(1) assms(2) that] by simp
  show "tt p = Tt_identifier" if "i \<noteq> None"
    using k that by (auto simp: expect_token_msg_def pbind_Inr_iff split: if_splits)
qed

lemma expect_progress:
  assumes "expect_token t p = Inr (k, q)" "valid p" "t \<noteq> Tt_eof"
  shows "valid q" "left_to_read q \<le> left_to_read p" "tt p = t \<Longrightarrow> left_to_read q < left_to_read p"
  using stepping_progress [OF prog.step_expect [OF assms(3)] assms(1,2)] expect_token_less assms
  by (auto simp: expect_token_def)

lemma assert_progress:
  assumes "assert_token t p = Inr (k, q)" "valid p" "tt p = t" "t \<noteq> Tt_eof"
  shows "valid q" "left_to_read q < left_to_read p"
  using stepping_progress [OF prog.step_assert [OF assms(3,4)] assms(1,2)] assert_token_less [OF assms] by simp_all

lemma property_progress:
  assumes "parse_property n p = Inr (x, q)" "valid p" "tt p = Tt_identifier"
  shows "valid q" "left_to_read q < left_to_read p"
proof -
  obtain n' where n: "n = Suc n'" using assms(1) by (cases n) auto
  show "valid q"
    using stepping_progress(1) [OF prog.step_value_all [THEN conjunct2, THEN conjunct2, rule_format, OF assms(3)] assms(1,2)] .
  obtain key r where key: "assert_token Tt_identifier p = Inr (key, r)"
    and rest: "pbind (expect_token Tt_equals) (\<lambda>eq. pbind (parse_value n') (\<lambda>v. preturn (property_of key eq v))) r = Inr (x, q)"
    using assms(1) by (auto simp: n pbind_Inr_iff [of "assert_token Tt_identifier"])
  note r = assert_progress [OF key assms(2,3)]
  have "stepping progress_of r (Inr (x, q))"
    unfolding rest [symmetric] by (auto intro!: prog.steps prog.step_value)
  then show "left_to_read q < left_to_read p"
    using r by (auto simp: progress_of_def)
qed

lemma value_fuel:
  "valid p \<Longrightarrow>
    (3 * left_to_read p < n \<longrightarrow> fueled (parse_value n p) \<and> fueled (parse_properties n p)) \<and>
    (3 * left_to_read p \<le> n \<longrightarrow> tt p = Tt_identifier \<longrightarrow> fueled (parse_property n p))"
proof (induction n arbitrary: p)
  case 0
  then show ?case
    by (auto simp: left_to_read_def tt_def fueled_def split: option.splits)
next
  case (Suc n)
  have IH: "fueled (parse_value n q)" "fueled (parse_properties n q)"
    if "valid q" "3 * left_to_read q < n" for q
    using Suc.IH [OF that(1)] that(2) by simp_all
  have own: "fueled (parse_property n p)" if "3 * left_to_read p \<le> n" "tt p = Tt_identifier"
    using Suc.IH [OF Suc.prems] that by simp
  have "fueled (parse_value (Suc n) p)" if m: "3 * left_to_read p \<le> n"
  proof -
    have "fueled (parse_properties n r)"
      if "tt p = Tt_identifier" "expect_identifier msg p = Inr (i, q)" "expect_token Tt_lbrace q = Inr (k, r)" for msg i q k r
      using identifier_progress [OF that(2) Suc.prems] expect_progress [OF that(3)] that(1) m by (intro IH) auto
    then show ?thesis
      by (auto simp: Let_def intro!: fueled_steps split: if_splits)
  qed
  moreover have "fueled (parse_properties (Suc n) p)" if m: "3 * left_to_read p \<le> n"
  proof -
    have "fueled (parse_properties n r)"
      if "tt p = Tt_identifier" "parse_property n p = Inr (x, q)" "expect_token Tt_comma q = Inr (k, r)" for x q k r
      using property_progress [OF that(2) Suc.prems that(1)] expect_progress [OF that(3)] m by (intro IH) auto
    moreover have "fueled (parse_properties n q)" if "tt p = Tt_identifier" "parse_property n p = Inr (x, q)" for x q
      using property_progress [OF that(2) Suc.prems that(1)] m by (intro IH) auto
    moreover have "fueled (parse_properties n r)"
      if "tt p \<noteq> Tt_eof" "report msg p = Inr (u, q)" "next_token q = Inr (k, r)" for msg u q k r
    proof -
      have q: "valid q" "left_to_read q = left_to_read p" "tt q \<noteq> Tt_eof"
        using that(1,2) parse_error_step(1) [OF Suc.prems] by (auto simp: report_apply)
      show ?thesis
        using stepping_progress(1) [OF prog.step_next [OF q(3)] that(3) q(1)] next_token_less [OF that(3) q(1,3)] q(2) m
        by (intro IH) auto
    qed
    ultimately show ?thesis
      using own [OF m] by (auto simp: Let_def intro!: fueled_steps split: if_splits)
  qed
  moreover have "fueled (parse_property (Suc n) p)" if m: "3 * left_to_read p \<le> Suc n" "tt p = Tt_identifier"
  proof -
    have "fueled (parse_value n r)"
      if "assert_token Tt_identifier p = Inr (k, q)" "expect_token Tt_equals q = Inr (e, r)" for k q e r
      using assert_progress [OF that(1) Suc.prems m(2)] expect_progress [OF that(2)] m by (intro IH) auto
    then show ?thesis by (auto intro!: fueled_steps)
  qed
  ultimately show ?case by simp
qed

lemma identifiers_fuel: "valid p \<Longrightarrow> left_to_read p < n \<Longrightarrow> fueled (parse_identifiers n p)"
proof (induction n arbitrary: p)
  case (Suc n)
  have less: "fueled (parse_identifiers n q)" if "valid q" "left_to_read q < left_to_read p" for q
    using Suc.IH [OF that(1)] that(2) Suc.prems(2) by simp
  have "fueled (parse_identifiers n r)"
    if "expect_identifier msg p = Inr (i, q)" "tt q = Tt_comma" "next_token q = Inr (k, r)" for msg i q k r
    using identifier_progress [OF that(1) Suc.prems(1)] next_token_less [OF that(3)] that(2)
      stepping_progress(1) [OF prog.step_next that(3)] by (intro less) auto
  moreover have "fueled (parse_identifiers n r)"
    if "expect_identifier msg p = Inr (Some i, q)" "report msg' q = Inr (u, r)" for msg i q msg' u r
    using identifier_progress [OF that(1) Suc.prems(1)] that(2) parse_error_step(1) [of q]
    by (intro less) (auto simp: report_apply)
  ultimately show ?case
    by (auto simp: Let_def intro!: fueled_steps split: if_splits)
qed simp

lemma prog_valid: "stepping progress_of p y \<Longrightarrow> y = Inr (x, q) \<Longrightarrow> valid p \<Longrightarrow> valid q"
  by (rule stepping_progress(1))

text \<open>A declaration begins with a token that is read, and the rest makes no step back.\<close>

lemma bind_less:
  assumes "pbind m f p = Inr (x, q)" "\<And>y r. m p = Inr (y, r) \<Longrightarrow> valid r \<and> left_to_read r < left_to_read p"
    and "\<And>y r. m p = Inr (y, r) \<Longrightarrow> stepping progress_of r (f y r)"
  shows "valid q \<and> left_to_read q < left_to_read p"
proof -
  obtain y r where y: "m p = Inr (y, r)" "f y r = Inr (x, q)"
    using assms(1) by (auto simp: pbind_Inr_iff)
  show ?thesis
    using assms(2) [OF y(1)] assms(3) [OF y(1)] by (auto simp: y(2) progress_of_def)
qed

lemma declaration_progress:
  assumes "valid p"
  shows "parse_task p = Inr (x, q) \<Longrightarrow> tt p = Tt_task_keyword \<Longrightarrow> valid q \<and> left_to_read q < left_to_read p"
    "parse_dependencies_declaration p = Inr (y, q) \<Longrightarrow> tt p = Tt_identifier \<Longrightarrow> valid q \<and> left_to_read q < left_to_read p"
    "parse_run_level p = Inr (z, q) \<Longrightarrow> tt p = Tt_run_level_keyword \<Longrightarrow> valid q \<and> left_to_read q < left_to_read p"
  unfolding parse_task_def parse_dependencies_declaration_def parse_run_level_def
  by (erule bind_less; use assms assert_progress in \<open>auto intro!: prog.steps prog.step_value prog.step_identifiers\<close>)+

lemma declaration_fuel:
  assumes "valid p"
  shows "tt p = Tt_task_keyword \<Longrightarrow> fueled (parse_task p)"
    "tt p = Tt_identifier \<Longrightarrow> fueled (parse_dependencies_declaration p)"
    "tt p = Tt_run_level_keyword \<Longrightarrow> fueled (parse_run_level p)"
proof -
  have vals: "fueled (parse_value (enough_fuel q) q)" "fueled (parse_identifiers (enough_fuel q) q)" if "valid q" for q
    using value_fuel [OF that, of "enough_fuel q"] identifiers_fuel [OF that, of "enough_fuel q"]
    by (simp_all add: enough_fuel_def)
  note valids = assert_progress(1) identifier_progress(1) expect_progress(1)
  show "fueled (parse_task p)" if "tt p = Tt_task_keyword"
    unfolding parse_task_def using assms that
    by (auto intro!: fueled_steps vals dest!: valids split: option.splits)
  show "fueled (parse_dependencies_declaration p)" if "tt p = Tt_identifier"
    unfolding parse_dependencies_declaration_def using assms that
    by (auto intro!: fueled_steps vals dest!: valids split: option.splits)
  show "fueled (parse_run_level p)" if "tt p = Tt_run_level_keyword"
    unfolding parse_run_level_def using assms that
    by (auto intro!: fueled_steps vals dest!: valids split: option.splits)
qed

lemma declarations_fuel: "valid p \<Longrightarrow> left_to_read p < n \<Longrightarrow> fueled (parse_declarations n tree p)"
proof (induction n arbitrary: p tree)
  case (Suc n)
  have less: "fueled (parse_declarations n tree' q)" if "valid q \<and> left_to_read q < left_to_read p" for q tree'
    using Suc.IH that Suc.prems(2) by simp
  have "valid r" "left_to_read r < left_to_read p"
    if "tt p \<noteq> Tt_eof" "report msg p = Inr (u, q)" "next_token q = Inr (k, r)" for msg u q k r
  proof -
    have q: "valid q" "left_to_read q = left_to_read p" "tt q \<noteq> Tt_eof"
      using that(1,2) parse_error_step(1) [OF Suc.prems(1)] by (auto simp: report_apply)
    show "valid r" "left_to_read r < left_to_read p"
      using prog_valid [OF prog.step_next [OF q(3)] that(3) q(1)] next_token_less [OF that(3) q(1,3)] q(2)
      by auto
  qed
  then show ?case
    using declaration_fuel [OF Suc.prems(1)] declaration_progress [OF Suc.prems(1)]
    by (auto simp: Let_def intro!: fueled_steps less split: if_splits)
qed simp

section \<open>The whole file\<close>

lemma new_lexer_valid:
  assumes "new_lexer u sink = Inr lx"
  shows "valid_lexer lx" "lx_text lx = u" "\<exists>fs. lx_errors lx = sink @ fs \<and> errors_within 0 (length u) fs"
  using advance_token_step [OF assms [unfolded new_lexer_def]] by (auto simp: lexer_step_def)

lemma parse_file_stepping:
  assumes "valid_lexer lx"
  shows "case parse_file lx of
      Inr (tree, lx') \<Rightarrow> lexer_step lx lx'
    | Inl f \<Rightarrow> \<exists>lx'. valid_lexer lx' \<and> lexer_step lx lx' \<and> advance_token lx' = Inl f"
proof -
  let ?p = "\<lparr>ps_lexer = lx, ps_last_error = None\<rparr>"
  have v: "valid ?p" using assms by (simp add: valid_def)
  have "left_to_read ?p < enough_fuel ?p" by (simp add: enough_fuel_def)
  then have "fueled (parse_declarations (enough_fuel ?p) empty_top ?p)"
    using v by (rule declarations_fuel [rotated])
  moreover have "stepping progress_of ?p (parse_declarations (enough_fuel ?p) empty_top ?p)"
    by (rule prog.step_declarations)
  ultimately show ?thesis
    using v by (cases "parse_declarations (enough_fuel ?p) empty_top ?p")
      (auto simp: parse_file_def Let_def stepping_def fueled_def progress_of_def valid_def)
qed

lemma advance_token_fueled: "advance_token lx \<noteq> Inl Out_of_fuel"
  using read_next_token_fueled by (auto simp: advance_token_def bind_faulty_Inl_iff)

lemma parse_text_fueled: "parse_text u \<noteq> Inl Out_of_fuel"
proof (cases "new_lexer u []")
  case (Inl f)
  then show ?thesis using advance_token_fueled by (auto simp: parse_text_def new_lexer_def)
next
  case (Inr lx)
  show ?thesis
    using parse_file_stepping [OF new_lexer_valid(1) [OF Inr]] advance_token_fueled Inr
    by (auto simp: parse_text_def bind_faulty_Inl_iff split: sum.splits)
qed

lemma advance_token_fault:
  assumes "advance_token lx = Inl f" "valid_lexer lx" "ends_line (lx_text lx)"
  shows "f = Undefined_behaviour ''signed integer overflow''"
proof -
  have "read_next_token (length (lx_text lx)) (lx_rest lx) (lx_errors lx) = Inl f"
    using assms(1) by (auto simp: advance_token_def bind_faulty_Inl_iff)
  then show ?thesis
    by (rule read_next_token_fault) (use assms ends_line_suffix in \<open>auto simp: valid_lexer_def\<close>)
qed

lemma parse_text_fault:
  assumes "parse_text u = Inl f" "ends_line u"
  shows "f = Undefined_behaviour ''signed integer overflow''"
proof (cases "new_lexer u []")
  case (Inl g)
  then have "read_next_token (length u) u [] = Inl f"
    using assms(1) by (auto simp: parse_text_def new_lexer_def advance_token_def bind_faulty_Inl_iff)
  then show ?thesis using assms(2) by (rule read_next_token_fault)
next
  case (Inr lx)
  note lx = new_lexer_valid [OF Inr]
  have "parse_file lx = Inl f" using assms(1) Inr by (auto simp: parse_text_def bind_faulty_Inl_iff)
  then obtain lx' where "valid_lexer lx'" "lexer_step lx lx'" "advance_token lx' = Inl f"
    using parse_file_stepping [OF lx(1)] by auto
  then show ?thesis
    using advance_token_fault [of lx' f] assms(2) lx(2) by (simp add: lexer_step_def)
qed

lemma parse_text_errors:
  assumes "parse_text u = Inr (tree, es)"
  shows "errors_within 0 (length u) es"
proof -
  obtain lx lx' where lx: "new_lexer u [] = Inr lx" and f: "parse_file lx = Inr (tree, lx')" and es: "es = lx_errors lx'"
    using assms by (auto simp: parse_text_def bind_faulty_Inr_iff)
  show ?thesis
    using new_lexer_valid [OF lx] parse_file_stepping [OF new_lexer_valid(1) [OF lx]] f
    by (auto simp: es lexer_step_def)
qed

section \<open>A tree without errors is complete\<close>

fun complete_value :: "value_node \<Rightarrow> bool"
and complete_property :: "property_node \<Rightarrow> bool" where
  "complete_value (Integer_node r v) \<longleftrightarrow> True"
| "complete_value (String_node r v) \<longleftrightarrow> True"
| "complete_value (Boolean_node r v) \<longleftrightarrow> True"
| "complete_value (Pseudo_identifier_node i) \<longleftrightarrow> True"
| "complete_value (Struct_node i ps) \<longleftrightarrow> list_all complete_property ps"
| "complete_property (Property_node k e v) \<longleftrightarrow> (case v of None \<Rightarrow> False | Some w \<Rightarrow> complete_value w)"

definition complete_tree :: "top_level_node \<Rightarrow> bool" where
  "complete_tree tree \<longleftrightarrow>
     list_all (\<lambda>n. pred_option complete_value (tn_value n) \<and> tn_value n \<noteq> None) (top_tasks tree) \<and>
     list_all (\<lambda>n. rn_name n \<noteq> None) (top_run_levels tree)"

definition clean :: "parser \<Rightarrow> bool" where
  "clean p \<longleftrightarrow> lx_errors (ps_lexer p) = []"

text \<open>A function keeps the state valid, and its result has a property unless there are errors.\<close>

definition sound :: "('a \<Rightarrow> bool) \<Rightarrow> parser \<Rightarrow> ('a \<times> parser) faulty \<Rightarrow> bool" where
  "sound P p y \<longleftrightarrow> (\<forall>x q. valid p \<longrightarrow> y = Inr (x, q) \<longrightarrow> valid q \<and> (clean q \<longrightarrow> clean p \<and> P x))"

lemma sound_bind:
  assumes "sound Q p (m p)" "\<And>x q. m p = Inr (x, q) \<Longrightarrow> sound (\<lambda>y. Q x \<longrightarrow> P y) q (f x q)"
  shows "sound P p (pbind m f p)"
  unfolding sound_def
proof (intro allI impI)
  fix z r assume "valid p" "pbind m f p = Inr (z, r)"
  then obtain x q where x: "m p = Inr (x, q)" "f x q = Inr (z, r)" by (auto simp: pbind_Inr_iff)
  then show "valid r \<and> (clean r \<longrightarrow> clean p \<and> P z)"
    using assms(1) assms(2) [OF x(1)] \<open>valid p\<close> by (auto simp: sound_def)
qed

lemma sound_return: "P x \<Longrightarrow> sound P p (preturn x p)"
  by (simp add: sound_def)

lemma sound_Inr [simp]: "sound P p (Inr (x, p)) \<longleftrightarrow> (valid p \<longrightarrow> clean p \<longrightarrow> P x)"
  by (auto simp: sound_def)

lemma sound_stepping: "stepping progress_of p y \<Longrightarrow> sound (\<lambda>_. True) p y"
  by (auto simp: sound_def stepping_def progress_of_def lexer_step_def clean_def)

lemma sound_weaken: "sound Q p y \<Longrightarrow> (\<And>x. Q x \<Longrightarrow> P x) \<Longrightarrow> sound P p y"
  by (auto simp: sound_def)

lemma sound_report: "sound (\<lambda>_. False) p (report msg p)"
  using parse_error_step by (auto simp: sound_def report_apply clean_def)

lemma sound_next:
  "tt p \<noteq> Tt_eof \<Longrightarrow> sound (\<lambda>k. \<exists>x. k = Some x \<and> proper_token x \<and> tok_type x = tt p) p (next_token p)"
  using prog.step_next [of p]
  by (auto simp: sound_def stepping_def progress_of_def lexer_step_def clean_def next_token_def read_token_def
      bind_faulty_Inr_iff tt_def valid_def valid_lexer_def split: option.splits)

lemma sound_expect_msg:
  assumes "t \<noteq> Tt_eof"
  shows "sound (\<lambda>k. \<exists>x. k = Some x \<and> proper_token x \<and> tok_type x = t) p (expect_token_msg t msg p)"
proof (cases "tt p = t")
  case True
  then show ?thesis using assms sound_next [of p] by (simp add: expect_token_msg_def)
next
  case False
  then show ?thesis
    unfolding expect_token_msg_def by (auto intro!: sound_bind [OF sound_report] sound_return)
qed

lemma sound_expect: "t \<noteq> Tt_eof \<Longrightarrow> sound (\<lambda>k. k \<noteq> None) p (expect_token t p)"
  unfolding expect_token_def by (rule sound_weaken [OF sound_expect_msg]) auto

lemma sound_identifier: "sound (\<lambda>i. i \<noteq> None) p (expect_identifier msg p)"
  unfolding expect_identifier_def
  by (rule sound_bind [OF sound_expect_msg]) (auto elim: proper_token.elims)

lemma sound_assert:
  assumes "tt p = t" "t \<noteq> Tt_eof"
  shows "sound (\<lambda>k. proper_token k \<and> tok_type k = t) p (assert_token t p)"
  unfolding assert_token_def
  by (rule sound_bind [OF sound_next]) (use assms in \<open>auto simp: sound_def split: option.splits\<close>)

lemma literal_complete:
  assumes "proper_token k" "tok_type k \<in> {Tt_integer_literal, Tt_string_literal, Tt_true_keyword, Tt_false_keyword}"
  shows "\<exists>v. literal_node k = Some v \<and> complete_value v"
  using assms by (cases k) auto

lemma property_complete:
  assumes "proper_token k" "tok_type k = Tt_identifier" "e \<noteq> None" "v \<noteq> None" "complete_value (the v)"
  shows "\<exists>n. property_of k e v = Some n \<and> complete_property n"
  using assms by (cases k) (auto simp: property_of_def)

lemma sound_value:
  "sound (\<lambda>v. \<exists>w. v = Some w \<and> complete_value w) p (parse_value n p) \<and>
   sound (list_all complete_property) p (parse_properties n p) \<and>
   (tt p = Tt_identifier \<longrightarrow> sound (\<lambda>v. \<exists>w. v = Some w \<and> complete_property w) p (parse_property n p))"
proof (induction n arbitrary: p)
  case 0
  show ?case by (simp add: sound_def)
next
  case (Suc n)
  then have IH: "sound (\<lambda>v. \<exists>w. v = Some w \<and> complete_value w) q (parse_value n q)"
    "sound (list_all complete_property) q (parse_properties n q)"
    "tt q = Tt_identifier \<Longrightarrow> sound (\<lambda>v. \<exists>w. v = Some w \<and> complete_property w) q (parse_property n q)" for q
    by simp_all
  note binds = sound_bind [OF sound_assert] sound_bind [OF sound_expect] sound_bind [OF sound_identifier]
    sound_bind [OF IH(1)] sound_bind [OF IH(2)] sound_bind [OF IH(3)] sound_bind [OF sound_report]
  have "sound (\<lambda>v. \<exists>w. v = Some w \<and> complete_value w) p (parse_value (Suc n) p)"
    using literal_complete by (auto simp: Let_def intro!: binds split: if_splits)
  moreover
  have comma: "sound (\<lambda>_. True) q ((\<lambda>q. if tt q \<noteq> Tt_rbrace then expect_token Tt_comma q else preturn None q) q)" for q
    by (auto intro!: sound_stepping prog.steps)
  note comma = sound_bind [of "\<lambda>_. True" _ "\<lambda>q. if tt q \<noteq> Tt_rbrace then expect_token Tt_comma q else preturn None q", OF comma]
  have rest: "sound (\<lambda>_. True) q (parse_properties n q)" for q
    by (rule sound_stepping [OF prog.step_value(2)])
  have "sound (list_all complete_property) p (parse_properties (Suc n) p)"
    by (auto simp: Let_def cons_option_def dest: tt_report intro!: comma binds sound_bind [OF sound_next] rest split: if_splits)
  moreover have "sound (\<lambda>v. \<exists>w. v = Some w \<and> complete_property w) p (parse_property (Suc n) p)"
    if "tt p = Tt_identifier"
    using that property_complete by (fastforce intro!: binds)
  ultimately show ?case by simp
qed


lemma sound_identifiers: "sound (\<lambda>_. True) p (parse_identifiers n p)"
  by (rule sound_stepping [OF prog.step_identifiers])

lemmas sound_value_node = sound_value [THEN conjunct1]

lemma sound_declaration:
  "tt p = Tt_task_keyword \<Longrightarrow>
    sound (\<lambda>n. \<exists>t. n = Some t \<and> tn_value t \<noteq> None \<and> pred_option complete_value (tn_value t)) p (parse_task p)"
  "tt p = Tt_run_level_keyword \<Longrightarrow> sound (\<lambda>n. rn_name n \<noteq> None) p (parse_run_level p)"
  unfolding parse_task_def parse_run_level_def
  by (auto intro!: sound_bind [OF sound_assert] sound_bind [OF sound_expect] sound_bind [OF sound_identifier]
      sound_bind [where Q = "\<lambda>v. \<exists>w. v = Some w \<and> complete_value w" and m = "\<lambda>p. parse_value (enough_fuel p) p"]
      sound_bind [where Q = "\<lambda>_. True" and m = "\<lambda>p. parse_identifiers (enough_fuel p) p"]
      sound_value_node sound_identifiers)

lemma sound_declarations:
  "complete_tree tree \<Longrightarrow> sound complete_tree p (parse_declarations n tree p)"
proof (induction n arbitrary: p tree)
  case 0
  show ?case by (simp add: sound_def)
next
  case (Suc n)
  have weak: "sound (\<lambda>_. True) q (parse_declarations n tree' q)" for q tree'
    by (rule sound_stepping [OF prog.step_declarations])
  have later: "sound (\<lambda>y. Q \<longrightarrow> complete_tree y) q (parse_declarations n tree' q)"
    if "Q \<Longrightarrow> complete_tree tree'" for Q q tree'
    using Suc.IH [OF that] weak [of q tree'] by (cases Q) (auto simp: sound_def)
  show ?case
    using Suc.prems
    by (auto simp: Let_def dest: tt_report split: if_splits
        intro!: sound_bind [OF sound_declaration(1)] sound_bind [OF sound_declaration(2)]
          sound_bind [OF sound_stepping [OF prog.step_declaration(2)]] sound_bind [OF sound_report]
          sound_bind [OF sound_next] later weak)
      (auto simp: complete_tree_def cons_option_def split: option.splits)
qed

lemma parse_text_complete:
  assumes "parse_text u = Inr (tree, [])"
  shows "complete_tree tree"
proof -
  obtain lx lx' where lx: "new_lexer u [] = Inr lx" and f: "parse_file lx = Inr (tree, lx')" and es: "lx_errors lx' = []"
    using assms by (auto simp: parse_text_def bind_faulty_Inr_iff)
  obtain q where q: "parse_declarations (enough_fuel \<lparr>ps_lexer = lx, ps_last_error = None\<rparr>) empty_top
      \<lparr>ps_lexer = lx, ps_last_error = None\<rparr> = Inr (tree, q)" "lx' = ps_lexer q"
    using f by (auto simp: parse_file_def Let_def bind_faulty_Inr_iff)
  have "valid \<lparr>ps_lexer = lx, ps_last_error = None\<rparr>"
    using new_lexer_valid(1) [OF lx] by (simp add: valid_def)
  then show ?thesis
    using sound_declarations [of empty_top] q es by (fastforce simp: sound_def clean_def complete_tree_def empty_top_def)
qed

end
