(* ===== verification/Parser_Roundtrip.thy ===== *)
theory Parser_Roundtrip
  imports Parser_Facts
begin

text \<open>
  The text of a syntax tree is parsed back to that tree, up to positions, without errors, in
  every layout. A tree is written as symbols; \<open>Lexer_Facts\<close> shows that a lexer yields them
  from their text; here the parsing functions are shown to read them.
\<close>

section \<open>A tree written out\<close>

text \<open>The symbols of a tree, and a tree without its positions.\<close>

fun commas :: "symbol list list \<Rightarrow> symbol list" where
  "commas [] = []"
| "commas [x] = x"
| "commas (x # y # zs) = x @ Punctuation Tt_comma # commas (y # zs)"

fun value_symbols :: "value_node \<Rightarrow> symbol list"
and property_symbols :: "property_node \<Rightarrow> symbol list" where
  "value_symbols (Integer_node r v) = [Number v]"
| "value_symbols (String_node r s) = [Text s]"
| "value_symbols (Boolean_node r b) = [Punctuation (if b then Tt_true_keyword else Tt_false_keyword)]"
| "value_symbols (Pseudo_identifier_node i) = [Name (id_text i)]"
| "value_symbols (Struct_node i ps) =
     Name (id_text i) # Punctuation Tt_lbrace # commas (map property_symbols ps) @ [Punctuation Tt_rbrace]"
| "property_symbols (Property_node k e v) =
     Name (id_text k) # Punctuation Tt_equals # (case v of None \<Rightarrow> [] | Some w \<Rightarrow> value_symbols w)"

definition names :: "identifier_token list \<Rightarrow> symbol list" where
  "names is = commas (map (\<lambda>i. [Name (id_text i)]) is)"

definition task_symbols :: "task_node \<Rightarrow> symbol list" where
  "task_symbols n = Punctuation Tt_task_keyword # Name (id_text (tn_name n)) # Punctuation Tt_equals #
     (case tn_value n of None \<Rightarrow> [] | Some v \<Rightarrow> value_symbols v) @ [Punctuation Tt_semicolon]"

definition dependency_symbols :: "dependency_node \<Rightarrow> symbol list" where
  "dependency_symbols n = Name (id_text (dn_dependant n)) # Punctuation Tt_depends_keyword #
     names (dn_dependencies n) @ [Punctuation Tt_semicolon]"

definition run_level_symbols :: "run_level_node \<Rightarrow> symbol list" where
  "run_level_symbols n = Punctuation Tt_run_level_keyword #
     (case rn_name n of None \<Rightarrow> [] | Some i \<Rightarrow> [Name (id_text i)]) @ Punctuation Tt_colon #
     names (rn_dependencies n) @ [Punctuation Tt_semicolon]"

definition tree_symbols :: "top_level_node \<Rightarrow> symbol list" where
  "tree_symbols tree = concat (map task_symbols (top_tasks tree)) @
     concat (map dependency_symbols (top_dependencies tree)) @ concat (map run_level_symbols (top_run_levels tree))"

definition no_range :: text_range where "no_range = text_range_of 0 0"

definition strip_identifier :: "identifier_token \<Rightarrow> identifier_token" where
  "strip_identifier i = i\<lparr>id_range := no_range\<rparr>"

fun strip_value :: "value_node \<Rightarrow> value_node"
and strip_property :: "property_node \<Rightarrow> property_node" where
  "strip_value (Integer_node r v) = Integer_node no_range v"
| "strip_value (String_node r s) = String_node no_range s"
| "strip_value (Boolean_node r b) = Boolean_node no_range b"
| "strip_value (Pseudo_identifier_node i) = Pseudo_identifier_node (strip_identifier i)"
| "strip_value (Struct_node i ps) = Struct_node (strip_identifier i) (map strip_property ps)"
| "strip_property (Property_node k e v) = Property_node (strip_identifier k) no_range (map_option strip_value v)"

definition strip_task :: "task_node \<Rightarrow> task_node" where
  "strip_task n = \<lparr>tn_name = strip_identifier (tn_name n), tn_value = map_option strip_value (tn_value n)\<rparr>"

definition strip_dependency :: "dependency_node \<Rightarrow> dependency_node" where
  "strip_dependency n = \<lparr>dn_dependant = strip_identifier (dn_dependant n),
     dn_dependencies = map strip_identifier (dn_dependencies n)\<rparr>"

definition strip_run_level :: "run_level_node \<Rightarrow> run_level_node" where
  "strip_run_level n = \<lparr>rn_name = map_option strip_identifier (rn_name n),
     rn_dependencies = map strip_identifier (rn_dependencies n)\<rparr>"

definition strip_tree :: "top_level_node \<Rightarrow> top_level_node" where
  "strip_tree tree = \<lparr>top_tasks = map strip_task (top_tasks tree),
     top_dependencies = map strip_dependency (top_dependencies tree),
     top_run_levels = map strip_run_level (top_run_levels tree)\<rparr>"

text \<open>The grammar has no empty lists of names.\<close>

definition no_empty_lists :: "top_level_node \<Rightarrow> bool" where
  "no_empty_lists tree \<longleftrightarrow> list_all (\<lambda>n. dn_dependencies n \<noteq> []) (top_dependencies tree) \<and>
     list_all (\<lambda>n. rn_dependencies n \<noteq> []) (top_run_levels tree)"

section \<open>Reading symbols\<close>

fun symbol_type :: "symbol \<Rightarrow> token_type" where
  "symbol_type (Punctuation t) = t"
| "symbol_type (Name s) = Tt_identifier"
| "symbol_type (Number v) = Tt_integer_literal"
| "symbol_type (Text s) = Tt_string_literal"

lemma tok_type_symbol: "tok_type k = symbol_type (symbol_of k)"
  by (cases k) auto

definition will_read :: "parser \<Rightarrow> symbol list \<Rightarrow> bool" where
  "will_read p ys \<longleftrightarrow> yields (ps_lexer p) ys"

lemma will_read_tt:
  "will_read p [] \<Longrightarrow> tt p = Tt_eof"
  "will_read p (y # ys) \<Longrightarrow> tt p = symbol_type y"
  by (auto simp: will_read_def tt_def tok_type_symbol)

text \<open>
  A function that reads the symbols before \<open>rest\<close> without an error, unless its fuel ends.
\<close>

definition reads :: "('a \<Rightarrow> bool) \<Rightarrow> symbol list \<Rightarrow> parser \<Rightarrow> ('a \<times> parser) faulty \<Rightarrow> bool" where
  "reads P rest p y \<longleftrightarrow> y = Inl Out_of_fuel \<or>
     (\<exists>x q. y = Inr (x, q) \<and> P x \<and> will_read q rest \<and> lx_errors (ps_lexer q) = lx_errors (ps_lexer p))"

lemma reads_bind:
  assumes "reads Q mid p (m p)" "\<And>x q. Q x \<Longrightarrow> will_read q mid \<Longrightarrow> reads P rest q (f x q)"
  shows "reads P rest p (pbind m f p)"
proof (cases "m p")
  case (Inr z)
  then obtain x q where z: "m p = Inr (x, q)" "Q x" "will_read q mid" "lx_errors (ps_lexer q) = lx_errors (ps_lexer p)"
    using assms(1) by (auto simp: reads_def)
  show ?thesis
    using assms(2) [OF z(2,3)] z(1,4) by (auto simp: reads_def pbind_apply)
qed (use assms(1) in \<open>auto simp: reads_def pbind_apply\<close>)

lemma reads_Inr [simp]: "reads P rest p (Inr (x, p)) \<longleftrightarrow> P x \<and> will_read p rest"
  by (auto simp: reads_def)

lemma reads_next:
  assumes "will_read p (y # ys)"
  shows "reads (\<lambda>k. \<exists>x. k = Some x \<and> symbol_of x = y) ys p (next_token p)"
  using assms by (auto simp: will_read_def reads_def next_token_def read_token_def)

lemma reads_expect_msg:
  assumes "will_read p (y # ys)" "symbol_type y = t"
  shows "reads (\<lambda>k. \<exists>x. k = Some x \<and> symbol_of x = y) ys p (expect_token_msg t msg p)"
  using reads_next [OF assms(1)] will_read_tt(2) [OF assms(1)] assms(2) by (simp add: expect_token_msg_def)

lemma reads_expect:
  assumes "will_read p (Punctuation t # ys)"
  shows "reads (\<lambda>k. \<exists>r. k = Some (Simple_token r t)) ys p (expect_token t p)"
proof -
  have "symbol_of x = Punctuation t \<longleftrightarrow> (\<exists>r. x = Simple_token r t)" for x by (cases x) auto
  then show ?thesis
    using reads_expect_msg [OF assms, of t "token_error_msg t"] by (auto simp: expect_token_def reads_def)
qed

lemma reads_identifier:
  assumes "will_read p (Name s # ys)"
  shows "reads (\<lambda>i. \<exists>x. i = Some x \<and> id_text x = s) ys p (expect_identifier msg p)"
proof -
  have name: "symbol_of x = Name s \<Longrightarrow> \<exists>i. as_identifier x = Some i \<and> id_text i = s" for x by (cases x) auto
  show ?thesis
    unfolding expect_identifier_def
    by (rule reads_bind, rule reads_expect_msg [OF assms]) (auto simp: name)
qed

lemma reads_assert:
  assumes "will_read p (y # ys)" "symbol_type y = t"
  shows "reads (\<lambda>k. symbol_of k = y) ys p (assert_token t p)"
  unfolding assert_token_def
  by (rule reads_bind, rule reads_next [OF assms(1)]) (use assms in \<open>auto simp: tok_type_symbol\<close>)


lemma reads_bind_identifier:
  assumes "will_read p (Name s # ys)" "\<And>x q. id_text x = s \<Longrightarrow> will_read q ys \<Longrightarrow> reads P rest q (f (Some x) q)"
  shows "reads P rest p (pbind (expect_identifier msg) f p)"
  by (rule reads_bind, rule reads_identifier [OF assms(1)]) (use assms(2) in auto)

lemma reads_bind_expect:
  assumes "will_read p (Punctuation t # ys)" "\<And>r q. will_read q ys \<Longrightarrow> reads P rest q (f (Some (Simple_token r t)) q)"
  shows "reads P rest p (pbind (expect_token t) f p)"
  by (rule reads_bind, rule reads_expect [OF assms(1)]) (use assms(2) in auto)

lemma reads_bind_assert:
  assumes "will_read p (y # ys)" "symbol_type y = t"
    and "\<And>k q. symbol_of k = y \<Longrightarrow> will_read q ys \<Longrightarrow> reads P rest q (f k q)"
  shows "reads P rest p (pbind (assert_token t) f p)"
  by (rule reads_bind, rule reads_assert [OF assms(1,2)]) (use assms(3) in auto)

lemma reads_bind_next:
  assumes "will_read p (y # ys)" "\<And>k q. will_read q ys \<Longrightarrow> reads P rest q (f (Some k) q)"
  shows "reads P rest p (pbind next_token f p)"
  by (rule reads_bind, rule reads_next [OF assms(1)]) (use assms(2) in auto)

lemma strip_identifier_eq [simp]: "strip_identifier i = strip_identifier j \<longleftrightarrow> id_text i = id_text j"
  by (cases i; cases j) (simp add: strip_identifier_def)

definition no_brace :: "symbol list \<Rightarrow> bool" where
  "no_brace ys \<longleftrightarrow> (\<forall>zs. ys \<noteq> Punctuation Tt_lbrace # zs)"

lemma no_brace_Cons [simp]: "no_brace (y # ys) \<longleftrightarrow> y \<noteq> Punctuation Tt_lbrace"
  by (simp add: no_brace_def)

lemma no_brace_tt:
  assumes "no_brace ys" "will_read p ys"
  shows "tt p \<noteq> Tt_lbrace"
proof (cases ys)
  case Nil
  then show ?thesis using will_read_tt(1) assms by simp
next
  case (Cons y zs)
  then show ?thesis using will_read_tt(2) [of p y zs] assms by (cases y) auto
qed

definition same_value :: "value_node \<Rightarrow> value_node option \<Rightarrow> bool" where
  "same_value v x \<longleftrightarrow> (\<exists>w. x = Some w \<and> strip_value w = strip_value v)"

definition same_property :: "property_node \<Rightarrow> property_node option \<Rightarrow> bool" where
  "same_property v x \<longleftrightarrow> (\<exists>w. x = Some w \<and> strip_property w = strip_property v)"

lemma reads_literal:
  assumes "will_read p (value_symbols v @ rest)" "\<forall>i ps. v \<noteq> Struct_node i ps" "\<forall>i. v \<noteq> Pseudo_identifier_node i"
  shows "reads (same_value v) rest p (parse_value (Suc n) p)"
proof -
  obtain y where y: "value_symbols v = [y]" "symbol_type y \<in> {Tt_integer_literal, Tt_string_literal, Tt_true_keyword, Tt_false_keyword}"
    using assms(2,3) by (cases v) auto
  have "same_value v (literal_node k)" if "symbol_of k = y" for k
    using that y assms(2,3) by (cases k; cases v) (auto simp: same_value_def split: if_splits)
  then show ?thesis
    using assms(1) y will_read_tt(2) [of p y rest]
    by (auto simp: Let_def intro!: reads_bind_assert)
qed

text \<open>One step of each function, given the functions it calls.\<close>

definition reads_values :: "nat \<Rightarrow> bool" where
  "reads_values n \<longleftrightarrow> (\<forall>p v rest. complete_value v \<longrightarrow> will_read p (value_symbols v @ rest) \<longrightarrow> no_brace rest \<longrightarrow>
     reads (same_value v) rest p (parse_value n p))"

definition reads_lists :: "nat \<Rightarrow> bool" where
  "reads_lists n \<longleftrightarrow> (\<forall>p ps rest. list_all complete_property ps \<longrightarrow>
     will_read p (commas (map property_symbols ps) @ Punctuation Tt_rbrace # rest) \<longrightarrow>
     reads (\<lambda>qs. map strip_property qs = map strip_property ps) (Punctuation Tt_rbrace # rest) p (parse_properties n p))"

definition reads_properties :: "nat \<Rightarrow> bool" where
  "reads_properties n \<longleftrightarrow> (\<forall>p v rest. complete_property v \<longrightarrow> will_read p (property_symbols v @ rest) \<longrightarrow> no_brace rest \<longrightarrow>
     reads (same_property v) rest p (parse_property n p))"

lemmas reads_valuesD = reads_values_def [THEN iffD1, rule_format]
  and reads_listsD = reads_lists_def [THEN iffD1, rule_format]
  and reads_propertiesD = reads_properties_def [THEN iffD1, rule_format]

lemma reads_value_step:
  assumes IH: "reads_lists n" and v: "complete_value v" and w: "will_read p (value_symbols v @ rest)" and b: "no_brace rest"
  shows "reads (same_value v) rest p (parse_value (Suc n) p)"
proof (cases v)
  case (Pseudo_identifier_node i)
  then show ?thesis
    using w b no_brace_tt will_read_tt(2) [of p "Name (id_text i)" rest]
    by (auto simp: Let_def same_value_def intro!: reads_bind_identifier)
next
  case (Struct_node i ps)
  let ?ps = "commas (map property_symbols ps) @ Punctuation Tt_rbrace # rest"
  have w: "will_read p (Name (id_text i) # Punctuation Tt_lbrace # ?ps)" using w Struct_node by simp
  have ps: "list_all complete_property ps" using v Struct_node by simp
  have result: "same_value v (Some (Struct_node j qs))"
    if "map strip_property qs = map strip_property ps" "id_text j = id_text i" for j qs
    using that Struct_node by (simp add: same_value_def)
  have body: "reads (same_value v) rest q (pbind (parse_properties n) (\<lambda>qs.
      pbind (expect_token Tt_rbrace) (\<lambda>rbrace. preturn (map_option (\<lambda>j. Struct_node j qs) (Some x)))) q)"
    if "will_read q ?ps" "id_text x = id_text i" for q x
    by (rule reads_bind, rule reads_listsD [OF IH ps that(1)]) (use that(2) result in \<open>auto intro!: reads_bind_expect\<close>)
  show ?thesis
    using will_read_tt(2) [OF w]
    by (auto simp: Let_def will_read_tt(2) intro!: reads_bind_identifier [OF w] reads_bind_expect
        body [unfolded option.map])
qed (use w reads_literal in auto)

lemma reads_property_step:
  assumes IH: "reads_values n" and v: "complete_property v" and w: "will_read p (property_symbols v @ rest)" and b: "no_brace rest"
  shows "reads (same_property v) rest p (parse_property (Suc n) p)"
proof -
  obtain k e x where x: "v = Property_node k e (Some x)" "complete_value x"
    using v by (cases v) (auto split: option.splits)
  have key: "\<exists>i. as_identifier y = Some i \<and> id_text i = id_text k" if "symbol_of y = Name (id_text k)" for y
    using that by (cases y) auto
  have w: "will_read p (Name (id_text k) # Punctuation Tt_equals # value_symbols x @ rest)"
    using w x by simp
  have result: "same_property v (property_of y z u)"
    if "symbol_of y = Name (id_text k)" "\<exists>r. z = Some r" "same_value x u" for y z u
    using key [OF that(1)] that(2,3) x by (auto simp: same_property_def same_value_def property_of_def)
  have body: "reads (same_property v) rest q (pbind (parse_value n) (\<lambda>u. preturn (property_of y (Some z) u)) q)"
    if "symbol_of y = Name (id_text k)" "will_read q (value_symbols x @ rest)" for y z q
    by (rule reads_bind, rule reads_valuesD [OF IH x(2) that(2) b]) (use that(1) result in auto)
  show ?thesis
    by (auto intro!: reads_bind_assert [OF w] reads_bind_expect body)
qed

lemma reads_list_step:
  assumes IH2: "reads_lists n" and IH3: "reads_properties n" and ps: "list_all complete_property ps"
    and w: "will_read p (commas (map property_symbols ps) @ Punctuation Tt_rbrace # rest)"
  shows "reads (\<lambda>qs. map strip_property qs = map strip_property ps) (Punctuation Tt_rbrace # rest) p (parse_properties (Suc n) p)"
proof (cases ps)
  case Nil
  then show ?thesis using w will_read_tt(2) [of p "Punctuation Tt_rbrace" rest] by (simp add: Let_def)
next
  case (Cons x xs)
  let ?tail = "(if xs = [] then [] else [Punctuation Tt_comma]) @ commas (map property_symbols xs) @ Punctuation Tt_rbrace # rest"
  have x: "complete_property x" "list_all complete_property xs" using ps Cons by simp_all
  have w: "will_read p (property_symbols x @ ?tail)"
    using w Cons by (cases xs) simp_all
  have tail: "no_brace ?tail" by (cases "xs = []") simp_all
  have list: "reads (\<lambda>qs. map strip_property qs = map strip_property ps) (Punctuation Tt_rbrace # rest) q
      (pbind (parse_properties n) (\<lambda>qs. preturn (cons_option y qs)) q)"
    if "same_property x y" "will_read q (commas (map property_symbols xs) @ Punctuation Tt_rbrace # rest)" for q y
    by (rule reads_bind, rule reads_listsD [OF IH2 x(2) that(2)])
      (use that(1) Cons in \<open>auto simp: same_property_def cons_option_def\<close>)
  have more: "reads (\<lambda>qs. map strip_property qs = map strip_property ps) (Punctuation Tt_rbrace # rest) q
      (pbind (\<lambda>q. if tt q \<noteq> Tt_rbrace then expect_token Tt_comma q else preturn None q) (\<lambda>_.
        pbind (parse_properties n) (\<lambda>qs. preturn (cons_option y qs))) q)"
    if y: "same_property x y" and q: "will_read q ?tail" for q y
  proof (cases "xs = []")
    case True
    then show ?thesis using list [OF y, of q] q will_read_tt(2) [of q] by (simp add: pbind_apply)
  next
    case False
    then have q: "will_read q (Punctuation Tt_comma # commas (map property_symbols xs) @ Punctuation Tt_rbrace # rest)"
      using q by simp
    then show ?thesis
      using reads_bind_expect [OF q list [OF y]] will_read_tt(2) [OF q] by (simp add: pbind_def)
  qed
  obtain s zs where "property_symbols x = Name s # zs" by (cases x) simp
  then have "tt p = Tt_identifier" using will_read_tt(2) [of p "Name s"] w by simp
  then show ?thesis
    by (simp add: Let_def) (rule reads_bind, rule reads_propertiesD [OF IH3 x(1) w tail], rule more)
qed

lemma reads_value_all: "reads_values n \<and> reads_lists n \<and> reads_properties n"
proof (induction n)
  case 0
  show ?case by (simp add: reads_values_def reads_lists_def reads_properties_def reads_def)
next
  case (Suc n)
  then have "reads_values n" "reads_lists n" "reads_properties n" by simp_all
  then show ?case
    unfolding reads_values_def [of "Suc n"] reads_lists_def [of "Suc n"] reads_properties_def [of "Suc n"]
    by (blast intro: reads_value_step reads_list_step reads_property_step)
qed

lemmas reads_value = reads_valuesD [OF reads_value_all [THEN conjunct1]]

section \<open>Declarations\<close>

abbreviation same_names :: "identifier_token list \<Rightarrow> identifier_token list \<Rightarrow> bool" where
  "same_names is js \<equiv> map id_text js = map id_text is"

lemma reads_identifiers:
  assumes "is \<noteq> []" "will_read p (names is @ Punctuation Tt_semicolon # rest)"
  shows "reads (same_names is) (Punctuation Tt_semicolon # rest) p (parse_identifiers n p)"
  using assms
proof (induction n arbitrary: "is" p)
  case 0
  show ?case by (simp add: reads_def)
next
  case (Suc n)
  obtain i js where is_: "is = i # js" using Suc.prems(1) by (cases "is") auto
  show ?case
  proof (cases "js = []")
    case True
    then have w: "will_read p (Name (id_text i) # Punctuation Tt_semicolon # rest)"
      using Suc.prems(2) is_ by (simp add: names_def)
    show ?thesis
      by (auto simp: Let_def is_ True will_read_tt(2) cons_option_def intro!: reads_bind_identifier [OF w])
  next
    case False
    then have w: "will_read p (Name (id_text i) # Punctuation Tt_comma # names js @ Punctuation Tt_semicolon # rest)"
      using Suc.prems(2) is_ by (cases js) (simp_all add: names_def)
    have "reads (same_names is) (Punctuation Tt_semicolon # rest) q
        (pbind (parse_identifiers n) (\<lambda>is'. preturn (cons_option (Some x) is')) q)"
      if "id_text x = id_text i" "will_read q (names js @ Punctuation Tt_semicolon # rest)" for x q
      by (rule reads_bind, rule Suc.IH [OF False that(2)]) (use that(1) is_ in \<open>auto simp: cons_option_def\<close>)
    then show ?thesis
      by (auto simp: Let_def will_read_tt(2) intro!: reads_bind_identifier [OF w] reads_bind_next)
  qed
qed

definition same_task :: "task_node \<Rightarrow> task_node \<Rightarrow> bool" where
  "same_task t u \<longleftrightarrow> id_text (tn_name u) = id_text (tn_name t) \<and>
     map_option strip_value (tn_value u) = map_option strip_value (tn_value t)"

definition same_dependency :: "dependency_node \<Rightarrow> dependency_node \<Rightarrow> bool" where
  "same_dependency t u \<longleftrightarrow> id_text (dn_dependant u) = id_text (dn_dependant t) \<and>
     same_names (dn_dependencies t) (dn_dependencies u)"

definition same_run_level :: "run_level_node \<Rightarrow> run_level_node \<Rightarrow> bool" where
  "same_run_level t u \<longleftrightarrow> map_option id_text (rn_name u) = map_option id_text (rn_name t) \<and>
     same_names (rn_dependencies t) (rn_dependencies u)"

lemma reads_task:
  assumes "will_read p (task_symbols t @ rest)" "tn_value t \<noteq> None" "pred_option complete_value (tn_value t)"
  shows "reads (\<lambda>x. \<exists>u. x = Some u \<and> same_task t u) rest p (parse_task p)"
proof -
  obtain v where v: "tn_value t = Some v" "complete_value v" using assms(2,3) by auto
  have w: "will_read p (Punctuation Tt_task_keyword # Name (id_text (tn_name t)) # Punctuation Tt_equals #
      value_symbols v @ Punctuation Tt_semicolon # rest)"
    using assms(1) v by (simp add: task_symbols_def)
  have "reads (\<lambda>x. \<exists>u. x = Some u \<and> same_task t u) rest q
      (pbind (\<lambda>p. parse_value (enough_fuel p) p) (\<lambda>v. pbind (expect_token Tt_semicolon) (\<lambda>semicolon.
        preturn (Some \<lparr>tn_name = i, tn_value = v\<rparr>))) q)"
    if "id_text i = id_text (tn_name t)" "will_read q (value_symbols v @ Punctuation Tt_semicolon # rest)" for i q
    by (rule reads_bind, rule reads_value [OF v(2) that(2)], simp)
      (use that(1) v in \<open>auto simp: same_task_def same_value_def intro!: reads_bind_expect\<close>)
  then show ?thesis
    unfolding parse_task_def
    by (auto intro!: reads_bind_assert [OF w] reads_bind_identifier reads_bind_expect)
qed

lemma reads_list_of_names:
  assumes "is \<noteq> []" "will_read p (names is @ Punctuation Tt_semicolon # rest)"
    and "\<And>js. same_names is js \<Longrightarrow> P (f js)"
  shows "reads P rest p (pbind (\<lambda>p. parse_identifiers (enough_fuel p) p) (\<lambda>js.
    pbind (expect_token Tt_semicolon) (\<lambda>_. preturn (f js))) p)"
  by (rule reads_bind, rule reads_identifiers [OF assms(1,2)]) (use assms(3) in \<open>auto intro!: reads_bind_expect\<close>)

lemma reads_dependencies:
  assumes "will_read p (dependency_symbols t @ rest)" "dn_dependencies t \<noteq> []"
  shows "reads (\<lambda>x. \<exists>u. x = Some u \<and> same_dependency t u) rest p (parse_dependencies_declaration p)"
proof -
  have w: "will_read p (Name (id_text (dn_dependant t)) # Punctuation Tt_depends_keyword #
      names (dn_dependencies t) @ Punctuation Tt_semicolon # rest)"
    using assms(1) by (simp add: dependency_symbols_def)
  have "\<exists>i. as_identifier k = Some i \<and> id_text i = id_text (dn_dependant t)"
    if "symbol_of k = Name (id_text (dn_dependant t))" for k
    using that by (cases k) auto
  then show ?thesis
    unfolding parse_dependencies_declaration_def
    by (fastforce simp: same_dependency_def
        intro!: reads_bind_assert [OF w] reads_bind_expect reads_list_of_names [OF assms(2)])
qed

lemma reads_run_level:
  assumes "will_read p (run_level_symbols t @ rest)" "rn_dependencies t \<noteq> []" "rn_name t \<noteq> None"
  shows "reads (same_run_level t) rest p (parse_run_level p)"
proof -
  obtain i where i: "rn_name t = Some i" using assms(3) by auto
  have w: "will_read p (Punctuation Tt_run_level_keyword # Name (id_text i) # Punctuation Tt_colon #
      names (rn_dependencies t) @ Punctuation Tt_semicolon # rest)"
    using assms(1) i by (simp add: run_level_symbols_def)
  show ?thesis
    unfolding parse_run_level_def
    by (auto simp: same_run_level_def i
        intro!: reads_bind_assert [OF w] reads_bind_identifier reads_bind_expect reads_list_of_names [OF assms(2)])
qed


definition same_tree :: "top_level_node \<Rightarrow> top_level_node \<Rightarrow> top_level_node \<Rightarrow> bool" where
  "same_tree old t x \<longleftrightarrow> (\<exists>us ds ls.
     top_tasks x = top_tasks old @ us \<and> list_all2 same_task (top_tasks t) us \<and>
     top_dependencies x = top_dependencies old @ ds \<and> list_all2 same_dependency (top_dependencies t) ds \<and>
     top_run_levels x = top_run_levels old @ ls \<and> list_all2 same_run_level (top_run_levels t) ls)"

lemma same_tree_cons:
  "same_task a u \<Longrightarrow> same_tree (old\<lparr>top_tasks := top_tasks old @ [u]\<rparr>) (t\<lparr>top_tasks := us\<rparr>) x \<Longrightarrow>
    top_tasks t = a # us \<Longrightarrow> same_tree old t x"
  "same_dependency b d \<Longrightarrow> same_tree (old\<lparr>top_dependencies := top_dependencies old @ [d]\<rparr>) (t\<lparr>top_dependencies := bs\<rparr>) x \<Longrightarrow>
    top_dependencies t = b # bs \<Longrightarrow> same_tree old t x"
  "same_run_level c l \<Longrightarrow> same_tree (old\<lparr>top_run_levels := top_run_levels old @ [l]\<rparr>) (t\<lparr>top_run_levels := cs\<rparr>) x \<Longrightarrow>
    top_run_levels t = c # cs \<Longrightarrow> same_tree old t x"
  unfolding same_tree_def by force+

lemma reads_declarations:
  assumes "will_read p (tree_symbols t)" "complete_tree t" "no_empty_lists t"
  shows "reads (same_tree old t) [] p (parse_declarations n old p)"
  using assms
proof (induction n arbitrary: old t p)
  case 0
  show ?case by (simp add: reads_def)
next
  case (Suc n)
  consider (task) a us where "top_tasks t = a # us"
    | (dep) b bs where "top_tasks t = []" "top_dependencies t = b # bs"
    | (level) c cs where "top_tasks t = []" "top_dependencies t = []" "top_run_levels t = c # cs"
    | (rest) "top_tasks t = []" "top_dependencies t = []" "top_run_levels t = []"
    by (metis list.exhaust)
  then show ?case
  proof cases
    case task
    let ?t = "t\<lparr>top_tasks := us\<rparr>"
    have w: "will_read p (task_symbols a @ tree_symbols ?t)" using Suc.prems(1) task by (simp add: tree_symbols_def)
    have ok: "complete_tree ?t" "no_empty_lists ?t" "tn_value a \<noteq> None" "pred_option complete_value (tn_value a)"
      using Suc.prems(2,3) task by (auto simp: complete_tree_def no_empty_lists_def)
    have "reads (same_tree old t) [] q (parse_declarations n (old\<lparr>top_tasks := top_tasks old @ cons_option (Some u) []\<rparr>) q)"
      if "same_task a u" "will_read q (tree_symbols ?t)" for u q
      using Suc.IH [OF that(2) ok(1,2), of "old\<lparr>top_tasks := top_tasks old @ [u]\<rparr>"] same_tree_cons(1) [OF that(1) _ task]
      by (auto simp: reads_def cons_option_def)
    moreover have "tt p = Tt_task_keyword" using w will_read_tt(2) [of p] by (simp add: task_symbols_def)
    ultimately show ?thesis
      by (simp add: Let_def) (rule reads_bind, rule reads_task [OF w ok(3,4)], auto)
  next
    case dep
    let ?t = "t\<lparr>top_dependencies := bs\<rparr>"
    have w: "will_read p (dependency_symbols b @ tree_symbols ?t)" using Suc.prems(1) dep by (simp add: tree_symbols_def)
    have ok: "complete_tree ?t" "no_empty_lists ?t" "dn_dependencies b \<noteq> []"
      using Suc.prems(2,3) dep by (auto simp: complete_tree_def no_empty_lists_def)
    have "reads (same_tree old t) [] q
        (parse_declarations n (old\<lparr>top_dependencies := top_dependencies old @ cons_option (Some u) []\<rparr>) q)"
      if "same_dependency b u" "will_read q (tree_symbols ?t)" for u q
      using Suc.IH [OF that(2) ok(1,2), of "old\<lparr>top_dependencies := top_dependencies old @ [u]\<rparr>"]
        same_tree_cons(2) [OF that(1) _ dep(2)] by (auto simp: reads_def cons_option_def)
    moreover have "tt p = Tt_identifier" using w will_read_tt(2) [of p] by (simp add: dependency_symbols_def)
    ultimately show ?thesis
      by (simp add: Let_def) (rule reads_bind, rule reads_dependencies [OF w ok(3)], auto)
  next
    case level
    let ?t = "t\<lparr>top_run_levels := cs\<rparr>"
    have w: "will_read p (run_level_symbols c @ tree_symbols ?t)" using Suc.prems(1) level by (simp add: tree_symbols_def)
    have ok: "complete_tree ?t" "no_empty_lists ?t" "rn_dependencies c \<noteq> []" "rn_name c \<noteq> None"
      using Suc.prems(2,3) level by (auto simp: complete_tree_def no_empty_lists_def)
    have "reads (same_tree old t) [] q (parse_declarations n (old\<lparr>top_run_levels := top_run_levels old @ [u]\<rparr>) q)"
      if "same_run_level c u" "will_read q (tree_symbols ?t)" for u q
      using Suc.IH [OF that(2) ok(1,2), of "old\<lparr>top_run_levels := top_run_levels old @ [u]\<rparr>"]
        same_tree_cons(3) [OF that(1) _ level(3)] by (auto simp: reads_def)
    moreover have "tt p = Tt_run_level_keyword" using w will_read_tt(2) [of p] by (simp add: run_level_symbols_def)
    ultimately show ?thesis
      by (simp add: Let_def) (rule reads_bind, rule reads_run_level [OF w ok(3,4)], auto)
  next
    case rest
    then show ?thesis
      using Suc.prems(1) will_read_tt(1) by (simp add: Let_def tree_symbols_def same_tree_def)
  qed
qed

lemma strip_names: "same_names is js \<Longrightarrow> map strip_identifier js = map strip_identifier is"
proof -
  have strip: "strip_identifier = (\<lambda>s. \<lparr>id_range = no_range, id_text = s\<rparr>) \<circ> id_text"
    by (auto simp: fun_eq_iff strip_identifier_def)
  show "same_names is js \<Longrightarrow> map strip_identifier js = map strip_identifier is"
    by (simp only: strip flip: map_map)
qed

lemma same_strip:
  "same_task t u \<Longrightarrow> strip_task u = strip_task t"
  "same_dependency d e \<Longrightarrow> strip_dependency e = strip_dependency d"
  "same_run_level l m \<Longrightarrow> strip_run_level m = strip_run_level l"
proof -
  show "same_task t u \<Longrightarrow> strip_task u = strip_task t"
    by (simp add: same_task_def strip_task_def)
  show "same_dependency d e \<Longrightarrow> strip_dependency e = strip_dependency d"
    using strip_names [of "dn_dependencies d" "dn_dependencies e"]
    by (simp add: same_dependency_def strip_dependency_def)
  show "same_run_level l m \<Longrightarrow> strip_run_level m = strip_run_level l"
    using strip_names [of "rn_dependencies l" "rn_dependencies m"]
    by (cases "rn_name l"; cases "rn_name m") (simp_all add: same_run_level_def strip_run_level_def)
qed

lemma list_all2_map_eq:
  assumes "list_all2 R ts us" "\<And>a b. R a b \<Longrightarrow> f b = f a"
  shows "map f us = map f ts"
  using assms(1) by (induction rule: list_all2_induct) (auto simp: assms(2))

lemma same_tree_strip: "same_tree empty_top t x \<Longrightarrow> strip_tree x = strip_tree t"
  by (auto simp: same_tree_def empty_top_def strip_tree_def same_strip intro!: list_all2_map_eq)

lemma parse_text_layout:
  assumes "layout_ok l end_gap" "map snd l = tree_symbols t" "complete_tree t" "no_empty_lists t"
  shows "\<exists>x. parse_text (print_layout l end_gap) = Inr (x, []) \<and> strip_tree x = strip_tree t"
proof -
  obtain lx where lx: "new_lexer (print_layout l end_gap) [] = Inr lx" "lx_errors lx = []" "yields lx (tree_symbols t)"
    using new_lexer_reads_layout [OF assms(1), of "[]"] assms(2) by auto
  let ?p = "\<lparr>ps_lexer = lx, ps_last_error = None\<rparr>"
  have "reads (same_tree empty_top t) [] ?p (parse_declarations (enough_fuel ?p) empty_top ?p)"
    by (rule reads_declarations) (use lx(3) assms(3,4) in \<open>simp_all add: will_read_def\<close>)
  moreover have "fueled (parse_declarations (enough_fuel ?p) empty_top ?p)"
    by (rule declarations_fuel) (use new_lexer_valid(1) [OF lx(1)] in \<open>simp_all add: valid_def enough_fuel_def\<close>)
  ultimately obtain x q where "parse_declarations (enough_fuel ?p) empty_top ?p = Inr (x, q)"
    "same_tree empty_top t x" "lx_errors (ps_lexer q) = []"
    using lx(2) by (auto simp: reads_def fueled_def)
  then show ?thesis
    using lx(1) same_tree_strip by (simp add: parse_text_def parse_file_def Let_def)
qed

end
