(* ===== verification/Report_Duplicates.thy ===== *)
theory Report_Duplicates
  imports Lexer_Facts
begin

text \<open>
  The report of duplicate keys, \<^verbatim>\<open>read_value_node/report_duplicates.h\<close>. The flag that says
  that the first element of a group has been reported is never reset: how many reports are
  missing is stated exactly.
\<close>

text \<open>The loop, with the previous entry and the flag; the values are those reported, in order.\<close>

fun report_from :: "'k \<times> 'v \<Rightarrow> bool \<Rightarrow> ('k \<times> 'v) list \<Rightarrow> 'v list" where
  "report_from pi last_reported [] = []"
| "report_from pi last_reported (i # m) =
     (if fst pi = fst i
      then (if \<not> last_reported then [snd pi] else []) @ snd i # report_from i True m
      else report_from i last_reported m)"

definition report_duplicates :: "('k, 'v) multimap \<Rightarrow> 'v list" where
  "report_duplicates m = (case m of [] \<Rightarrow> [] | i # m' \<Rightarrow> report_from i False m')"

text \<open>The callbacks of all its callers push an error with a fixed message.\<close>

definition report_duplicate_errors ::
    "('v \<Rightarrow> text_range) \<Rightarrow> string \<Rightarrow> ('k, 'v) multimap \<Rightarrow> error_tag list \<Rightarrow> error_tag list" where
  "report_duplicate_errors range_of msg m es =
     es @ map (\<lambda>v. error_tag_of (range_of v) msg) (report_duplicates m)"

section \<open>What is reported\<close>

lemma report_from_subset: "set (report_from i b m) \<subseteq> insert (snd i) (snd ` set m)"
  by (induction i b m rule: report_from.induct) auto

lemma report_from_distinct: "distinct (map fst (i # m)) \<Longrightarrow> report_from i b m = []"
  by (induction i b m rule: report_from.induct) auto

text \<open>Once the flag is set, one element of every group is not reported.\<close>

lemma length_report_flagged:
  "sorted (map fst (i # m)) \<Longrightarrow>
    length (report_from i True m) + card (fst ` set (i # m)) = Suc (length m)"
proof (induction i True m rule: report_from.induct)
  case (2 pi i m)
  have tl: "sorted (map fst (i # m))" using 2(3) by simp
  show ?case
  proof (cases "fst pi = fst i")
    case True
    then have "fst ` set (pi # i # m) = fst ` set (i # m)" by auto
    then show ?thesis using 2(1) [OF True tl] True by simp
  next
    case False
    then have "fst pi \<notin> fst ` set (i # m)" using 2(3) by (force simp: le_less)
    then show ?thesis using 2(2) [OF False tl] False by simp
  qed
qed simp

lemma length_report_from:
  assumes "sorted (map fst (i # m))"
  shows "length (report_from i False m) =
    (if distinct (map fst (i # m)) then 0 else Suc (Suc (length m) - card (fst ` set (i # m))))"
  using assms
proof (induction i False m rule: report_from.induct)
  case (2 pi i m)
  have tl: "sorted (map fst (i # m))" using 2(3) by simp
  show ?case
  proof (cases "fst pi = fst i")
    case True
    then have "fst ` set (pi # i # m) = fst ` set (i # m)" by auto
    then show ?thesis using length_report_flagged [OF tl] True by simp
  next
    case False
    have new: "fst pi \<notin> fst ` set (i # m)" using False 2(3) by (force simp: le_less)
    have "card (fst ` set (pi # i # m)) = Suc (card (fst ` set (i # m)))"
      using new by simp
    then show ?thesis using 2(2) [OF False tl] new False by (simp add: image_iff)
  qed
qed simp

lemma length_report_duplicates:
  assumes "sorted (map fst m)"
  shows "length (report_duplicates m) =
    (if distinct (map fst m) then 0 else Suc (length m - card (fst ` set m)))"
proof (cases m)
  case (Cons i m')
  then show ?thesis
    using length_report_from [of i m'] assms by (simp only: report_duplicates_def list.case list.size add_Suc_right add_0_right)
qed (simp add: report_duplicates_def)

lemma report_duplicates_Nil_iff:
  "sorted (map fst m) \<Longrightarrow> report_duplicates m = [] \<longleftrightarrow> distinct (map fst m)"
  using length_report_duplicates [of m] by (metis length_0_conv nat.simps(3))

end
