(* ===== verification/Command_Line.thy ===== *)
theory Command_Line
  imports Lexer_Facts
begin

text \<open>
  The split of a command line into arguments, the loop of
  \<^verbatim>\<open>read_value_node_impl<cmd_line>::read\<close>. The inner loop reads the character after the last
  one of the string without a test; a \<^verbatim>\<open>std::string\<close> holds a terminating NUL there, which
  counts as white space and ends the argument.
\<close>

text \<open>The characters up to the next quote and those after it; None if there is none.\<close>

fun until_quote :: "char \<Rightarrow> string \<Rightarrow> (string \<times> string) option" where
  "until_quote q [] = None"
| "until_quote q (c # s) =
     (if c = q then Some ([], s) else map_option (\<lambda>(a, r). (c # a, r)) (until_quote q s))"

lemma until_quote_length: "until_quote q s = Some (a, r) \<Longrightarrow> length r < length s"
  by (induction s arbitrary: a) (auto split: if_splits)

definition unmatched :: "char \<Rightarrow> string" where
  "unmatched q = ''unmatched '' @ [q]"

text \<open>One argument: an error message, or the argument and the rest.\<close>

function split_argument :: "string \<Rightarrow> string + (string \<times> string)" where
  "split_argument [] = Inr ([], [])"
| "split_argument (c # s) =
     (if c = CHR 0x27 \<or> c = CHR 0x22 then
        (case until_quote c s of
           None \<Rightarrow> Inl (unmatched c)
         | Some (a, r) \<Rightarrow>
             (case split_argument r of Inl e \<Rightarrow> Inl e | Inr (b, r') \<Rightarrow> Inr (a @ b, r')))
      else if is_ascii_whitespace c then Inr ([], c # s)
      else (case split_argument s of Inl e \<Rightarrow> Inl e | Inr (b, r') \<Rightarrow> Inr (c # b, r')))"
  by pat_completeness auto
termination by (relation "measure length") (auto dest: until_quote_length)

lemma split_argument_length: "split_argument s = Inr (a, r) \<Longrightarrow> length r \<le> length s"
proof (induction s arbitrary: a rule: split_argument.induct)
  case (2 c s)
  then show ?case
    by (fastforce split: if_splits option.splits sum.splits dest: until_quote_length)
qed simp

lemma split_argument_progress:
  assumes "split_argument (c # s) = Inr (a, r)" "\<not> is_ascii_whitespace c"
  shows "length r < length (c # s)"
proof (cases "c = CHR 0x27 \<or> c = CHR 0x22")
  case True
  then obtain b t where "until_quote c s = Some (b, t)" "\<exists>a'. split_argument t = Inr (a', r)"
    using assms(1) by (auto split: option.splits sum.splits)
  then show ?thesis
    using until_quote_length [of c s b t] split_argument_length [of t _ r] by fastforce
next
  case False
  then have "\<exists>a'. split_argument s = Inr (a', r)"
    using assms by (auto split: sum.splits)
  then show ?thesis using split_argument_length [of s _ r] by fastforce
qed

text \<open>The outer loop.\<close>

function split_arguments :: "string \<Rightarrow> string + string list" where
  "split_arguments s =
     (case skip_whitespace s of
        [] \<Rightarrow> Inr []
      | c # t \<Rightarrow>
          (case split_argument (c # t) of
             Inl e \<Rightarrow> Inl e
           | Inr (a, r) \<Rightarrow> (case split_arguments r of Inl e \<Rightarrow> Inl e | Inr as \<Rightarrow> Inr (a # as))))"
  by pat_completeness auto
termination
proof (relation "measure length", simp, goal_cases)
  case (1 s c t x a r)
  have "length r < length (c # t)"
    using split_argument_progress [of c t a r] 1 skip_whitespace_stops [of s c t] by simp
  then show ?case using skip_whitespace_length [of s] 1 by simp
qed

declare split_arguments.simps [simp del]

section \<open>Every argument can be written\<close>

text \<open>An argument written with quotes: each character in the kind of quotes it is not.\<close>

definition quote_char :: "char \<Rightarrow> string" where
  "quote_char c = (if c = CHR 0x27 then [CHR 0x22, c, CHR 0x22] else [CHR 0x27, c, CHR 0x27])"

definition quote_argument :: "string \<Rightarrow> string" where
  "quote_argument a = [CHR 0x27, CHR 0x27] @ concat (map quote_char a)"

definition quote_arguments :: "string list \<Rightarrow> string" where
  "quote_arguments as = concat (map (\<lambda>a. quote_argument a @ '' '') as)"

lemma whitespace_chars [simp]:
  "is_ascii_whitespace (CHR '' '')" "\<not> is_ascii_whitespace (CHR 0x27)" "\<not> is_ascii_whitespace (CHR 0x22)"
  by (simp_all add: is_ascii_whitespace_def less_eq_char_def)

lemma split_quoted_chars:
  assumes "is_ascii_whitespace c"
  shows "split_argument (concat (map quote_char a) @ c # s) = Inr (a, c # s)"
proof (induction a)
  case Nil
  show ?case using assms by (auto simp: is_ascii_whitespace_def less_eq_char_def)
next
  case (Cons d a)
  then show ?case by (simp add: quote_char_def)
qed

lemma split_quoted_argument:
  "is_ascii_whitespace c \<Longrightarrow> split_argument (quote_argument a @ c # s) = Inr (a, c # s)"
  using split_quoted_chars [of c a s] by (simp add: quote_argument_def)

lemma split_quoted_arguments: "split_arguments (quote_arguments as) = Inr as"
proof (induction "as")
  case Nil
  show ?case by (simp add: quote_arguments_def split_arguments.simps)
next
  case (Cons a as)
  have "split_arguments (CHR '' '' # quote_arguments as) = split_arguments (quote_arguments as)"
    by (subst (1 2) split_arguments.simps) simp
  then show ?case
    using Cons.IH split_quoted_argument [of "CHR '' ''" a "quote_arguments as"]
    by (subst split_arguments.simps) (simp add: quote_arguments_def quote_argument_def)
qed

text \<open>Words without quotes and white space are the arguments of the words joined by blanks.\<close>

definition plain_word :: "string \<Rightarrow> bool" where
  "plain_word w \<longleftrightarrow> w \<noteq> [] \<and> (\<forall>c \<in> set w. \<not> is_ascii_whitespace c \<and> c \<notin> {CHR 0x27, CHR 0x22})"

lemma split_plain_chars:
  assumes "\<forall>c \<in> set w. \<not> is_ascii_whitespace c \<and> c \<notin> {CHR 0x27, CHR 0x22}" "s = [] \<or> is_ascii_whitespace (hd s)"
  shows "split_argument (w @ s) = Inr (w, s)"
  using assms
proof (induction w)
  case Nil
  then show ?case by (cases s) auto
qed simp

lemma split_plain_word:
  assumes "plain_word w" "s = [] \<or> is_ascii_whitespace (hd s)"
  shows "split_arguments (w @ s) = (case split_arguments s of Inl e \<Rightarrow> Inl e | Inr as \<Rightarrow> Inr (w # as))"
proof -
  obtain c v where w: "w = c # v" using assms(1) by (cases w) (auto simp: plain_word_def)
  have "split_argument (c # v @ s) = Inr (c # v, s)"
    using split_plain_chars [of w s] assms w by (simp add: plain_word_def)
  moreover have "\<not> is_ascii_whitespace c" using assms(1) w by (simp add: plain_word_def)
  ultimately show ?thesis
    unfolding w by (subst split_arguments.simps) (simp del: split_argument.simps)
qed

end
