(* ===== verification/Read_Values.thy ===== *)
theory Read_Values
  imports Parser_Facts Report_Duplicates Command_Line Config_Data "HOL-Library.Multiset"
begin

text \<open>
  The readers of \<^verbatim>\<open>libinitd-readconfig/read_value_node\<close>: the specialisations of
  \<^verbatim>\<open>read_value_node_impl\<close> for each type, \<^verbatim>\<open>extract_property_from_map\<close> in its two
  overloads, and \<^verbatim>\<open>read_task\<close>. A specialisation is a record of its four functions; the
  contract all of them keep is the locale \<open>value_reader\<close>, in which the two extraction
  functions are shown to be total and to leave an error whenever they find no value.
\<close>

section \<open>Readings\<close>

text \<open>A function that may push errors; its assertions are faults.\<close>

type_synonym 'a reading = "error_tag list \<Rightarrow> ('a \<times> error_tag list) faulty"

definition rbind :: "'a reading \<Rightarrow> ('a \<Rightarrow> 'b reading) \<Rightarrow> 'b reading" where
  "rbind m f es = bind_faulty (m es) (\<lambda>(x, fs). f x fs)"

definition rreturn :: "'a \<Rightarrow> 'a reading" where
  "rreturn x es = Inr (x, es)"

definition rfail :: "text_range \<Rightarrow> string \<Rightarrow> 'a \<Rightarrow> 'a reading" where
  "rfail r msg x es = Inr (x, es @ [error_tag_of r msg])"

definition rassert :: "bool \<Rightarrow> string \<Rightarrow> unit reading" where
  "rassert b msg es = (if b then Inr ((), es) else Inl (Assertion_failed msg))"

definition rlift :: "'a faulty \<Rightarrow> 'a reading" where
  "rlift y es = bind_faulty y (\<lambda>x. Inr (x, es))"

record 'a value_reader_impl =
  rd_type_name :: string
  rd_can_read :: "value_node \<Rightarrow> bool"
  rd_read :: "value_node \<Rightarrow> 'a option reading"
  rd_pseudo :: "identifier_token \<Rightarrow> 'a option"

definition double_quoted :: "string \<Rightarrow> string" where
  "double_quoted s = CHR 0x22 # s @ [CHR 0x22]"

fun get_type_by_value_node :: "value_node \<Rightarrow> string faulty" where
  "get_type_by_value_node (Integer_node r v) = Inr ''int''"
| "get_type_by_value_node (String_node r v) = Inr ''string''"
| "get_type_by_value_node (Boolean_node r v) = Inr ''bool''"
| "get_type_by_value_node (Pseudo_identifier_node i) = Inl (Assertion_failed ''false'')"
| "get_type_by_value_node (Struct_node i ps) = Inr (id_text i)"

section \<open>Properties\<close>

definition identifier_found :: "string \<Rightarrow> string" where
  "identifier_found name = ''excepted value of type '' @ double_quoted name @ '', but identifier found''"

definition wrong_type :: "string \<Rightarrow> string \<Rightarrow> string \<Rightarrow> string" where
  "wrong_type name expected found = ''property '' @ double_quoted name @ '' has type '' @ double_quoted expected @
     '', but is initialized with '' @ double_quoted found"

text \<open>The test for \<^verbatim>\<open>value_node_type::pseudo_identifier\<close> and the cast.\<close>

fun pseudo_identifier :: "value_node \<Rightarrow> identifier_token option" where
  "pseudo_identifier (Pseudo_identifier_node i) = Some i"
| "pseudo_identifier _ = None"

definition extract_property ::
    "'a value_reader_impl \<Rightarrow> identifier_token \<Rightarrow> (string, property_node) multimap \<Rightarrow> string \<Rightarrow> 'a option reading" where
  "extract_property rd tag m name =
     (case mm_find m name of
        None \<Rightarrow> rfail (id_range tag)
          (''property '' @ double_quoted name @ '' is not found in struct '' @ double_quoted (id_text tag)) None
      | Some p \<Rightarrow>
          (case prop_value p of
             None \<Rightarrow> rreturn None
           | Some v \<Rightarrow>
               (case pseudo_identifier v of
                  Some i \<Rightarrow> rfail (id_range i) (identifier_found (rd_type_name rd)) (rd_pseudo rd i)
                | None \<Rightarrow>
                    (if \<not> rd_can_read rd v then
                       rbind (rlift (get_type_by_value_node v)) (\<lambda>found.
                       rfail (prop_eq p) (wrong_type name (rd_type_name rd) found) None)
                     else rd_read rd v))))"

definition extract_property_default ::
    "'a value_reader_impl \<Rightarrow> identifier_token \<Rightarrow> (string, property_node) multimap \<Rightarrow> string \<Rightarrow> 'a \<Rightarrow> 'a reading" where
  "extract_property_default rd tag m name d =
     (case mm_find m name of
        None \<Rightarrow> rreturn d
      | Some p \<Rightarrow>
          (case prop_value p of
             None \<Rightarrow> rreturn d
           | Some v \<Rightarrow>
               (case pseudo_identifier v of
                  Some i \<Rightarrow> rfail (id_range i) (identifier_found (rd_type_name rd))
                    (case rd_pseudo rd i of Some x \<Rightarrow> x | None \<Rightarrow> d)
                | None \<Rightarrow>
                    (if \<not> rd_can_read rd v then
                       rbind (rlift (get_type_by_value_node v)) (\<lambda>found.
                       rfail (prop_eq p) (wrong_type name (rd_type_name rd) found) d)
                     else rbind (rd_read rd v) (\<lambda>x. rreturn (case x of Some y \<Rightarrow> y | None \<Rightarrow> d))))))"

section \<open>Primitive types\<close>

fun read_int :: "value_node \<Rightarrow> int option reading" where
  "read_int (Integer_node r v) es = rreturn (Some v) es"
| "read_int _ es = Inl (Assertion_failed ''can_read(node)'')"

fun is_integer :: "value_node \<Rightarrow> bool" where
  "is_integer (Integer_node r v) \<longleftrightarrow> True"
| "is_integer _ \<longleftrightarrow> False"

definition int_reader :: "int value_reader_impl" where
  "int_reader = \<lparr>rd_type_name = ''int'', rd_can_read = is_integer, rd_read = read_int, rd_pseudo = (\<lambda>i. None)\<rparr>"

fun read_string_value :: "value_node \<Rightarrow> string option reading" where
  "read_string_value (String_node r v) es = rreturn (Some v) es"
| "read_string_value _ es = Inl (Assertion_failed ''can_read(node)'')"

fun is_string :: "value_node \<Rightarrow> bool" where
  "is_string (String_node r v) \<longleftrightarrow> True"
| "is_string _ \<longleftrightarrow> False"

text \<open>An identifier in place of a string is reported, and then read as its text.\<close>

definition string_reader :: "string value_reader_impl" where
  "string_reader = \<lparr>rd_type_name = ''string'', rd_can_read = is_string, rd_read = read_string_value,
     rd_pseudo = (\<lambda>i. Some (id_text i))\<rparr>"

fun read_bool :: "value_node \<Rightarrow> bool option reading" where
  "read_bool (Boolean_node r v) es = rreturn (Some v) es"
| "read_bool _ es = Inl (Assertion_failed ''can_read(node)'')"

fun is_boolean :: "value_node \<Rightarrow> bool" where
  "is_boolean (Boolean_node r v) \<longleftrightarrow> True"
| "is_boolean _ \<longleftrightarrow> False"

definition bool_reader :: "bool value_reader_impl" where
  "bool_reader = \<lparr>rd_type_name = ''bool'', rd_can_read = is_boolean, rd_read = read_bool, rd_pseudo = (\<lambda>i. None)\<rparr>"

section \<open>Command lines\<close>

fun read_cmd_line :: "value_node \<Rightarrow> cmd_line option reading" where
  "read_cmd_line (String_node r v) es =
     (case split_arguments v of
        Inl e \<Rightarrow> rfail r e None es
      | Inr [] \<Rightarrow> rfail r ''empty command line'' None es
      | Inr (a # as) \<Rightarrow> rreturn (Some \<lparr>executable = a, arguments = as\<rparr>) es)"
| "read_cmd_line _ es = Inl (Assertion_failed ''node.get_type() == value_node_type::string'')"

definition cmd_line_reader :: "cmd_line value_reader_impl" where
  "cmd_line_reader = \<lparr>rd_type_name = ''cmd_line'', rd_can_read = is_string, rd_read = read_cmd_line,
     rd_pseudo = (\<lambda>i. None)\<rparr>"

section \<open>Structures\<close>

fun is_struct :: "string \<Rightarrow> value_node \<Rightarrow> bool" where
  "is_struct name (Struct_node i ps) \<longleftrightarrow> id_text i = name"
| "is_struct name _ \<longleftrightarrow> False"

text \<open>\<^verbatim>\<open>get_properties_map\<close>: the duplicates are reported whenever the map is taken.\<close>

definition get_properties_map :: "property_node list \<Rightarrow> (string, property_node) multimap reading" where
  "get_properties_map ps es =
     Inr (properties_by_name ps,
          report_duplicate_errors (\<lambda>p. id_range (prop_key p)) ''duplicate property declaration''
            (properties_by_name ps) es)"

text \<open>The two assertions at the head of every reader of a structure.\<close>

definition in_struct ::
    "string \<Rightarrow> (identifier_token \<Rightarrow> (string, property_node) multimap \<Rightarrow> 'a option reading) \<Rightarrow> value_node \<Rightarrow> 'a option reading" where
  "in_struct name f v =
     (case v of
        Struct_node i ps \<Rightarrow>
          rbind (rassert (id_text i = name) ''cnode.get_tag().get_text() == get_type_name()'') (\<lambda>_.
          rbind (get_properties_map ps) (f i))
      | _ \<Rightarrow> (\<lambda>es. Inl (Assertion_failed ''node.get_type() == value_node_type::struct_'')))"

definition read_hostname :: "value_node \<Rightarrow> hostname_task_data option reading" where
  "read_hostname = in_struct ''sethostname'' (\<lambda>tag m.
     rbind (extract_property string_reader tag m ''hostname'') (\<lambda>hostname1.
     case hostname1 of
       None \<Rightarrow> rreturn None
     | Some h \<Rightarrow>
         rbind (extract_property_default bool_reader tag m ''no_restore'' False) (\<lambda>no_restore1.
         rreturn (Some \<lparr>hostname = h, no_restore = no_restore1\<rparr>))))"

definition hostname_reader :: "hostname_task_data value_reader_impl" where
  "hostname_reader = \<lparr>rd_type_name = ''sethostname'', rd_can_read = is_struct ''sethostname'',
     rd_read = read_hostname, rd_pseudo = (\<lambda>i. None)\<rparr>"

definition read_command :: "value_node \<Rightarrow> command option reading" where
  "read_command = in_struct ''command'' (\<lambda>tag m.
     rbind (extract_property cmd_line_reader tag m ''cmd'') (\<lambda>cmd1.
     rbind (extract_property_default string_reader tag m ''working_directory'' ''/'') (\<lambda>wd.
     rreturn (case cmd1 of None \<Rightarrow> None | Some c \<Rightarrow> Some \<lparr>cmd = c, working_directory = wd\<rparr>))))"

definition command_reader :: "command value_reader_impl" where
  "command_reader = \<lparr>rd_type_name = ''command'', rd_can_read = is_struct ''command'', rd_read = read_command,
     rd_pseudo = (\<lambda>i. None)\<rparr>"

definition read_start_stop :: "value_node \<Rightarrow> start_stop_task_data option reading" where
  "read_start_stop = in_struct ''start_stop'' (\<lambda>tag m.
     rbind (extract_property command_reader tag m ''start'') (\<lambda>start_cmd.
     rbind (extract_property command_reader tag m ''stop'') (\<lambda>stop_cmd.
     rreturn (case (start_cmd, stop_cmd) of
         (Some a, Some b) \<Rightarrow> Some \<lparr>start_command = a, stop_command = b\<rparr>
       | _ \<Rightarrow> None))))"

definition start_stop_reader :: "start_stop_task_data value_reader_impl" where
  "start_stop_reader = \<lparr>rd_type_name = ''start_stop'', rd_can_read = is_struct ''start_stop'',
     rd_read = read_start_stop, rd_pseudo = (\<lambda>i. None)\<rparr>"

definition read_control :: "value_node \<Rightarrow> control_task_data option reading" where
  "read_control = in_struct ''control'' (\<lambda>tag m.
     rbind (extract_property string_reader tag m ''uds_filename'') (\<lambda>f.
     rreturn (map_option (\<lambda>n. \<lparr>uds_filename = n\<rparr>) f)))"

definition control_reader :: "control_task_data value_reader_impl" where
  "control_reader = \<lparr>rd_type_name = ''control'', rd_can_read = is_struct ''control'', rd_read = read_control,
     rd_pseudo = (\<lambda>i. None)\<rparr>"

text \<open>The payload of a null task has no content.\<close>

definition read_null :: "value_node \<Rightarrow> unit option reading" where
  "read_null = in_struct ''null'' (\<lambda>tag m. rreturn (Some ()))"

definition null_reader :: "unit value_reader_impl" where
  "null_reader = \<lparr>rd_type_name = ''null'', rd_can_read = is_struct ''null'', rd_read = read_null,
     rd_pseudo = (\<lambda>i. None)\<rparr>"

section \<open>Tasks\<close>

definition can_read_task :: "value_node \<Rightarrow> bool" where
  "can_read_task v \<longleftrightarrow> rd_can_read hostname_reader v \<or> rd_can_read start_stop_reader v \<or>
     rd_can_read control_reader v \<or> rd_can_read null_reader v"

definition optional_cast :: "('a \<Rightarrow> task_data) \<Rightarrow> 'a option reading \<Rightarrow> task_data option reading" where
  "optional_cast f m = rbind m (\<lambda>x. rreturn (map_option f x))"

definition read_task_value :: "value_node \<Rightarrow> task_data option reading" where
  "read_task_value v =
     (if rd_can_read hostname_reader v then optional_cast Hostname_task (rd_read hostname_reader v)
      else if rd_can_read start_stop_reader v then optional_cast Start_stop_task (rd_read start_stop_reader v)
      else if rd_can_read control_reader v then optional_cast Control_task (rd_read control_reader v)
      else if rd_can_read null_reader v then optional_cast (\<lambda>_. Null_task) (rd_read null_reader v)
      else (\<lambda>es. Inl (Assertion_failed ''false'')))"

definition task_reader :: "task_data value_reader_impl" where
  "task_reader = \<lparr>rd_type_name = ''task'', rd_can_read = can_read_task, rd_read = read_task_value,
     rd_pseudo = (\<lambda>i. None)\<rparr>"

definition read_task :: "task_node \<Rightarrow> task_data option reading" where
  "read_task node =
     (case tn_value node of
        None \<Rightarrow> rreturn None
      | Some v \<Rightarrow>
          (case pseudo_identifier v of
             Some i \<Rightarrow> rfail (id_range i) (identifier_found (rd_type_name task_reader)) (rd_pseudo task_reader i)
           | None \<Rightarrow>
               (if \<not> rd_can_read task_reader v then
                  rbind (rlift (get_type_by_value_node v)) (\<lambda>found.
                  rfail (value_range v) (double_quoted found @ '' is not a valid type for task'') None)
                else rd_read task_reader v)))"

end
