(* ===== verification/Reader_Contract.thy ===== *)
theory Reader_Contract
  imports Read_Values
begin

text \<open>
  What every reader promises, as a locale: it ends without failing an assertion, and on a
  tree with nothing missing it gives data without an error exactly if the value stands for
  that data in a declarative sense. Each specialisation of \<^verbatim>\<open>read_value_node_impl\<close> is an
  interpretation; those of structures rest on the locale's lemmas on the properties.
\<close>

section \<open>What a reading gives\<close>

text \<open>The value and the errors it adds, which do not depend on the errors so far.\<close>

definition gives :: "'a reading \<Rightarrow> 'a \<Rightarrow> error_tag list \<Rightarrow> bool" where
  "gives m x fs \<longleftrightarrow> (\<forall>es. m es = Inr (x, es @ fs))"

definition results :: "'a reading \<Rightarrow> ('a \<Rightarrow> error_tag list \<Rightarrow> bool) \<Rightarrow> bool" where
  "results m P \<longleftrightarrow> (\<exists>x fs. gives m x fs \<and> P x fs)"

lemma results_bind:
  assumes "results m Q" "\<And>x fs. Q x fs \<Longrightarrow> results (f x) (\<lambda>y gs. P y (fs @ gs))"
  shows "results (rbind m f) P"
proof -
  obtain x fs where x: "\<forall>es. m es = Inr (x, es @ fs)" "Q x fs"
    using assms(1) by (auto simp: results_def gives_def)
  obtain y gs where "\<forall>es. f x es = Inr (y, es @ gs)" "P y (fs @ gs)"
    using assms(2) [OF x(2)] by (auto simp: results_def gives_def)
  then show ?thesis
    using x(1) by (auto simp: results_def gives_def rbind_def intro!: exI [of _ y] exI [of _ "fs @ gs"])
qed

lemma results_return: "P x [] \<Longrightarrow> results (rreturn x) P"
  by (auto simp: results_def gives_def rreturn_def)

lemma results_fail: "P x [error_tag_of r msg] \<Longrightarrow> results (rfail r msg x) P"
  by (auto simp: results_def gives_def rfail_def)

lemma results_weaken: "results m P \<Longrightarrow> (\<And>x fs. P x fs \<Longrightarrow> Q x fs) \<Longrightarrow> results m Q"
  by (auto simp: results_def)

text \<open>
  The promise of a reader for a value that stands for the data \<open>D\<close>: it ends, and if nothing is
  missing in the tree, it gives such data without an error exactly if there is any, and there
  is an error whenever there is no result.
\<close>

definition meets :: "'a option reading \<Rightarrow> bool \<Rightarrow> ('a \<Rightarrow> bool) \<Rightarrow> bool" where
  "meets m complete D \<longleftrightarrow>
     results m (\<lambda>x fs. complete \<longrightarrow> (\<forall>d. x = Some d \<and> fs = [] \<longleftrightarrow> D d) \<and> (x = None \<longrightarrow> fs \<noteq> []))"

text \<open>The value of the property of a name; of equal names, the first counts.\<close>

definition field :: "property_node list \<Rightarrow> string \<Rightarrow> value_node option" where
  "field ps name = Option.bind (map_of (map (\<lambda>p. (id_text (prop_key p), p)) ps) name) prop_value"

lemma properties_by_name_eq: "properties_by_name ps = mm.from_list (map (\<lambda>p. (id_text (prop_key p), p)) ps)"
  by (simp add: properties_by_name_def mm.from_list_def foldl_map)

lemma find_property: "mm_find (properties_by_name ps) name = map_of (map (\<lambda>p. (id_text (prop_key p), p)) ps) name"
  by (simp add: properties_by_name_eq mm.find_from_list)

lemma complete_property_value: "complete_property p \<Longrightarrow> prop_value p \<noteq> None"
  by (cases p) (auto split: option.splits)

lemma found_property:
  assumes "mm_find (properties_by_name ps) name = Some p"
  shows "field ps name = prop_value p" "p \<in> set ps" "list_all complete_property ps \<Longrightarrow> prop_value p \<noteq> None"
proof -
  have p: "map_of (map (\<lambda>p. (id_text (prop_key p), p)) ps) name = Some p"
    using assms by (simp add: find_property)
  then show "field ps name = prop_value p" by (simp add: field_def)
  show in_ps: "p \<in> set ps" using map_of_SomeD [OF p] by auto
  show "list_all complete_property ps \<Longrightarrow> prop_value p \<noteq> None"
    using in_ps complete_property_value [of p] by (simp add: list_all_iff)
qed

lemma missing_property: "mm_find (properties_by_name ps) name = None \<Longrightarrow> field ps name = None"
  by (simp add: find_property field_def)

lemma complete_field: "list_all complete_property ps \<Longrightarrow> field ps name = Some v \<Longrightarrow> complete_value v"
proof -
  assume ps: "list_all complete_property ps" and v: "field ps name = Some v"
  obtain p where "mm_find (properties_by_name ps) name = Some p"
    using missing_property v by (cases "mm_find (properties_by_name ps) name") auto
  note p = found_property [OF this]
  show "complete_value v"
    using p(1,2) ps v by (cases p) (auto simp: list_all_iff)
qed

text \<open>A structure of a name with different property names.\<close>

definition struct_with :: "string \<Rightarrow> value_node \<Rightarrow> property_node list \<Rightarrow> bool" where
  "struct_with name v ps \<longleftrightarrow> (\<exists>i. v = Struct_node i ps \<and> id_text i = name) \<and>
     distinct (map (\<lambda>p. id_text (prop_key p)) ps)"

definition required :: "property_node list \<Rightarrow> string \<Rightarrow> (value_node \<Rightarrow> 'a \<Rightarrow> bool) \<Rightarrow> 'a \<Rightarrow> bool" where
  "required ps name D d \<longleftrightarrow> (\<exists>v. field ps name = Some v \<and> D v d)"

definition defaulting :: "property_node list \<Rightarrow> string \<Rightarrow> (value_node \<Rightarrow> 'a \<Rightarrow> bool) \<Rightarrow> 'a \<Rightarrow> 'a \<Rightarrow> bool" where
  "defaulting ps name D def d \<longleftrightarrow> (case field ps name of None \<Rightarrow> d = def | Some v \<Rightarrow> D v d)"

section \<open>The contract of the readers\<close>

locale value_reader =
  fixes rd :: "'a value_reader_impl"
    and denotes :: "value_node \<Rightarrow> 'a \<Rightarrow> bool"
  assumes identifier_unread: "\<not> rd_can_read rd (Pseudo_identifier_node i)"
    and denotes_read: "denotes v d \<Longrightarrow> rd_can_read rd v"
    and reads_value: "rd_can_read rd v \<Longrightarrow> meets (rd_read rd v) (complete_value v) (denotes v)"
begin

lemma unread_type:
  assumes "\<not> rd_can_read rd v" "pseudo_identifier v = None"
  shows "results (rbind (rlift (get_type_by_value_node v)) (\<lambda>found. rfail r (msg found) x)) (\<lambda>y fs. y = x \<and> fs \<noteq> [])"
  using assms by (cases v) (auto simp: results_def gives_def rbind_def rlift_def rfail_def)

lemma not_denoted: "pseudo_identifier v \<noteq> None \<or> \<not> rd_can_read rd v \<Longrightarrow> \<not> denotes v d"
  using denotes_read identifier_unread by (cases v) auto

text \<open>A required property: read if it is there, and otherwise an error.\<close>

lemma extract_property_meets:
  "meets (extract_property rd tag (properties_by_name ps) name) (list_all complete_property ps)
     (required ps name denotes)"
proof (cases "mm_find (properties_by_name ps) name")
  case None
  then show ?thesis
    using missing_property [OF None] by (auto simp: meets_def extract_property_def required_def intro!: results_fail)
next
  case (Some p)
  note p = found_property [OF Some]
  show ?thesis
  proof (cases "prop_value p")
    case None
    then show ?thesis
      using Some p by (auto simp: meets_def extract_property_def required_def intro!: results_return)
  next
    case (Some v)
    have "list_all complete_property ps \<longrightarrow> complete_value v" using complete_field p(1) Some by simp
    then have weaken: "meets (rd_read rd v) (list_all complete_property ps) (denotes v)" if "rd_can_read rd v"
      using reads_value [OF that] by (auto simp: meets_def elim!: results_weaken)
    show ?thesis
      using Some \<open>mm_find (properties_by_name ps) name = Some p\<close> p(1) not_denoted [of v] weaken
      by (auto simp: extract_property_def required_def meets_def split: option.split
          intro!: results_fail results_weaken [OF unread_type])
  qed
qed

text \<open>A property with a default: the default if it is not there.\<close>

lemma extract_property_default_results:
  "results (extract_property_default rd tag (properties_by_name ps) name d)
     (\<lambda>x fs. list_all complete_property ps \<longrightarrow>
        (\<forall>y. x = y \<and> fs = [] \<longleftrightarrow> defaulting ps name denotes d y))"
proof (cases "mm_find (properties_by_name ps) name")
  case None
  then show ?thesis
    using missing_property [OF None] by (auto simp: extract_property_default_def defaulting_def intro!: results_return)
next
  case (Some p)
  note p = found_property [OF Some]
  show ?thesis
  proof (cases "prop_value p")
    case None
    then show ?thesis
      using Some p by (auto simp: extract_property_default_def defaulting_def intro!: results_return)
  next
    case (Some v)
    have complete: "list_all complete_property ps \<longrightarrow> complete_value v" using complete_field p(1) Some by simp
    have read: "results (rbind (rd_read rd v) (\<lambda>x. rreturn (case x of Some y \<Rightarrow> y | None \<Rightarrow> d)))
        (\<lambda>x fs. list_all complete_property ps \<longrightarrow> (\<forall>y. x = y \<and> fs = [] \<longleftrightarrow> denotes v y))" if "rd_can_read rd v"
      by (rule results_bind [OF reads_value [OF that, unfolded meets_def]])
        (use complete in \<open>auto intro!: results_return split: option.split\<close>)
    show ?thesis
      using Some \<open>mm_find (properties_by_name ps) name = Some p\<close> p(1) not_denoted [of v] read
      by (auto simp: extract_property_default_def defaulting_def split: option.split
          intro!: results_fail results_weaken [OF unread_type])
  qed
qed

end

section \<open>The data a value stands for\<close>

definition denotes_int :: "value_node \<Rightarrow> int \<Rightarrow> bool" where
  "denotes_int v n \<longleftrightarrow> (\<exists>r. v = Integer_node r n)"

definition denotes_string :: "value_node \<Rightarrow> string \<Rightarrow> bool" where
  "denotes_string v s \<longleftrightarrow> (\<exists>r. v = String_node r s)"

definition denotes_bool :: "value_node \<Rightarrow> bool \<Rightarrow> bool" where
  "denotes_bool v b \<longleftrightarrow> (\<exists>r. v = Boolean_node r b)"

definition denotes_cmd_line :: "value_node \<Rightarrow> cmd_line \<Rightarrow> bool" where
  "denotes_cmd_line v c \<longleftrightarrow> (\<exists>r s. v = String_node r s \<and> split_arguments s = Inr (executable c # arguments c))"

definition denotes_hostname :: "value_node \<Rightarrow> hostname_task_data \<Rightarrow> bool" where
  "denotes_hostname v d \<longleftrightarrow> (\<exists>ps. struct_with ''sethostname'' v ps \<and>
     required ps ''hostname'' denotes_string (hostname d) \<and>
     defaulting ps ''no_restore'' denotes_bool False (no_restore d))"

definition denotes_command :: "value_node \<Rightarrow> command \<Rightarrow> bool" where
  "denotes_command v d \<longleftrightarrow> (\<exists>ps. struct_with ''command'' v ps \<and>
     required ps ''cmd'' denotes_cmd_line (cmd d) \<and>
     defaulting ps ''working_directory'' denotes_string ''/'' (working_directory d))"

definition denotes_start_stop :: "value_node \<Rightarrow> start_stop_task_data \<Rightarrow> bool" where
  "denotes_start_stop v d \<longleftrightarrow> (\<exists>ps. struct_with ''start_stop'' v ps \<and>
     required ps ''start'' denotes_command (start_command d) \<and>
     required ps ''stop'' denotes_command (stop_command d))"

definition denotes_control :: "value_node \<Rightarrow> control_task_data \<Rightarrow> bool" where
  "denotes_control v d \<longleftrightarrow> (\<exists>ps. struct_with ''control'' v ps \<and>
     required ps ''uds_filename'' denotes_string (uds_filename d))"

definition denotes_null :: "value_node \<Rightarrow> unit \<Rightarrow> bool" where
  "denotes_null v d \<longleftrightarrow> (\<exists>ps. struct_with ''null'' v ps)"

fun denotes_task :: "value_node \<Rightarrow> task_data \<Rightarrow> bool" where
  "denotes_task v (Hostname_task d) \<longleftrightarrow> denotes_hostname v d"
| "denotes_task v (Start_stop_task d) \<longleftrightarrow> denotes_start_stop v d"
| "denotes_task v (Control_task d) \<longleftrightarrow> denotes_control v d"
| "denotes_task v Null_task \<longleftrightarrow> denotes_null v ()"
| "denotes_task v (Mount_task d) \<longleftrightarrow> False"

section \<open>Every reader keeps the contract\<close>

lemma meets_return: "(\<And>d. x = Some d \<longleftrightarrow> D d) \<Longrightarrow> (ok \<longrightarrow> x \<noteq> None) \<Longrightarrow> meets (rreturn x) ok D"
  by (auto simp: meets_def intro!: results_return)

lemma meets_fail: "(\<And>d. \<not> D d) \<Longrightarrow> meets (rfail r msg None) ok D"
  by (auto simp: meets_def intro!: results_fail)

lemma reader_apply:
  "read_int (Integer_node r n) = rreturn (Some n)"
  "read_string_value (String_node r s) = rreturn (Some s)"
  "read_bool (Boolean_node r b) = rreturn (Some b)"
  "read_cmd_line (String_node r s) =
     (case split_arguments s of
        Inl e \<Rightarrow> rfail r e None
      | Inr as \<Rightarrow> (case as of [] \<Rightarrow> rfail r ''empty command line'' None
          | a # bs \<Rightarrow> rreturn (Some \<lparr>executable = a, arguments = bs\<rparr>)))"
  by (auto simp: fun_eq_iff split: sum.splits list.splits)

interpretation int_rd: value_reader int_reader denotes_int
proof
  show "meets (rd_read int_reader v) (complete_value v) (denotes_int v)" if "rd_can_read int_reader v" for v
    using that by (cases v) (auto simp: int_reader_def denotes_int_def reader_apply intro!: meets_return)
qed (auto simp: int_reader_def denotes_int_def)

interpretation string_rd: value_reader string_reader denotes_string
proof
  show "meets (rd_read string_reader v) (complete_value v) (denotes_string v)" if "rd_can_read string_reader v" for v
    using that by (cases v) (auto simp: string_reader_def denotes_string_def reader_apply intro!: meets_return)
qed (auto simp: string_reader_def denotes_string_def)

interpretation bool_rd: value_reader bool_reader denotes_bool
proof
  show "meets (rd_read bool_reader v) (complete_value v) (denotes_bool v)" if "rd_can_read bool_reader v" for v
    using that by (cases v) (auto simp: bool_reader_def denotes_bool_def reader_apply intro!: meets_return)
qed (auto simp: bool_reader_def denotes_bool_def)

interpretation cmd_line_rd: value_reader cmd_line_reader denotes_cmd_line
proof
  show "meets (rd_read cmd_line_reader v) (complete_value v) (denotes_cmd_line v)" if "rd_can_read cmd_line_reader v" for v
    using that by (cases v) (auto simp: cmd_line_reader_def denotes_cmd_line_def reader_apply
        intro!: meets_return meets_fail split: sum.split list.split)
qed (auto simp: cmd_line_reader_def denotes_cmd_line_def)


lemma distinct_by_name:
  "distinct (map fst (properties_by_name ps)) \<longleftrightarrow> distinct (map (\<lambda>p. id_text (prop_key p)) ps)"
proof -
  have ins: "mset (mm_insert k v m) = add_mset (k, v) (mset m)" for k :: string and v :: property_node and m
    by (induction k v m rule: mm_insert.induct) auto
  have "mset (foldl (\<lambda>m p. mm_insert (id_text (prop_key p)) p m) m ps) =
      mset m + mset (map (\<lambda>p. (id_text (prop_key p), p)) ps)" for m
    by (induction ps arbitrary: m) (simp_all add: ins)
  then have "mset (properties_by_name ps) = mset (map (\<lambda>p. (id_text (prop_key p), p)) ps)"
    by (simp add: properties_by_name_def)
  then have "mset (map fst (properties_by_name ps)) = mset (map fst (map (\<lambda>p. (id_text (prop_key p), p)) ps))"
    by (metis mset_map)
  from mset_eq_imp_distinct_iff [OF this] show ?thesis by (simp add: comp_def)
qed

lemma properties_map_results:
  "results (get_properties_map ps) (\<lambda>m fs. m = properties_by_name ps \<and>
     (fs = [] \<longleftrightarrow> distinct (map (\<lambda>p. id_text (prop_key p)) ps)))"
proof -
  have "sorted (map fst (properties_by_name ps))"
    by (simp add: properties_by_name_eq mm.invar_from_list)
  then show ?thesis
    by (auto simp: results_def gives_def get_properties_map_def report_duplicate_errors_def
        report_duplicates_Nil_iff distinct_by_name)
qed

lemma in_struct_meets:
  assumes "\<And>i ps. meets (f i (properties_by_name ps)) (list_all complete_property ps) (D ps)" "is_struct name v"
  shows "meets (in_struct name f v) (complete_value v) (\<lambda>d. \<exists>ps. struct_with name v ps \<and> D ps d)"
proof -
  obtain i ps where v: "v = Struct_node i ps" "id_text i = name" using assms(2) by (cases v) auto
  have body: "meets (rbind (get_properties_map ps) (f i)) (complete_value v) (\<lambda>d. \<exists>ps. struct_with name v ps \<and> D ps d)"
    unfolding meets_def
    by (rule results_bind [OF properties_map_results], clarify, rule results_weaken, rule assms(1) [unfolded meets_def])
      (use v in \<open>auto simp: struct_with_def\<close>)
  have "rbind (rassert True msg) (\<lambda>_. m) = m" for msg and m :: "'a option reading"
    by (simp add: fun_eq_iff rbind_def rassert_def)
  then show ?thesis using body v by (simp add: in_struct_def)
qed

lemma denotes_struct: "struct_with name v ps \<Longrightarrow> is_struct name v"
  by (auto simp: struct_with_def)

lemma meets_bind:
  assumes m: "meets m ok D" and some: "\<And>x. meets (g (Some x)) ok (E x)" and none: "results (g None) (\<lambda>_ _. True)"
  shows "meets (rbind m g) ok (\<lambda>d. \<exists>x. D x \<and> E x d)"
  unfolding meets_def
proof (rule results_bind [OF m [unfolded meets_def]])
  fix x and fs :: "error_tag list"
  assume x: "ok \<longrightarrow> (\<forall>d. (x = Some d \<and> fs = []) = D d) \<and> (x = None \<longrightarrow> fs \<noteq> [])"
  show "results (g x) (\<lambda>y gs. ok \<longrightarrow> (\<forall>d. (y = Some d \<and> fs @ gs = []) = (\<exists>x. D x \<and> E x d)) \<and> (y = None \<longrightarrow> fs @ gs \<noteq> []))"
  proof (cases x)
    case None
    then show ?thesis using none x by (auto elim!: results_weaken)
  next
    case (Some h)
    then show ?thesis using some [of h, unfolded meets_def] x by (auto elim!: results_weaken)
  qed
qed

lemma meets_bind_total:
  assumes "results m (\<lambda>x fs. ok \<longrightarrow> (\<forall>y. x = y \<and> fs = [] \<longleftrightarrow> D y))" "\<And>x. meets (g x) ok (E x)"
  shows "meets (rbind m g) ok (\<lambda>d. \<exists>x. D x \<and> E x d)"
  unfolding meets_def
proof (rule results_bind [OF assms(1)])
  fix x and fs :: "error_tag list"
  assume "ok \<longrightarrow> (\<forall>y. (x = y \<and> fs = []) = D y)"
  then have D: "D = (\<lambda>y. x = y \<and> fs = [])" if ok using that by auto
  show "results (g x) (\<lambda>y gs. ok \<longrightarrow> (\<forall>d. (y = Some d \<and> fs @ gs = []) = (\<exists>x. D x \<and> E x d)) \<and> (y = None \<longrightarrow> fs @ gs \<noteq> []))"
    by (rule results_weaken [OF assms(2) [of x, unfolded meets_def]]) (auto simp: D)
qed

lemma meets_some: "meets (rreturn (Some x)) ok (\<lambda>d. d = x)"
  by (auto intro!: meets_return)

lemma meets_eq: "meets m ok D \<Longrightarrow> (\<And>d. D d = E d) \<Longrightarrow> meets m ok E"
  by (simp add: meets_def)

lemma results_nothing: "results (rreturn None) (\<lambda>_ _. True)"
  by (simp add: results_return)

lemma meets_results: "meets m ok D \<Longrightarrow> results m (\<lambda>_ _. True)"
  by (auto simp: meets_def elim!: results_weaken)

lemma data_eq:
  "(d = \<lparr>hostname = h, no_restore = b\<rparr>) \<longleftrightarrow> hostname d = h \<and> no_restore d = b"
  "(e = \<lparr>cmd = c, working_directory = w\<rparr>) \<longleftrightarrow> cmd e = c \<and> working_directory e = w"
  "(s = \<lparr>start_command = a, stop_command = z\<rparr>) \<longleftrightarrow> start_command s = a \<and> stop_command s = z"
  "(u = \<lparr>uds_filename = n\<rparr>) \<longleftrightarrow> uds_filename u = n"
  by auto

lemma reads_struct:
  assumes "is_struct name v" "\<And>i ps. meets (f i (properties_by_name ps)) (list_all complete_property ps) (D ps)"
    and "\<And>d. (\<exists>ps. struct_with name v ps \<and> D ps d) = E d"
  shows "meets (in_struct name f v) (complete_value v) E"
  using in_struct_meets [OF assms(2,1)] assms(3) by (rule meets_eq)

lemma body_hostname:
  "meets (rbind (extract_property string_reader i (properties_by_name ps) ''hostname'') (\<lambda>hostname1.
     case hostname1 of
       None \<Rightarrow> rreturn None
     | Some h \<Rightarrow>
         rbind (extract_property_default bool_reader i (properties_by_name ps) ''no_restore'' False) (\<lambda>no_restore1.
         rreturn (Some \<lparr>hostname = h, no_restore = no_restore1\<rparr>)))) (list_all complete_property ps)
   (\<lambda>d. \<exists>h. required ps ''hostname'' denotes_string h \<and> (\<exists>b. defaulting ps ''no_restore'' denotes_bool False b \<and>
      d = \<lparr>hostname = h, no_restore = b\<rparr>))"
  by (rule meets_bind [OF string_rd.extract_property_meets])
    (auto intro!: meets_bind_total [OF bool_rd.extract_property_default_results] meets_some results_nothing)

interpretation hostname_rd: value_reader hostname_reader denotes_hostname
proof
  show "meets (rd_read hostname_reader v) (complete_value v) (denotes_hostname v)" if "rd_can_read hostname_reader v" for v
    using that unfolding hostname_reader_def read_hostname_def value_reader_impl.simps
    by (rule reads_struct [OF _ body_hostname]) (auto simp: denotes_hostname_def data_eq)
qed (auto simp: hostname_reader_def denotes_hostname_def dest: denotes_struct)

lemma body_command:
  "meets (rbind (extract_property cmd_line_reader i (properties_by_name ps) ''cmd'') (\<lambda>cmd1.
     rbind (extract_property_default string_reader i (properties_by_name ps) ''working_directory'' ''/'') (\<lambda>wd.
     rreturn (case cmd1 of None \<Rightarrow> None | Some c \<Rightarrow> Some \<lparr>cmd = c, working_directory = wd\<rparr>))))
   (list_all complete_property ps)
   (\<lambda>d. \<exists>c. required ps ''cmd'' denotes_cmd_line c \<and> (\<exists>w. defaulting ps ''working_directory'' denotes_string ''/'' w \<and>
      d = \<lparr>cmd = c, working_directory = w\<rparr>))"
  by (rule meets_bind [OF cmd_line_rd.extract_property_meets])
    (auto intro!: meets_bind_total [OF string_rd.extract_property_default_results] meets_some results_return
      results_bind [OF string_rd.extract_property_default_results])

interpretation command_rd: value_reader command_reader denotes_command
proof
  show "meets (rd_read command_reader v) (complete_value v) (denotes_command v)" if "rd_can_read command_reader v" for v
    using that unfolding command_reader_def read_command_def value_reader_impl.simps
    by (rule reads_struct [OF _ body_command]) (auto simp: denotes_command_def data_eq)
qed (auto simp: command_reader_def denotes_command_def dest: denotes_struct)

lemma body_start_stop:
  "meets (rbind (extract_property command_reader i (properties_by_name ps) ''start'') (\<lambda>start_cmd.
     rbind (extract_property command_reader i (properties_by_name ps) ''stop'') (\<lambda>stop_cmd.
     rreturn (case (start_cmd, stop_cmd) of
         (Some a, Some b) \<Rightarrow> Some \<lparr>start_command = a, stop_command = b\<rparr>
       | _ \<Rightarrow> None)))) (list_all complete_property ps)
   (\<lambda>d. \<exists>a. required ps ''start'' denotes_command a \<and> (\<exists>b. required ps ''stop'' denotes_command b \<and>
      d = \<lparr>start_command = a, stop_command = b\<rparr>))"
  by (rule meets_bind [OF command_rd.extract_property_meets])
    (auto intro!: meets_bind [OF command_rd.extract_property_meets] meets_some results_return
      results_bind [OF command_rd.extract_property_meets [THEN meets_results]])

interpretation start_stop_rd: value_reader start_stop_reader denotes_start_stop
proof
  show "meets (rd_read start_stop_reader v) (complete_value v) (denotes_start_stop v)" if "rd_can_read start_stop_reader v" for v
    using that unfolding start_stop_reader_def read_start_stop_def value_reader_impl.simps
    by (rule reads_struct [OF _ body_start_stop]) (auto simp: denotes_start_stop_def data_eq)
qed (auto simp: start_stop_reader_def denotes_start_stop_def dest: denotes_struct)

lemma body_control:
  "meets (rbind (extract_property string_reader i (properties_by_name ps) ''uds_filename'') (\<lambda>f.
     rreturn (map_option (\<lambda>n. \<lparr>uds_filename = n\<rparr>) f))) (list_all complete_property ps)
   (\<lambda>d. \<exists>n. required ps ''uds_filename'' denotes_string n \<and> d = \<lparr>uds_filename = n\<rparr>)"
  by (rule meets_bind [OF string_rd.extract_property_meets]) (auto intro!: meets_some results_nothing)

interpretation control_rd: value_reader control_reader denotes_control
proof
  show "meets (rd_read control_reader v) (complete_value v) (denotes_control v)" if "rd_can_read control_reader v" for v
    using that unfolding control_reader_def read_control_def value_reader_impl.simps
    by (rule reads_struct [OF _ body_control]) (auto simp: denotes_control_def data_eq)
qed (auto simp: control_reader_def denotes_control_def dest: denotes_struct)

interpretation null_rd: value_reader null_reader denotes_null
proof
  show "meets (rd_read null_reader v) (complete_value v) (denotes_null v)" if "rd_can_read null_reader v" for v
    using that unfolding null_reader_def read_null_def value_reader_impl.simps
    by (rule reads_struct [where D = "\<lambda>_ _. True"]) (auto simp: denotes_null_def intro!: meets_return)
qed (auto simp: null_reader_def denotes_null_def dest: denotes_struct)


lemma optional_cast_meets:
  assumes "meets m ok D"
  shows "meets (optional_cast F m) ok (\<lambda>d. \<exists>x. D x \<and> d = F x)"
  unfolding optional_cast_def
  by (rule meets_bind [OF assms]) (auto intro!: meets_some results_nothing)

lemma denotes_task_cases:
  "denotes_task v d \<longleftrightarrow> (\<exists>x. d = Hostname_task x \<and> denotes_hostname v x) \<or> (\<exists>x. d = Start_stop_task x \<and> denotes_start_stop v x) \<or>
     (\<exists>x. d = Control_task x \<and> denotes_control v x) \<or> (d = Null_task \<and> denotes_null v ())"
  by (cases d) auto

lemma denotes_struct_name:
  "denotes_hostname v a \<Longrightarrow> is_struct ''sethostname'' v"
  "denotes_start_stop v b \<Longrightarrow> is_struct ''start_stop'' v"
  "denotes_control v c \<Longrightarrow> is_struct ''control'' v"
  "denotes_null v u \<Longrightarrow> is_struct ''null'' v"
  by (auto simp: denotes_hostname_def denotes_start_stop_def denotes_control_def denotes_null_def dest: denotes_struct)

lemma is_struct_only: "is_struct a v \<Longrightarrow> is_struct b v \<longleftrightarrow> b = a"
  by (cases v) auto

lemma can_read_struct:
  "rd_can_read hostname_reader = is_struct ''sethostname''" "rd_can_read start_stop_reader = is_struct ''start_stop''"
  "rd_can_read control_reader = is_struct ''control''" "rd_can_read null_reader = is_struct ''null''"
  by (simp_all add: hostname_reader_def start_stop_reader_def control_reader_def null_reader_def)

lemma read_task_value_meets:
  assumes "can_read_task v"
  shows "meets (read_task_value v) (complete_value v) (denotes_task v)"
proof -
  consider (h) "is_struct ''sethostname'' v" | (s) "is_struct ''start_stop'' v" | (c) "is_struct ''control'' v" | (n) "is_struct ''null'' v"
    using assms by (auto simp: can_read_task_def can_read_struct)
  then show ?thesis
  proof cases
    case h
    note not = is_struct_only [OF h]
    have "denotes_task v d \<longleftrightarrow> (\<exists>x. denotes_hostname v x \<and> d = Hostname_task x)" for d
      by (auto simp: denotes_task_cases not dest: denotes_struct_name)
    then show ?thesis
      using h meets_eq [OF optional_cast_meets [OF hostname_rd.reads_value]]
      by (simp add: read_task_value_def can_read_struct)
  next
    case s
    note not = is_struct_only [OF s]
    have "denotes_task v d \<longleftrightarrow> (\<exists>x. denotes_start_stop v x \<and> d = Start_stop_task x)" for d
      by (auto simp: denotes_task_cases not dest: denotes_struct_name)
    moreover have "\<not> is_struct ''sethostname'' v" by (simp_all add: not)
    ultimately show ?thesis
      using s meets_eq [OF optional_cast_meets [OF start_stop_rd.reads_value]]
      by (simp add: read_task_value_def can_read_struct)
  next
    case c
    note not = is_struct_only [OF c]
    have "denotes_task v d \<longleftrightarrow> (\<exists>x. denotes_control v x \<and> d = Control_task x)" for d
      by (auto simp: denotes_task_cases not dest: denotes_struct_name)
    moreover have "\<not> is_struct ''sethostname'' v" "\<not> is_struct ''start_stop'' v" by (simp_all add: not)
    ultimately show ?thesis
      using c meets_eq [OF optional_cast_meets [OF control_rd.reads_value]]
      by (simp add: read_task_value_def can_read_struct)
  next
    case n
    note not = is_struct_only [OF n]
    have "denotes_task v d \<longleftrightarrow> (\<exists>x. denotes_null v x \<and> d = Null_task)" for d
      by (auto simp: denotes_task_cases not dest: denotes_struct_name)
    moreover have "\<not> is_struct ''sethostname'' v" "\<not> is_struct ''start_stop'' v" "\<not> is_struct ''control'' v" by (simp_all add: not)
    ultimately show ?thesis
      using n meets_eq [OF optional_cast_meets [OF null_rd.reads_value]]
      by (simp add: read_task_value_def can_read_struct)
  qed
qed

interpretation task_rd: value_reader task_reader denotes_task
proof
  show "denotes_task v d \<Longrightarrow> rd_can_read task_reader v" for v d
    by (auto simp: denotes_task_cases task_reader_def can_read_task_def can_read_struct dest: denotes_struct_name)
qed (simp_all add: task_reader_def read_task_value_meets can_read_task_def can_read_struct)

lemma read_task_meets:
  "meets (read_task node) (pred_option complete_value (tn_value node) \<and> tn_value node \<noteq> None)
     (\<lambda>d. \<exists>v. tn_value node = Some v \<and> denotes_task v d)"
proof (cases "tn_value node")
  case None
  then show ?thesis by (simp add: read_task_def meets_def results_return)
next
  case (Some v)
  show ?thesis
  proof (cases "pseudo_identifier v")
    case None
    show ?thesis
    proof (cases "rd_can_read task_reader v")
      case True
      then show ?thesis
        using None Some task_rd.reads_value [OF True] by (simp add: read_task_def)
    next
      case False
      then show ?thesis
        using None Some task_rd.not_denoted [of v]
        by (auto simp: read_task_def meets_def intro!: results_weaken [OF task_rd.unread_type])
    qed
  next
    case (Some i)
    then show ?thesis
      using \<open>tn_value node = Some v\<close> task_rd.not_denoted [of v]
      by (auto simp: read_task_def meets_def task_reader_def intro!: results_fail)
  qed
qed

end
