(* ===== verification/Read_Descriptions.thy ===== *)
theory Read_Descriptions
  imports Reader_Contract
begin

text \<open>
  \<^verbatim>\<open>read_task_description.cpp\<close>: the task descriptions of a syntax tree, with the errors of
  the tree's meaning, and \<^verbatim>\<open>read_descriptions\<close> on the contents of a file (the reading of
  the file and the output of the errors, \<open>Line_Map\<close>, apart). Tasks and run levels are read
  in the order of their names, because they go through a \<^verbatim>\<open>std::multimap\<close>.
\<close>

section \<open>The model\<close>

definition tasks_by_name :: "task_node list \<Rightarrow> (string, task_node) multimap" where
  "tasks_by_name ns = foldl (\<lambda>m n. mm_insert (id_text (tn_name n)) n m) [] ns"

fun create_tasks :: "(string \<times> task_node) list \<Rightarrow> task_descriptions \<Rightarrow> task_descriptions reading" where
  "create_tasks [] res = rreturn res"
| "create_tasks (p # ps) res =
     rbind (read_task (snd p)) (\<lambda>t.
     create_tasks ps
       (case t of
          Some d \<Rightarrow> snd (create_task_description (fst p) d res)
        | None \<Rightarrow> snd (create_task_description (fst p) Null_task res)))"

definition read_tasks :: "top_level_node \<Rightarrow> task_descriptions \<Rightarrow> task_descriptions reading" where
  "read_tasks node res es =
     (let tasks = tasks_by_name (top_tasks node) in
      create_tasks tasks res
        (report_duplicate_errors (\<lambda>n. id_range (tn_name n)) ''duplicate task definition'' tasks es))"

definition not_declared :: "identifier_token \<Rightarrow> error_tag" where
  "not_declared i = error_tag_of (id_range i) (''task '' @ double_quoted (id_text i) @ '' is not declared'')"

definition resolve_task :: "identifier_token \<Rightarrow> task_descriptions \<Rightarrow> nat list \<Rightarrow> error_tag list \<Rightarrow> nat list \<times> error_tag list" where
  "resolve_task i tds res es =
     (case mm_find (task_by_name tds) (id_text i) of
        None \<Rightarrow> (res, es @ [not_declared i])
      | Some p \<Rightarrow> (res @ [p], es))"

text \<open>
  The dependencies are appended through the reference into the description of the dependant.
\<close>

fun resolve_dependencies :: "nat \<Rightarrow> identifier_token list \<Rightarrow> task_descriptions \<Rightarrow> error_tag list \<Rightarrow> task_descriptions \<times> error_tag list" where
  "resolve_dependencies dependant [] res es = (res, es)"
| "resolve_dependencies dependant (i # is) res es =
     (case resolve_task i res [] es of
        (ps, es') \<Rightarrow> resolve_dependencies dependant is (foldl (\<lambda>r p. push_dependency dependant p r) res ps) es')"

fun read_dependencies :: "dependency_node list \<Rightarrow> task_descriptions \<Rightarrow> error_tag list \<Rightarrow> task_descriptions \<times> error_tag list" where
  "read_dependencies [] res es = (res, es)"
| "read_dependencies (n # ns) res es =
     (case mm_find (task_by_name res) (id_text (dn_dependant n)) of
        None \<Rightarrow> read_dependencies ns res (es @ [not_declared (dn_dependant n)])
      | Some p \<Rightarrow>
          (case resolve_dependencies p (dn_dependencies n) res es of
             (res', es') \<Rightarrow> read_dependencies ns res' es'))"

text \<open>A run level without a name is a null pointer that the index dereferences.\<close>

fun run_levels_by_name ::
    "run_level_node list \<Rightarrow> (string, run_level_node) multimap \<Rightarrow> (string, run_level_node) multimap faulty" where
  "run_levels_by_name [] m = Inr m"
| "run_levels_by_name (n # ns) m =
     (case rn_name n of
        None \<Rightarrow> Inl (Undefined_behaviour ''null run level name'')
      | Some i \<Rightarrow> run_levels_by_name ns (mm_insert (id_text i) n m))"

definition run_level_range :: "run_level_node \<Rightarrow> text_range" where
  "run_level_range n = (case rn_name n of Some i \<Rightarrow> id_range i | None \<Rightarrow> make_empty 0)"

fun resolve_all :: "identifier_token list \<Rightarrow> task_descriptions \<Rightarrow> nat list \<Rightarrow> error_tag list \<Rightarrow> nat list \<times> error_tag list" where
  "resolve_all [] tds res es = (res, es)"
| "resolve_all (i # is) tds res es = (case resolve_task i tds res es of (res', es') \<Rightarrow> resolve_all is tds res' es')"

fun create_run_levels :: "(string \<times> run_level_node) list \<Rightarrow> task_descriptions \<Rightarrow> error_tag list \<Rightarrow> task_descriptions \<times> error_tag list" where
  "create_run_levels [] res es = (res, es)"
| "create_run_levels (p # ps) res es =
     (case resolve_all (rn_dependencies (snd p)) res [] es of
        (requisites, es') \<Rightarrow> create_run_levels ps (create_run_level (fst p) requisites res) es')"

definition read_run_levels :: "top_level_node \<Rightarrow> task_descriptions \<Rightarrow> task_descriptions reading" where
  "read_run_levels node res es =
     bind_faulty (run_levels_by_name (top_run_levels node) []) (\<lambda>m.
       Inr (create_run_levels m res
         (report_duplicate_errors run_level_range ''duplicate run level definition'' m es)))"

definition read_tree :: "top_level_node \<Rightarrow> task_descriptions reading" where
  "read_tree node =
     rbind (read_tasks node empty_descriptions) (\<lambda>tds.
     rbind (\<lambda>es. Inr (read_dependencies (top_dependencies node) tds es)) (\<lambda>tds.
     read_run_levels node tds))"

definition read_descriptions :: "string \<Rightarrow> (task_descriptions \<times> error_tag list) faulty" where
  "read_descriptions fdata =
     bind_faulty (parse_text fdata) (\<lambda>(node, es). read_tree node es)"

end
