(* ===== verification/Read_Descriptions_Facts.thy ===== *)
theory Read_Descriptions_Facts
  imports Read_Descriptions
begin

text \<open>
  What the reading of a syntax tree gives: the task descriptions are well formed whatever the
  tree, and they are those that the tree stands for exactly if no error is reported. The loops
  are given in closed form first, each with the errors it adds.
\<close>

section \<open>Tasks\<close>

text \<open>The data of a task, and the trees that can be read without an error in them.\<close>

definition task_of :: "task_node \<Rightarrow> task_data \<Rightarrow> bool" where
  "task_of n d \<longleftrightarrow> (\<exists>v. tn_value n = Some v \<and> denotes_task v d)"

definition task_complete :: "task_node \<Rightarrow> bool" where
  "task_complete n \<longleftrightarrow> pred_option complete_value (tn_value n) \<and> tn_value n \<noteq> None"

fun add_tasks :: "(string \<times> task_data) list \<Rightarrow> task_descriptions \<Rightarrow> task_descriptions" where
  "add_tasks [] res = res"
| "add_tasks ((n, d) # xs) res = add_tasks xs (snd (create_task_description n d res))"

lemma add_tasks_fields:
  "all_tasks (add_tasks xs res) = all_tasks res @ map (\<lambda>(n, d). new_task_description n d) xs"
  "run_level_by_name (add_tasks xs res) = run_level_by_name res"
  by (induction xs res rule: add_tasks.induct) simp_all

lemma wf_add_tasks: "wf_descriptions res \<Longrightarrow> wf_descriptions (add_tasks xs res)"
  by (induction xs res rule: add_tasks.induct) (simp_all add: wf_create_task_description)

lemma create_tasks_results:
  "results (create_tasks ps res) (\<lambda>res' fs. \<exists>ds. length ds = length ps \<and> res' = add_tasks (zip (map fst ps) ds) res \<and>
     ((\<forall>p \<in> set ps. task_complete (snd p)) \<longrightarrow>
       (fs = [] \<longrightarrow> list_all2 (\<lambda>p. task_of (snd p)) ps ds) \<and> ((\<forall>p \<in> set ps. \<exists>d. task_of (snd p) d) \<longrightarrow> fs = [])))"
proof (induction ps arbitrary: res)
  case Nil
  then show ?case by (auto intro!: results_return)
next
  case (Cons p ps)
  have m: "results (read_task (snd p)) (\<lambda>x fs. task_complete (snd p) \<longrightarrow>
      (\<forall>d. x = Some d \<and> fs = [] \<longleftrightarrow> task_of (snd p) d) \<and> (x = None \<longrightarrow> fs \<noteq> []))"
    using read_task_meets [of "snd p"] by (simp add: meets_def task_complete_def task_of_def)
  show ?case
    unfolding create_tasks.simps
  proof (rule results_bind [OF m])
    fix x and fs :: "error_tag list"
    assume x: "task_complete (snd p) \<longrightarrow>
      (\<forall>d. x = Some d \<and> fs = [] \<longleftrightarrow> task_of (snd p) d) \<and> (x = None \<longrightarrow> fs \<noteq> [])"
    define d where "d = (case x of Some d \<Rightarrow> d | None \<Rightarrow> Null_task)"
    have eq: "(case x of None \<Rightarrow> snd (create_task_description (fst p) Null_task res)
        | Some d \<Rightarrow> snd (create_task_description (fst p) d res)) = snd (create_task_description (fst p) d res)"
      by (simp add: d_def split: option.split)
    have td: "task_of (snd p) d" if ok: "task_complete (snd p)" "fs = []"
    proof -
      obtain d' where "x = Some d'" using x ok by (cases x) auto
      then show ?thesis
        using spec [OF conjunct1 [OF mp [OF x ok(1)]], of d'] ok(2) by (simp add: d_def)
    qed
    have fs: "fs = []" if "task_complete (snd p)" "task_of (snd p) d'" for d'
      using spec [OF conjunct1 [OF mp [OF x that(1)]], of d'] that(2) by simp
    show "results (create_tasks ps (case x of None \<Rightarrow> snd (create_task_description (fst p) Null_task res)
        | Some d \<Rightarrow> snd (create_task_description (fst p) d res)))
      (\<lambda>res' gs. \<exists>ds. length ds = length (p # ps) \<and> res' = add_tasks (zip (map fst (p # ps)) ds) res \<and>
        ((\<forall>p \<in> set (p # ps). task_complete (snd p)) \<longrightarrow>
          (fs @ gs = [] \<longrightarrow> list_all2 (\<lambda>p. task_of (snd p)) (p # ps) ds) \<and>
          ((\<forall>p \<in> set (p # ps). \<exists>d. task_of (snd p) d) \<longrightarrow> fs @ gs = [])))"
      unfolding eq
    proof (rule results_weaken [OF Cons.IH])
      fix res' and gs :: "error_tag list"
      assume "\<exists>ds. length ds = length ps \<and> res' = add_tasks (zip (map fst ps) ds) (snd (create_task_description (fst p) d res)) \<and>
        ((\<forall>p \<in> set ps. task_complete (snd p)) \<longrightarrow>
          (gs = [] \<longrightarrow> list_all2 (\<lambda>p. task_of (snd p)) ps ds) \<and> ((\<forall>p \<in> set ps. \<exists>d. task_of (snd p) d) \<longrightarrow> gs = []))"
      then obtain ds where ds: "length ds = length ps"
        "res' = add_tasks (zip (map fst ps) ds) (snd (create_task_description (fst p) d res))"
        "(\<forall>p \<in> set ps. task_complete (snd p)) \<longrightarrow>
          (gs = [] \<longrightarrow> list_all2 (\<lambda>p. task_of (snd p)) ps ds) \<and> ((\<forall>p \<in> set ps. \<exists>d. task_of (snd p) d) \<longrightarrow> gs = [])"
        by blast
      show "\<exists>ds. length ds = length (p # ps) \<and> res' = add_tasks (zip (map fst (p # ps)) ds) res \<and>
        ((\<forall>p \<in> set (p # ps). task_complete (snd p)) \<longrightarrow>
          (fs @ gs = [] \<longrightarrow> list_all2 (\<lambda>p. task_of (snd p)) (p # ps) ds) \<and>
          ((\<forall>p \<in> set (p # ps). \<exists>d. task_of (snd p) d) \<longrightarrow> fs @ gs = []))"
      proof (intro exI [of _ "d # ds"] conjI impI)
        show "length (d # ds) = length (p # ps)"
          "res' = add_tasks (zip (map fst (p # ps)) (d # ds)) res" using ds(1,2) by simp_all
        assume ok: "\<forall>p \<in> set (p # ps). task_complete (snd p)"
        then have ok': "task_complete (snd p)" "\<forall>p \<in> set ps. task_complete (snd p)" by simp_all
        show "list_all2 (\<lambda>p. task_of (snd p)) (p # ps) (d # ds)" if "fs @ gs = []"
          using mp [OF ds(3) ok'(2)] td [OF ok'(1)] that by simp
        show "fs @ gs = []" if each: "\<forall>p \<in> set (p # ps). \<exists>d. task_of (snd p) d"
        proof -
          obtain d' where "task_of (snd p) d'" using each by auto
          moreover have "gs = []" using mp [OF ds(3) ok'(2)] each by simp
          ultimately show ?thesis using fs [OF ok'(1)] by simp
        qed
      qed
    qed
  qed
qed

section \<open>Names\<close>

definition task_names :: "task_descriptions \<Rightarrow> string list" where
  "task_names tds = map td_name (all_tasks tds)"

definition lookup :: "task_descriptions \<Rightarrow> identifier_token \<Rightarrow> nat option" where
  "lookup tds i = mm_find (task_by_name tds) (id_text i)"

lemma lookup_wf:
  assumes "wf_descriptions tds"
  shows "lookup tds i = Some p \<Longrightarrow> p < length (all_tasks tds) \<and> task_names tds ! p = id_text i"
    "lookup tds i = None \<longleftrightarrow> id_text i \<notin> set (task_names tds)"
proof -
  have ix: "set (task_by_name tds) = (\<lambda>i. (td_name (all_tasks tds ! i), i)) ` {..<length (all_tasks tds)}"
    using assms by (simp add: wf_descriptions_def)
  show "lookup tds i = Some p \<Longrightarrow> p < length (all_tasks tds) \<and> task_names tds ! p = id_text i"
    using ix by (auto simp: lookup_def mm_find_map_of task_names_def dest!: map_of_SomeD)
  have "fst ` set (task_by_name tds) = set (task_names tds)"
    unfolding ix by (auto simp: task_names_def image_image in_set_conv_nth intro!: imageI)
  then show "lookup tds i = None \<longleftrightarrow> id_text i \<notin> set (task_names tds)"
    by (simp add: lookup_def mm_find_map_of map_of_eq_None_iff)
qed

section \<open>Dependencies\<close>

abbreviation undeclared :: "task_descriptions \<Rightarrow> identifier_token list \<Rightarrow> error_tag list" where
  "undeclared tds is \<equiv> map not_declared (filter (\<lambda>i. lookup tds i = None) is)"

definition push_all :: "nat \<Rightarrow> nat list \<Rightarrow> task_descriptions \<Rightarrow> task_descriptions" where
  "push_all p qs res = foldl (\<lambda>r q. push_dependency p q r) res qs"

lemma push_all_simps [simp]:
  "push_all p [] res = res"
  "push_all p (q # qs) res = push_all p qs (push_dependency p q res)"
  by (simp_all add: push_all_def)

lemma push_dependency_fields [simp]:
  "task_by_name (push_dependency p q res) = task_by_name res"
  "run_level_by_name (push_dependency p q res) = run_level_by_name res"
  "length (all_tasks (push_dependency p q res)) = length (all_tasks res)"
  "lookup (push_dependency p q res) = lookup res"
  by (simp_all add: push_dependency_def lookup_def fun_eq_iff)

lemma push_all_fields [simp]:
  "task_by_name (push_all p qs res) = task_by_name res"
  "run_level_by_name (push_all p qs res) = run_level_by_name res"
  "length (all_tasks (push_all p qs res)) = length (all_tasks res)"
  "lookup (push_all p qs res) = lookup res"
  by (induction qs arbitrary: res) simp_all

lemma push_all_nth:
  "i < length (all_tasks res) \<Longrightarrow> all_tasks (push_all p qs res) ! i =
     (all_tasks res ! i)\<lparr>td_dependencies := td_dependencies (all_tasks res ! i) @ (if i = p then qs else [])\<rparr>"
  by (induction qs arbitrary: res) (auto simp: all_tasks_push_dependency nth_list_update_if)

lemma wf_push_all:
  "wf_descriptions res \<Longrightarrow> p < length (all_tasks res) \<Longrightarrow> \<forall>q \<in> set qs. q < length (all_tasks res) \<Longrightarrow>
    wf_descriptions (push_all p qs res)"
  by (induction qs arbitrary: res) (simp_all add: wf_push_dependency)

lemma resolve_dependencies_eq:
  "resolve_dependencies p is res es = (push_all p (List.map_filter (lookup res) is) res, es @ undeclared res is)"
  by (induction p "is" res es rule: resolve_dependencies.induct)
     (auto simp: resolve_task_def lookup_def [symmetric] map_filter_simps split: option.splits)

text \<open>What one declaration adds to the dependencies of a task, and its errors.\<close>

definition declared_by :: "task_descriptions \<Rightarrow> nat \<Rightarrow> dependency_node \<Rightarrow> nat list" where
  "declared_by tds i n = (if lookup tds (dn_dependant n) = Some i then List.map_filter (lookup tds) (dn_dependencies n) else [])"

definition declaration_errors :: "task_descriptions \<Rightarrow> dependency_node \<Rightarrow> error_tag list" where
  "declaration_errors tds n =
     (if lookup tds (dn_dependant n) = None then [not_declared (dn_dependant n)] else undeclared tds (dn_dependencies n))"

definition with_declarations :: "dependency_node list \<Rightarrow> task_descriptions \<Rightarrow> task_descriptions \<Rightarrow> bool" where
  "with_declarations ns res res' \<longleftrightarrow>
     task_by_name res' = task_by_name res \<and> run_level_by_name res' = run_level_by_name res \<and>
     length (all_tasks res') = length (all_tasks res) \<and>
     (\<forall>i < length (all_tasks res). all_tasks res' ! i = (all_tasks res ! i)
        \<lparr>td_dependencies := td_dependencies (all_tasks res ! i) @ concat (map (declared_by res i) ns)\<rparr>) \<and>
     (wf_descriptions res \<longrightarrow> wf_descriptions res')"

lemma map_filter_lookup_range:
  "wf_descriptions res \<Longrightarrow> q \<in> set (List.map_filter (lookup res) is) \<Longrightarrow> q < length (all_tasks res)"
  by (auto simp: List.map_filter_def dest: lookup_wf(1))

lemma with_declarations_Cons:
  assumes "lookup res (dn_dependant n) = Some p"
    and "with_declarations ns (push_all p (List.map_filter (lookup res) (dn_dependencies n)) res) res'"
  shows "with_declarations (n # ns) res res'"
proof -
  let ?r = "push_all p (List.map_filter (lookup res) (dn_dependencies n)) res"
  have decl: "declared_by ?r = declared_by res" by (simp add: declared_by_def fun_eq_iff)
  have "wf_descriptions ?r" if "wf_descriptions res"
    using lookup_wf(1) [OF that assms(1)] map_filter_lookup_range [OF that] that by (auto intro!: wf_push_all)
  moreover have "all_tasks res' ! i = (all_tasks res ! i)
      \<lparr>td_dependencies := td_dependencies (all_tasks res ! i) @ concat (map (declared_by res i) (n # ns))\<rparr>"
    if "i < length (all_tasks res)" for i
    using assms that push_all_nth [OF that]
    by (simp add: with_declarations_def decl) (auto simp: declared_by_def)
  ultimately show ?thesis using assms(2) by (simp add: with_declarations_def)
qed

lemma with_declarations_skip:
  "lookup res (dn_dependant n) = None \<Longrightarrow> with_declarations ns res res' \<Longrightarrow> with_declarations (n # ns) res res'"
  by (simp add: with_declarations_def declared_by_def)

lemma read_dependencies_eq:
  "\<exists>res'. read_dependencies ns res es = (res', es @ concat (map (declaration_errors res) ns)) \<and> with_declarations ns res res'"
proof (induction ns res es rule: read_dependencies.induct)
  case (1 res es)
  then show ?case by (simp add: with_declarations_def)
next
  case (2 n ns res es)
  show ?case
  proof (cases "lookup res (dn_dependant n)")
    case None
    then obtain res' where "read_dependencies ns res (es @ [not_declared (dn_dependant n)]) =
        (res', (es @ [not_declared (dn_dependant n)]) @ concat (map (declaration_errors res) ns))"
      "with_declarations ns res res'"
      using 2(1) by (auto simp: lookup_def)
    moreover have "declaration_errors res n = [not_declared (dn_dependant n)]"
      using None by (simp add: declaration_errors_def)
    moreover have "mm_find (task_by_name res) (id_text (dn_dependant n)) = None"
      using None by (simp add: lookup_def)
    ultimately show ?thesis using with_declarations_skip [OF None] by auto
  next
    case (Some p)
    let ?r = "push_all p (List.map_filter (lookup res) (dn_dependencies n)) res"
    let ?es = "es @ undeclared res (dn_dependencies n)"
    have errs: "declaration_errors ?r = declaration_errors res"
      by (simp add: declaration_errors_def fun_eq_iff)
    obtain res' where "read_dependencies ns ?r ?es = (res', ?es @ concat (map (declaration_errors res) ns))"
      "with_declarations ns ?r res'"
      using 2(2) [OF Some [unfolded lookup_def] resolve_dependencies_eq [symmetric]] errs by auto
    moreover have "declaration_errors res n = undeclared res (dn_dependencies n)"
      using Some by (simp add: declaration_errors_def)
    moreover have "mm_find (task_by_name res) (id_text (dn_dependant n)) = Some p"
      using Some by (simp add: lookup_def)
    ultimately show ?thesis using with_declarations_Cons [OF Some] by (auto simp: resolve_dependencies_eq)
  qed
qed

section \<open>Run levels\<close>

lemma resolve_all_eq:
  "resolve_all is tds res es = (res @ List.map_filter (lookup tds) is, es @ undeclared tds is)"
  by (induction "is" tds res es rule: resolve_all.induct)
     (auto simp: resolve_task_def lookup_def [symmetric] map_filter_simps split: option.splits)

definition level_entries :: "task_descriptions \<Rightarrow> (string \<times> run_level_node) list \<Rightarrow> (string \<times> nat list) list" where
  "level_entries tds ps = map (\<lambda>(n, rn). (n, List.map_filter (lookup tds) (rn_dependencies rn))) ps"

lemma create_run_level_fields [simp]:
  "all_tasks (create_run_level n rs res) = all_tasks res"
  "task_by_name (create_run_level n rs res) = task_by_name res"
  "lookup (create_run_level n rs res) = lookup res"
  "run_level_by_name (create_run_level n rs res) = map_insert n rs (run_level_by_name res)"
  "create_run_level n rs res\<lparr>run_level_by_name := ls\<rparr> = res\<lparr>run_level_by_name := ls\<rparr>"
  by (simp_all add: create_run_level_def lookup_def fun_eq_iff)

lemma create_run_levels_eq:
  "create_run_levels ps res es =
     (res\<lparr>run_level_by_name := smap.insert_all (level_entries res ps) (run_level_by_name res)\<rparr>,
      es @ concat (map (\<lambda>p. undeclared res (rn_dependencies (snd p))) ps))"
proof (induction ps res es rule: create_run_levels.induct)
  case (2 p ps res es)
  have "level_entries (create_run_level n rs res) ps = level_entries res ps" for n rs
    by (simp add: level_entries_def)
  then show ?case
    using 2 [OF resolve_all_eq [symmetric]]
    by (cases p) (simp add: resolve_all_eq smap.insert_all_simps level_entries_def)
qed (simp add: smap.insert_all_simps level_entries_def)

lemma wf_create_run_levels:
  "wf_descriptions res \<Longrightarrow> wf_descriptions (fst (create_run_levels ps res es))"
proof (induction ps res es rule: create_run_levels.induct)
  case (2 p ps res es)
  have "wf_descriptions (create_run_level (fst p) (List.map_filter (lookup res) (rn_dependencies (snd p))) res)"
    using 2(2) map_filter_lookup_range [OF 2(2)] by (intro wf_create_run_level) auto
  then show ?case using 2(1) [OF resolve_all_eq [symmetric]] by (simp add: resolve_all_eq)
qed simp

definition levels_by_name :: "run_level_node list \<Rightarrow> (string, run_level_node) multimap" where
  "levels_by_name ns = mm.from_list (map (\<lambda>n. (id_text (the (rn_name n)), n)) ns)"

lemma run_levels_by_name_eq:
  "run_levels_by_name ns m =
     (if \<forall>n \<in> set ns. rn_name n \<noteq> None
      then Inr (foldl (\<lambda>m n. mm_insert (id_text (the (rn_name n))) n m) m ns)
      else Inl (Undefined_behaviour ''null run level name''))"
  by (induction ns m rule: run_levels_by_name.induct) (auto split: option.splits)

lemma run_levels_by_name_named:
  "run_levels_by_name ns [] =
     (if \<forall>n \<in> set ns. rn_name n \<noteq> None then Inr (levels_by_name ns)
      else Inl (Undefined_behaviour ''null run level name''))"
  by (simp add: run_levels_by_name_eq levels_by_name_def mm.from_list_def foldl_map)


section \<open>The tree\<close>

lemma mset_mm_insert: "mset (mm_insert k v m) = add_mset (k, v) (mset m)"
  by (induction k v m rule: mm_insert.induct) auto

lemma mset_from_list: "mset (mm.from_list kvs) = mset kvs"
  by (induction kvs rule: rev_induct) (simp_all add: mm.from_list_Nil mm.from_list_snoc mset_mm_insert)

lemma distinct_from_list: "distinct (map fst (mm.from_list kvs)) \<longleftrightarrow> distinct (map fst kvs)"
proof -
  have "mset (map fst (mm.from_list kvs)) = mset (map fst kvs)" by (metis mset_from_list mset_map)
  then show ?thesis by (rule mset_eq_imp_distinct_iff)
qed

lemma sorted_from_list: "sorted (map fst (mm.from_list kvs))"
  using mm.invar_from_list by blast

text \<open>The names of a tree and what it may refer to.\<close>

definition tree_names :: "top_level_node \<Rightarrow> string list" where
  "tree_names t = map (\<lambda>n. id_text (tn_name n)) (top_tasks t)"

definition level_names :: "top_level_node \<Rightarrow> string list" where
  "level_names t = map (\<lambda>n. id_text (the (rn_name n))) (top_run_levels t)"

definition names_declared :: "top_level_node \<Rightarrow> identifier_token list \<Rightarrow> bool" where
  "names_declared t is \<longleftrightarrow> id_text ` set is \<subseteq> set (tree_names t)"

definition meaningful :: "top_level_node \<Rightarrow> bool" where
  "meaningful t \<longleftrightarrow>
     distinct (tree_names t) \<and> (\<forall>n \<in> set (top_tasks t). \<exists>d. task_of n d) \<and>
     (\<forall>n \<in> set (top_dependencies t). names_declared t (dn_dependant n # dn_dependencies n)) \<and>
     distinct (level_names t) \<and> (\<forall>n \<in> set (top_run_levels t). names_declared t (rn_dependencies n))"

lemma tasks_by_name_eq: "tasks_by_name ns = mm.from_list (map (\<lambda>n. (id_text (tn_name n), n)) ns)"
  by (simp add: tasks_by_name_def mm.from_list_def foldl_map)

lemma tasks_by_name_facts:
  "distinct (map fst (tasks_by_name (top_tasks t))) \<longleftrightarrow> distinct (tree_names t)"
  "set (map fst (tasks_by_name (top_tasks t))) = set (tree_names t)"
  "sorted (map fst (tasks_by_name (top_tasks t)))"
  "set (tasks_by_name (top_tasks t)) = (\<lambda>n. (id_text (tn_name n), n)) ` set (top_tasks t)"
  by (simp_all add: tasks_by_name_eq tree_names_def distinct_from_list sorted_from_list mm.set_entries_from_list
      comp_def image_image)

lemma levels_by_name_facts:
  "distinct (map fst (levels_by_name (top_run_levels t))) \<longleftrightarrow> distinct (level_names t)"
  "sorted (map fst (levels_by_name (top_run_levels t)))"
  "set (levels_by_name (top_run_levels t)) = (\<lambda>n. (id_text (the (rn_name n)), n)) ` set (top_run_levels t)"
  by (simp_all add: levels_by_name_def level_names_def distinct_from_list sorted_from_list mm.set_entries_from_list
      comp_def image_image)

lemma report_duplicate_errors_gives:
  "gives (\<lambda>es. Inr (m, report_duplicate_errors r msg mp es)) m (map (\<lambda>v. error_tag_of (r v) msg) (report_duplicates mp))"
  by (simp add: gives_def report_duplicate_errors_def)

lemma results_gives: "gives m x fs \<Longrightarrow> P x fs \<Longrightarrow> results m P"
  by (auto simp: results_def)

lemma results_pure: "(\<And>es. m es = Inr (x, es @ fs)) \<Longrightarrow> P x fs \<Longrightarrow> results m P"
  by (auto simp: results_def gives_def)

section \<open>Tasks of the tree\<close>

text \<open>The descriptions before the declarations, for some data.\<close>

definition base_of :: "top_level_node \<Rightarrow> task_data list \<Rightarrow> task_descriptions" where
  "base_of t ds = add_tasks (zip (map fst (tasks_by_name (top_tasks t))) ds) empty_descriptions"

definition data_fit :: "top_level_node \<Rightarrow> task_data list \<Rightarrow> bool" where
  "data_fit t ds \<longleftrightarrow> list_all2 (\<lambda>p. task_of (snd p)) (tasks_by_name (top_tasks t)) ds"

lemma base_of_facts:
  assumes "length ds = length (tasks_by_name (top_tasks t))"
  shows "wf_descriptions (base_of t ds)" "task_names (base_of t ds) = map fst (tasks_by_name (top_tasks t))"
    "run_level_by_name (base_of t ds) = []" "length (all_tasks (base_of t ds)) = length ds"
    "i < length ds \<Longrightarrow> td_data (all_tasks (base_of t ds) ! i) = ds ! i"
    "i < length ds \<Longrightarrow> td_dependencies (all_tasks (base_of t ds) ! i) = []"
  using assms
  by (simp_all add: base_of_def wf_add_tasks add_tasks_fields task_names_def
      wf_empty_descriptions [unfolded empty_descriptions_def] empty_descriptions_def
      new_task_description_def case_prod_unfold comp_def)

text \<open>The result of reading a tree: the declarations and run levels over the tasks.\<close>

definition read_as :: "top_level_node \<Rightarrow> task_data list \<Rightarrow> task_descriptions \<Rightarrow> bool" where
  "read_as t ds tds \<longleftrightarrow> length ds = length (tasks_by_name (top_tasks t)) \<and>
     (\<exists>mid. with_declarations (top_dependencies t) (base_of t ds) mid \<and>
       tds = mid\<lparr>run_level_by_name :=
         smap.insert_all (level_entries mid (levels_by_name (top_run_levels t))) []\<rparr>)"

lemma with_declarations_names:
  assumes "with_declarations ns res res'"
  shows "task_names res' = task_names res" "lookup res' = lookup res"
proof -
  show "task_names res' = task_names res"
    using assms by (intro nth_equalityI) (simp_all add: with_declarations_def task_names_def)
  show "lookup res' = lookup res" using assms by (simp add: with_declarations_def lookup_def fun_eq_iff)
qed

lemma with_declarations_unique:
  assumes "with_declarations ns res a" "with_declarations ns res b"
  shows "a = b"
proof -
  have "all_tasks a = all_tasks b" using assms by (intro nth_equalityI) (simp_all add: with_declarations_def)
  then show ?thesis using assms by (simp add: with_declarations_def)
qed

lemma undeclared_Nil:
  assumes "wf_descriptions tds" "set (task_names tds) = set (tree_names t)"
  shows "undeclared tds is = [] \<longleftrightarrow> names_declared t is"
  using lookup_wf(2) [OF assms(1)] assms(2) by (auto simp: names_declared_def filter_empty_conv)

lemma declaration_errors_Nil:
  assumes "wf_descriptions tds" "set (task_names tds) = set (tree_names t)"
  shows "declaration_errors tds n = [] \<longleftrightarrow> names_declared t (dn_dependant n # dn_dependencies n)"
  using undeclared_Nil [OF assms, of "dn_dependencies n"] lookup_wf(2) [OF assms(1), of "dn_dependant n"] assms(2)
  by (auto simp: declaration_errors_def names_declared_def)

text \<open>What the errors about tasks say, in a complete tree.\<close>

definition tasks_verdict :: "top_level_node \<Rightarrow> task_data list \<Rightarrow> error_tag list \<Rightarrow> bool" where
  "tasks_verdict t ds fs \<longleftrightarrow> (list_all task_complete (top_tasks t) \<longrightarrow>
     (fs = [] \<longrightarrow> distinct (tree_names t) \<and> data_fit t ds) \<and>
     (distinct (tree_names t) \<and> (\<forall>n \<in> set (top_tasks t). \<exists>d. task_of n d) \<longrightarrow> fs = []))"

lemma read_tasks_results:
  "results (read_tasks t empty_descriptions) (\<lambda>base fs. \<exists>ds. length ds = length (tasks_by_name (top_tasks t)) \<and>
     base = base_of t ds \<and> tasks_verdict t ds fs)"
proof -
  let ?ps = "tasks_by_name (top_tasks t)"
  let ?fs = "map (\<lambda>n. error_tag_of (id_range (tn_name n)) ''duplicate task definition'') (report_duplicates ?ps)"
  have split: "read_tasks t empty_descriptions = rbind (\<lambda>es. Inr ((), es @ ?fs)) (\<lambda>_. create_tasks ?ps empty_descriptions)"
    by (simp add: fun_eq_iff read_tasks_def rbind_def report_duplicate_errors_def Let_def)
  have dup: "?fs = [] \<longleftrightarrow> distinct (tree_names t)"
    using report_duplicates_Nil_iff [OF tasks_by_name_facts(3)] tasks_by_name_facts(1) by simp
  have all: "(\<forall>p \<in> set ?ps. P (snd p)) \<longleftrightarrow> (\<forall>n \<in> set (top_tasks t). P n)" for P
    by (simp add: tasks_by_name_facts(4))
  show ?thesis
    unfolding split
  proof (rule results_bind [where Q = "\<lambda>_ fs. fs = ?fs"])
    show "results (\<lambda>es. Inr ((), es @ ?fs)) (\<lambda>_ fs. fs = ?fs)" by (rule results_pure) simp_all
    fix x :: unit and fs
    assume fs: "fs = ?fs"
    show "results (create_tasks ?ps empty_descriptions) (\<lambda>base gs. \<exists>ds. length ds = length ?ps \<and> base = base_of t ds \<and>
       tasks_verdict t ds (fs @ gs))"
    proof (rule results_weaken [OF create_tasks_results], elim exE conjE)
      fix base ds and gs :: "error_tag list"
      assume len: "length ds = length ?ps" and base: "base = add_tasks (zip (map fst ?ps) ds) empty_descriptions"
        and ok: "(\<forall>p \<in> set ?ps. task_complete (snd p)) \<longrightarrow>
          (gs = [] \<longrightarrow> list_all2 (\<lambda>p. task_of (snd p)) ?ps ds) \<and> ((\<forall>p \<in> set ?ps. \<exists>d. task_of (snd p) d) \<longrightarrow> gs = [])"
      have "tasks_verdict t ds (fs @ gs)"
        using ok dup all [of task_complete] all [of "\<lambda>n. \<exists>d. task_of n d"]
        unfolding tasks_verdict_def fs data_fit_def list_all_iff append_is_Nil_conv by simp
      then show "\<exists>ds. length ds = length ?ps \<and> base = base_of t ds \<and> tasks_verdict t ds (fs @ gs)"
        using len base unfolding base_of_def by blast
    qed
  qed
qed

lemma read_run_levels_gives:
  assumes "\<forall>n \<in> set (top_run_levels t). rn_name n \<noteq> None" "run_level_by_name mid = []"
  shows "read_run_levels t mid es = Inr (mid\<lparr>run_level_by_name :=
         smap.insert_all (level_entries mid (levels_by_name (top_run_levels t))) []\<rparr>,
       es @ map (\<lambda>n. error_tag_of (run_level_range n) ''duplicate run level definition'')
          (report_duplicates (levels_by_name (top_run_levels t))) @
       concat (map (\<lambda>p. undeclared mid (rn_dependencies (snd p))) (levels_by_name (top_run_levels t))))"
  using assms
  by (simp add: read_run_levels_def run_levels_by_name_named create_run_levels_eq report_duplicate_errors_def)

lemma wf_read_as:
  assumes "read_as t ds tds"
  shows "wf_descriptions tds"
proof -
  obtain mid where len: "length ds = length (tasks_by_name (top_tasks t))"
    and mid: "with_declarations (top_dependencies t) (base_of t ds) mid"
    and tds: "tds = mid\<lparr>run_level_by_name :=
         smap.insert_all (level_entries mid (levels_by_name (top_run_levels t))) []\<rparr>"
    using assms by (auto simp: read_as_def)
  have "wf_descriptions mid" "run_level_by_name mid = []"
    using mid base_of_facts(1,3) [OF len] by (simp_all add: with_declarations_def)
  then show ?thesis
    using wf_create_run_levels [of mid "levels_by_name (top_run_levels t)" "[]"] tds by (simp add: create_run_levels_eq)
qed

lemma data_fit_task_of: "data_fit t ds \<Longrightarrow> n \<in> set (top_tasks t) \<Longrightarrow> \<exists>d. task_of n d"
  unfolding data_fit_def list_all2_conv_all_nth
  by (metis (no_types, lifting) image_eqI in_set_conv_nth snd_conv tasks_by_name_facts(4))

text \<open>A tree with the names of its run levels is read; what is reported says if it means something.\<close>

lemma read_tree_results:
  assumes "\<forall>n \<in> set (top_run_levels t). rn_name n \<noteq> None"
  shows "results (read_tree t) (\<lambda>tds fs. \<exists>ds. read_as t ds tds \<and>
     (list_all task_complete (top_tasks t) \<longrightarrow> (fs = [] \<longleftrightarrow> meaningful t) \<and> (fs = [] \<longrightarrow> data_fit t ds)))"
  unfolding read_tree_def
proof (rule results_bind [OF read_tasks_results], elim exE conjE)
  let ?ls = "levels_by_name (top_run_levels t)"
  fix base fs ds
  assume len: "length ds = length (tasks_by_name (top_tasks t))" and base: "base = base_of t ds"
    and fit: "tasks_verdict t ds fs"
  have wf: "wf_descriptions base" and names: "set (task_names base) = set (tree_names t)"
    and no_levels: "run_level_by_name base = []"
    using base_of_facts(1-3) [OF len] tasks_by_name_facts(2) [of t] by (simp_all add: base)
  define gs where "gs = concat (map (declaration_errors base) (top_dependencies t))"
  obtain mid where mid: "with_declarations (top_dependencies t) base mid"
    and deps: "\<And>es. read_dependencies (top_dependencies t) base es = (mid, es @ gs)"
  proof -
    obtain mid where mid: "with_declarations (top_dependencies t) base mid"
      using read_dependencies_eq [of "top_dependencies t" base "[]"] by blast
    have "read_dependencies (top_dependencies t) base es = (mid, es @ gs)" for es
    proof -
      obtain m where "read_dependencies (top_dependencies t) base es = (m, es @ gs)"
        and m: "with_declarations (top_dependencies t) base m"
        using read_dependencies_eq [of "top_dependencies t" base es] unfolding gs_def by blast
      then show ?thesis using with_declarations_unique [OF mid m] by simp
    qed
    then show ?thesis using that mid by blast
  qed
  have wf': "wf_descriptions mid" "run_level_by_name mid = []" and names': "set (task_names mid) = set (tree_names t)"
    using mid wf names no_levels with_declarations_names [OF mid] by (simp_all add: with_declarations_def)
  have gs: "gs = [] \<longleftrightarrow> (\<forall>n \<in> set (top_dependencies t). names_declared t (dn_dependant n # dn_dependencies n))"
    using declaration_errors_Nil [OF wf names] by (auto simp: gs_def)
  define hs where "hs = map (\<lambda>n. error_tag_of (run_level_range n) ''duplicate run level definition'') (report_duplicates ?ls) @
       concat (map (\<lambda>p. undeclared mid (rn_dependencies (snd p))) ?ls)"
  have hs: "hs = [] \<longleftrightarrow> distinct (level_names t) \<and> (\<forall>n \<in> set (top_run_levels t). names_declared t (rn_dependencies n))"
    using report_duplicates_Nil_iff [OF levels_by_name_facts(2)] levels_by_name_facts(1) undeclared_Nil [OF wf'(1) names']
    by (simp add: hs_def levels_by_name_facts(3))
  show "results (rbind (\<lambda>es. Inr (read_dependencies (top_dependencies t) base es)) (read_run_levels t))
     (\<lambda>tds hs. \<exists>ds. read_as t ds tds \<and>
     (list_all task_complete (top_tasks t) \<longrightarrow> (fs @ hs = [] \<longleftrightarrow> meaningful t) \<and> (fs @ hs = [] \<longrightarrow> data_fit t ds)))"
  proof (rule results_pure [where fs = "gs @ hs"])
    let ?tds = "mid\<lparr>run_level_by_name := smap.insert_all (level_entries mid ?ls) []\<rparr>"
    show "rbind (\<lambda>es. Inr (read_dependencies (top_dependencies t) base es)) (read_run_levels t) es =
        Inr (?tds, es @ gs @ hs)" for es
      using read_run_levels_gives [OF assms wf'(2)] by (simp add: rbind_def deps hs_def)
    have "read_as t ds ?tds" using len mid base by (auto simp: read_as_def)
    moreover have "(fs @ gs @ hs = [] \<longleftrightarrow> meaningful t) \<and> (fs @ gs @ hs = [] \<longrightarrow> data_fit t ds)"
      if "list_all task_complete (top_tasks t)"
      using fit that data_fit_task_of [of t ds] gs hs
      unfolding tasks_verdict_def meaningful_def append_is_Nil_conv by blast
    ultimately show "\<exists>ds. read_as t ds ?tds \<and>
       (list_all task_complete (top_tasks t) \<longrightarrow>
         (fs @ gs @ hs = [] \<longleftrightarrow> meaningful t) \<and> (fs @ gs @ hs = [] \<longrightarrow> data_fit t ds))"
      by blast
  qed
qed


section \<open>What a tree stands for\<close>

text \<open>
  Names, data, dependencies and run levels as the tree has them, by name: the dependencies of a
  task in the order of their declarations, and the first of equally named run levels.
\<close>

definition declared_dependencies :: "top_level_node \<Rightarrow> string \<Rightarrow> string list" where
  "declared_dependencies t name = concat (map (\<lambda>n.
     if id_text (dn_dependant n) = name then map id_text (dn_dependencies n) else []) (top_dependencies t))"

definition declared_level :: "top_level_node \<Rightarrow> string \<Rightarrow> string list option" where
  "declared_level t = map_of (map (\<lambda>n. (id_text (the (rn_name n)), map id_text (rn_dependencies n))) (top_run_levels t))"

definition denotes_tree :: "top_level_node \<Rightarrow> task_descriptions \<Rightarrow> bool" where
  "denotes_tree t tds \<longleftrightarrow>
     sorted (task_names tds) \<and> mset (task_names tds) = mset (tree_names t) \<and>
     (\<forall>n \<in> set (top_tasks t). \<exists>d \<in> set (all_tasks tds). td_name d = id_text (tn_name n) \<and> task_of n (td_data d)) \<and>
     (\<forall>d \<in> set (all_tasks tds).
        map ((!) (task_names tds)) (td_dependencies d) = declared_dependencies t (td_name d)) \<and>
     (\<forall>name. map_option (map ((!) (task_names tds))) (mm_find (run_level_by_name tds) name) = declared_level t name)"

lemma names_of_lookup:
  assumes "wf_descriptions tds" "set (task_names tds) = set (tree_names t)" "names_declared t is"
  shows "map ((!) (task_names tds)) (List.map_filter (lookup tds) is) = map id_text is"
  using assms(3)
proof (induction "is")
  case (Cons i "is")
  then have "id_text i \<in> set (task_names tds)" "names_declared t is"
    using assms(2) by (simp_all add: names_declared_def)
  moreover obtain p where "lookup tds i = Some p"
    using lookup_wf(2) [OF assms(1), of i] calculation(1) by auto
  ultimately show ?case using Cons.IH lookup_wf(1) [OF assms(1), of i p] by (simp add: map_filter_simps)
qed (simp add: map_filter_simps)

lemma lookup_unique:
  assumes "wf_descriptions tds" "distinct (task_names tds)" "i < length (all_tasks tds)" "lookup tds n \<noteq> None"
  shows "lookup tds n = Some i \<longleftrightarrow> id_text n = td_name (all_tasks tds ! i)"
proof -
  obtain p where p: "lookup tds n = Some p" using assms(4) by auto
  have "p < length (all_tasks tds)" "task_names tds ! p = id_text n" using lookup_wf(1) [OF assms(1) p] by simp_all
  moreover have "task_names tds ! i = td_name (all_tasks tds ! i)" using assms(3) by (simp add: task_names_def)
  ultimately show ?thesis
    using assms(2,3) p nth_eq_iff_index_eq [of "task_names tds" p i] by (auto simp: task_names_def)
qed

lemma map_of_keyed: "map_of (map (\<lambda>x. (k x, f x)) xs) y = map_option f (map_of (map (\<lambda>x. (k x, x)) xs) y)"
  by (induction xs) auto

lemma level_entries_map_of:
  "map_of (level_entries mid (levels_by_name ls)) name =
     map_option (\<lambda>n. List.map_filter (lookup mid) (rn_dependencies n))
       (map_of (map (\<lambda>n. (id_text (the (rn_name n)), n)) ls) name)"
proof -
  have "map_of (levels_by_name ls) name = map_of (map (\<lambda>n. (id_text (the (rn_name n)), n)) ls) name"
    unfolding levels_by_name_def using mm.find_from_list [of _ name] by (simp add: mm_find_map_of)
  then show ?thesis by (simp add: level_entries_def map_of_map)
qed

lemma read_as_denotes:
  assumes "read_as t ds tds" "data_fit t ds" "meaningful t"
  shows "denotes_tree t tds"
proof -
  let ?base = "base_of t ds" and ?ps = "tasks_by_name (top_tasks t)"
  obtain mid where len: "length ds = length ?ps" and mid: "with_declarations (top_dependencies t) ?base mid"
    and tds: "tds = mid\<lparr>run_level_by_name :=
         smap.insert_all (level_entries mid (levels_by_name (top_run_levels t))) []\<rparr>"
    using assms(1) by (auto simp: read_as_def)
  have mean: "distinct (tree_names t)"
    "\<And>n. n \<in> set (top_dependencies t) \<Longrightarrow> names_declared t (dn_dependant n # dn_dependencies n)"
    "\<And>n. n \<in> set (top_run_levels t) \<Longrightarrow> names_declared t (rn_dependencies n)"
    using assms(3) by (simp_all add: meaningful_def)
  note base = base_of_facts [OF len]
  have names: "task_names tds = map fst ?ps" "task_names mid = map fst ?ps" and look: "lookup mid = lookup ?base"
    using with_declarations_names [OF mid] base(2) by (simp_all add: tds task_names_def)
  have sets: "set (task_names ?base) = set (tree_names t)" "set (task_names mid) = set (tree_names t)"
    using names base(2) tasks_by_name_facts(2) [of t] by simp_all
  have wf: "wf_descriptions mid" using mid base(1) by (simp add: with_declarations_def)
  have dist: "distinct (task_names ?base)" using base(2) mean(1) tasks_by_name_facts(1) [of t] by simp
  have nth: "all_tasks tds ! i = (all_tasks ?base ! i)\<lparr>td_dependencies := concat (map (declared_by ?base i) (top_dependencies t))\<rparr>"
    "i < length (all_tasks ?base)" if "i < length (all_tasks tds)" for i
    using mid that base(4,6) by (simp_all add: with_declarations_def tds)
  have "mset (task_names tds) = mset (tree_names t)"
  proof -
    have "mset (map fst ?ps) = image_mset fst (mset (map (\<lambda>n. (id_text (tn_name n), n)) (top_tasks t)))"
      by (simp only: tasks_by_name_eq mset_map mset_from_list)
    then show ?thesis by (simp add: names(1) tree_names_def image_mset.compositionality comp_def)
  qed
  moreover have "\<exists>d \<in> set (all_tasks tds). td_name d = id_text (tn_name n) \<and> task_of n (td_data d)"
    if "n \<in> set (top_tasks t)" for n
  proof -
    have "(id_text (tn_name n), n) \<in> set ?ps" using that by (simp add: tasks_by_name_facts(4))
    then obtain i where i: "i < length ?ps" "?ps ! i = (id_text (tn_name n), n)" by (auto simp: in_set_conv_nth)
    have il: "i < length (all_tasks tds)" using i(1) names(1) by (metis length_map task_names_def)
    have "task_names tds ! i = id_text (tn_name n)" using names(1) i by simp
    then have "td_name (all_tasks tds ! i) = id_text (tn_name n)" using il by (simp add: task_names_def)
    moreover have "task_of (snd (?ps ! i)) (ds ! i)"
      using assms(2) i(1) by (simp add: data_fit_def list_all2_conv_all_nth)
    then have "task_of n (td_data (all_tasks tds ! i))"
      using i nth(1) [OF il] base(5) len by simp
    ultimately show ?thesis using nth_mem [OF il] by blast
  qed
  moreover have "map ((!) (task_names tds)) (td_dependencies d) = declared_dependencies t (td_name d)"
    if "d \<in> set (all_tasks tds)" for d
  proof -
    obtain i where i: "i < length (all_tasks tds)" "d = all_tasks tds ! i" using \<open>d \<in> _\<close> by (auto simp: in_set_conv_nth)
    have decl: "map ((!) (task_names tds)) (declared_by ?base i n) =
        (if id_text (dn_dependant n) = td_name d then map id_text (dn_dependencies n) else [])"
      if "n \<in> set (top_dependencies t)" for n
    proof -
      have ids: "names_declared t (dn_dependencies n)" "id_text (dn_dependant n) \<in> set (tree_names t)"
        using mean(2) [OF that] by (simp_all add: names_declared_def)
      have "lookup ?base (dn_dependant n) \<noteq> None" using lookup_wf(2) [OF base(1), of "dn_dependant n"] ids(2) sets(1) by simp
      then have "lookup ?base (dn_dependant n) = Some i \<longleftrightarrow> id_text (dn_dependant n) = td_name d"
        using lookup_unique [OF base(1) dist nth(2) [OF i(1)]] nth(1) [OF i(1)] i(2) by simp
      then show ?thesis
        using names_of_lookup [OF base(1) sets(1) ids(1)] names(1) base(2) by (simp add: declared_by_def)
    qed
    show ?thesis
      using nth(1) [OF i(1)] i(2) decl by (simp add: declared_dependencies_def map_concat comp_def cong: map_cong)
  qed
  moreover have "map_option (map ((!) (task_names tds))) (mm_find (run_level_by_name tds) name) = declared_level t name" for name
  proof -
    let ?m = "map_of (map (\<lambda>n. (id_text (the (rn_name n)), n)) (top_run_levels t)) name"
    have "map_invar ([] :: (string \<times> nat list) list)" by (simp add: map_invar_def)
    from smap.find_insert_all [OF this]
    have found: "mm_find (run_level_by_name tds) name = map_option (\<lambda>n. List.map_filter (lookup mid) (rn_dependencies n)) ?m"
      by (simp add: tds level_entries_map_of)
    have "map ((!) (task_names tds)) (List.map_filter (lookup mid) (rn_dependencies n)) = map id_text (rn_dependencies n)"
      if "?m = Some n" for n
    proof -
      have "n \<in> set (top_run_levels t)" using map_of_SomeD [OF that] by auto
      then show ?thesis using names_of_lookup [OF wf sets(2) mean(3)] names by simp
    qed
    then show ?thesis
      unfolding declared_level_def map_of_keyed [where f = "\<lambda>n. map id_text (rn_dependencies n)"] by (cases ?m) (simp_all add: found)
  qed
  ultimately show ?thesis
    using tasks_by_name_facts(3) [of t] names(1) by (simp add: denotes_tree_def)
qed

end
