(* ===== verification/Line_Map.thy ===== *)
theory Line_Map
  imports Parser_Facts
begin

text \<open>
  The line map and the output of errors, \<^verbatim>\<open>libinitd-readconfig/line_map\<close>. Lines and columns
  are \<^verbatim>\<open>unsigned\<close> and wrap; the reads of characters and the construction of strings from
  ranges that the code does without a test are faults where they leave the text.
\<close>

section \<open>The model\<close>

record line_map =
  lm_text :: string
  line_breaks :: "nat list"

definition file_end :: "line_map \<Rightarrow> nat" where
  "file_end lm = length (lm_text lm)"

fun breaks_from :: "nat \<Rightarrow> string \<Rightarrow> nat list" where
  "breaks_from i [] = []"
| "breaks_from i (c # s) = (if c = CHR 0x0A then Suc i # breaks_from (Suc i) s else breaks_from (Suc i) s)"

definition new_line_map :: "string \<Rightarrow> line_map" where
  "new_line_map whole_file = \<lparr>lm_text = whole_file, line_breaks = 0 # breaks_from 0 whole_file\<rparr>"

text \<open>\<^verbatim>\<open>std::upper_bound\<close> on an ascending sequence: how many elements are not above the value.\<close>

definition upper_bound :: "nat list \<Rightarrow> nat \<Rightarrow> nat" where
  "upper_bound bs pos = length (takeWhile (\<lambda>b. b \<le> pos) bs)"

record line_column =
  line :: uint32
  column :: uint32

definition get_position :: "line_map \<Rightarrow> nat \<Rightarrow> line_column faulty" where
  "get_position lm pos =
     (let i = upper_bound (line_breaks lm) pos in
      if i = 0 then Inl (Assertion_failed ''i != line_breaks.begin()'')
      else Inr \<lparr>line = of_nat (i - 1), column = of_nat (pos - line_breaks lm ! (i - 1))\<rparr>)"

definition get_line_range :: "line_map \<Rightarrow> uint32 \<Rightarrow> text_range faulty" where
  "get_line_range lm l =
     (if unat (l + 1) < length (line_breaks lm)
      then (if unat l < length (line_breaks lm)
            then Inr (text_range_of (line_breaks lm ! unat l) (line_breaks lm ! unat (l + 1)))
            else Inl (Undefined_behaviour ''line_breaks[line] out of range''))
      else if unat l < length (line_breaks lm)
      then Inr (text_range_of (line_breaks lm ! unat l) (file_end lm))
      else Inl (Undefined_behaviour ''line_breaks[line] out of range''))"

text \<open>The character before the end of the line is read even if the text is empty.\<close>

definition get_line_range_wo_newline :: "line_map \<Rightarrow> uint32 \<Rightarrow> text_range faulty" where
  "get_line_range_wo_newline lm l =
     bind_faulty (get_line_range lm l) (\<lambda>r.
       if range_end r = 0 then Inl (Undefined_behaviour ''read before the start of the file'')
       else if lm_text lm ! (range_end r - 1) = CHR 0x0A
       then Inr (text_range_of (range_start r) (range_end r - 1))
       else Inr r)"

text \<open>\<^verbatim>\<open>std::string(start, end)\<close> needs a range that is not inverted.\<close>

definition string_of_range :: "line_map \<Rightarrow> text_range \<Rightarrow> string faulty" where
  "string_of_range lm r =
     (if range_start r \<le> range_end r
      then Inr (take (range_end r - range_start r) (drop (range_start r) (lm_text lm)))
      else Inl (Undefined_behaviour ''string of an inverted range''))"

definition newline :: string where "newline = [CHR 0x0A]"

definition show_uint32 :: "uint32 \<Rightarrow> string" where
  "show_uint32 n = show_nat (unat n)"

definition print_error :: "string \<Rightarrow> line_map \<Rightarrow> error_tag \<Rightarrow> string faulty" where
  "print_error filename lm e =
     (if range_start (err_range e) = range_end (err_range e) then
        bind_faulty (get_position lm (range_start (err_range e))) (\<lambda>pos.
        bind_faulty (get_line_range_wo_newline lm (line pos)) (\<lambda>line_range.
        bind_faulty (string_of_range lm line_range) (\<lambda>text_line.
        Inr (filename @ '':'' @ show_uint32 (line pos) @ '':'' @ show_uint32 (column pos) @ '': '' @ err_message e @ newline @
             text_line @ newline @ replicate (unat (column pos)) (CHR '' '') @ ''^'' @ newline))))
      else
        bind_faulty (get_position lm (range_start (err_range e))) (\<lambda>start.
        bind_faulty (get_position lm (range_end (err_range e))) (\<lambda>stop.
        bind_faulty (get_line_range_wo_newline lm (line start)) (\<lambda>line_range.
        bind_faulty (string_of_range lm line_range) (\<lambda>text_line.
        if line start = line stop then
          Inr (filename @ '':'' @ show_uint32 (line start) @ '':'' @ show_uint32 (column start) @ ''~'' @
               show_uint32 (column stop) @ '': '' @ err_message e @ newline @ text_line @ newline @
               replicate (unat (column start)) (CHR '' '') @
               replicate (unat (column stop - column start)) (CHR ''~'') @ newline)
        else if unat (column start) \<le> range_end line_range - range_start line_range then
          Inr (filename @ '':'' @ show_uint32 (line start) @ '':'' @ show_uint32 (column start) @ ''~'' @
               show_uint32 (line stop) @ '':'' @ show_uint32 (column stop) @ '': '' @ err_message e @ newline @
               text_line @ newline @ replicate (unat (column start)) (CHR '' '') @
               replicate (range_end line_range - range_start line_range - unat (column start)) (CHR ''~'') @ newline)
        else Inl (Undefined_behaviour ''string of a wrapped length''))))))"

fun print_errors :: "string \<Rightarrow> line_map \<Rightarrow> error_tag list \<Rightarrow> string faulty" where
  "print_errors filename lm [] = Inr []"
| "print_errors filename lm (e # es) =
     bind_faulty (print_error filename lm e) (\<lambda>out.
     bind_faulty (print_errors filename lm es) (\<lambda>rest. Inr (out @ rest)))"

text \<open>What \<^verbatim>\<open>read_descriptions\<close> writes: nothing without errors, and an empty line after them.\<close>

definition error_report :: "string \<Rightarrow> string \<Rightarrow> error_tag list \<Rightarrow> string faulty" where
  "error_report filename whole_file es =
     (if es = [] then Inr []
      else bind_faulty (print_errors filename (new_line_map whole_file) es) (\<lambda>out. Inr (out @ newline)))"

end
