(* ===== verification/Line_Map_Facts.thy ===== *)
theory Line_Map_Facts
  imports Line_Map
begin

text \<open>
  The line map counts: the line of a position is the number of newlines before it, its column
  the distance to the last of them, and the line printed is the text between the newlines
  around it. An error is printed except at the end of a text whose last line is empty.
\<close>

section \<open>Positions\<close>

abbreviation (input) nl :: char where "nl \<equiv> CHR 0x0A"

text \<open>The line of a position by counting, and its column by looking back.\<close>

definition lines_before :: "string \<Rightarrow> nat \<Rightarrow> nat" where
  "lines_before u pos = length (filter (\<lambda>c. c = nl) (take pos u))"

definition column_of :: "string \<Rightarrow> nat \<Rightarrow> nat" where
  "column_of u pos = length (takeWhile (\<lambda>c. c \<noteq> nl) (rev (take pos u)))"

lemma breaks_from_greater: "b \<in> set (breaks_from i s) \<Longrightarrow> i < b \<and> b \<le> i + length s"
  by (induction i s rule: breaks_from.induct) (fastforce split: if_splits)+

lemma breaks_from_newline: "b \<in> set (breaks_from i s) \<Longrightarrow> s ! (b - Suc i) = nl"
proof (induction i s rule: breaks_from.induct)
  case (2 i c s)
  show ?case
  proof (cases "b = Suc i \<and> c = nl")
    case False
    then have b: "b \<in> set (breaks_from (Suc i) s)" using 2(3) by (auto split: if_splits)
    then have "s ! (b - Suc (Suc i)) = nl" using 2(1,2) by (cases "c = nl") auto
    then show ?thesis using breaks_from_greater [OF b] by (simp add: nth_Cons')
  qed simp
qed simp

lemma breaks_from_strict: "sorted_wrt (<) (breaks_from i s)"
  by (induction i s rule: breaks_from.induct) (auto dest: breaks_from_greater)

lemma takeWhile_breaks_above: "pos \<le> i \<Longrightarrow> takeWhile (\<lambda>b. b \<le> pos) (breaks_from i s) = []"
  using breaks_from_greater [of "hd (breaks_from i s)" i s] by (cases "breaks_from i s") auto

lemma length_takeWhile_breaks:
  "i \<le> pos \<Longrightarrow> length (takeWhile (\<lambda>b. b \<le> pos) (breaks_from i s)) = length (filter (\<lambda>c. c = nl) (take (pos - i) s))"
proof (induction i s rule: breaks_from.induct)
  case (2 i c s)
  show ?case
  proof (cases "pos = i")
    case False
    then have "Suc i \<le> pos" "pos - i = Suc (pos - Suc i)" using 2(3) by simp_all
    then show ?thesis using 2(1,2) by (cases "c = nl") simp_all
  qed (simp add: takeWhile_breaks_above)
qed simp

text \<open>The start of the last line of a text whose first line starts at \<open>b\<close>.\<close>

lemma rev_takeWhile_Cons:
  "length (takeWhile (\<lambda>c. c \<noteq> nl) (rev (c # t))) =
     (if nl \<in> set t then length (takeWhile (\<lambda>c. c \<noteq> nl) (rev t)) else if c = nl then length t else Suc (length t))"
proof (cases "nl \<in> set t")
  case True
  then have "takeWhile (\<lambda>c. c \<noteq> nl) (rev t @ [c]) = takeWhile (\<lambda>c. c \<noteq> nl) (rev t)"
    by (intro takeWhile_append1 [where x = nl]) auto
  then show ?thesis using True by simp
next
  case False
  then have "takeWhile (\<lambda>c. c \<noteq> nl) (rev t @ [c]) = rev t @ takeWhile (\<lambda>c. c \<noteq> nl) [c]"
    by (intro takeWhile_append2) auto
  then show ?thesis using False by simp
qed

lemma last_break:
  "i \<le> pos \<Longrightarrow> pos \<le> i + length s \<Longrightarrow>
    last (b # takeWhile (\<lambda>b. b \<le> pos) (breaks_from i s)) =
      (if nl \<in> set (take (pos - i) s) then pos - length (takeWhile (\<lambda>c. c \<noteq> nl) (rev (take (pos - i) s))) else b)"
proof (induction i s arbitrary: b rule: breaks_from.induct)
  case (2 i c s)
  show ?case
  proof (cases "pos = i")
    case False
    let ?t = "take (pos - Suc i) s"
    have pos: "Suc i \<le> pos" "pos \<le> Suc i + length s" using False 2(3,4) by simp_all
    have tk: "take (pos - i) (c # s) = c # ?t" using pos(1) by (simp add: take_Cons')
    have len: "length ?t = pos - Suc i" using pos(2) by simp
    show ?thesis
    proof (cases "c = nl")
      case True
      have "last (b # takeWhile (\<lambda>b. b \<le> pos) (breaks_from i (c # s))) =
          last (Suc i # takeWhile (\<lambda>b. b \<le> pos) (breaks_from (Suc i) s))"
        using pos(1) True by simp
      also have "\<dots> = (if nl \<in> set ?t then pos - length (takeWhile (\<lambda>c. c \<noteq> nl) (rev ?t)) else Suc i)"
        by (rule 2(1) [OF True pos])
      also have "\<dots> = pos - length (takeWhile (\<lambda>c. c \<noteq> nl) (rev (c # ?t)))"
        unfolding rev_takeWhile_Cons using True pos(1) len by simp
      finally show ?thesis unfolding tk using True by (simp del: rev.simps breaks_from.simps)
    next
      case c: False
      have "last (b # takeWhile (\<lambda>b. b \<le> pos) (breaks_from i (c # s))) =
          last (b # takeWhile (\<lambda>b. b \<le> pos) (breaks_from (Suc i) s))"
        using c by simp
      also have "\<dots> = (if nl \<in> set ?t then pos - length (takeWhile (\<lambda>c. c \<noteq> nl) (rev ?t)) else b)"
        by (rule 2(2) [OF c pos])
      finally show ?thesis using c unfolding tk rev_takeWhile_Cons by simp
    qed
  qed (simp add: takeWhile_breaks_above)
qed simp

lemma column_of_no_newline:
  assumes "nl \<notin> set (take pos u)" "pos \<le> length u"
  shows "column_of u pos = pos"
proof -
  have "takeWhile (\<lambda>c. c \<noteq> nl) (rev (take pos u)) = rev (take pos u)"
    using assms(1) by (auto simp: takeWhile_eq_all_conv)
  then have "column_of u pos = length (rev (take pos u))" unfolding column_of_def by (rule arg_cong)
  then show ?thesis using assms(2) by simp
qed

text \<open>The position found: no assertion fails, whatever the position.\<close>

lemma get_position_correct:
  assumes "pos \<le> length u"
  shows "get_position (new_line_map u) pos =
    Inr \<lparr>line = of_nat (lines_before u pos), column = of_nat (column_of u pos)\<rparr>"
    "line_breaks (new_line_map u) ! lines_before u pos = pos - column_of u pos"
    "lines_before u pos < length (line_breaks (new_line_map u))"
    "column_of u pos \<le> pos"
proof -
  let ?B = "line_breaks (new_line_map u)" and ?t = "takeWhile (\<lambda>b. b \<le> pos) (breaks_from 0 u)"
  have ub: "upper_bound ?B pos = Suc (lines_before u pos)"
    by (simp add: upper_bound_def new_line_map_def length_takeWhile_breaks lines_before_def)
  have col: "last (0 # ?t) = pos - column_of u pos"
    using last_break [of 0 pos u 0] assms column_of_no_newline [of pos u] by (auto simp: column_of_def)
  have "takeWhile (\<lambda>b. b \<le> pos) ?B = 0 # ?t" by (simp add: new_line_map_def)
  moreover have "?B ! k = takeWhile (\<lambda>b. b \<le> pos) ?B ! k" if "k < length (takeWhile (\<lambda>b. b \<le> pos) ?B)" for k
    using that by (metis takeWhile_nth)
  ultimately have "?B ! length ?t = last (0 # ?t)"
    by (metis last_conv_nth length_Cons diff_Suc_1 lessI list.distinct(1))
  then show start: "?B ! lines_before u pos = pos - column_of u pos"
    using col by (simp add: length_takeWhile_breaks lines_before_def)
  show "lines_before u pos < length ?B"
    using ub length_takeWhile_le [of "\<lambda>b. b \<le> pos" ?B] by (simp add: upper_bound_def)
  show le: "column_of u pos \<le> pos"
    unfolding column_of_def by (rule order.trans [OF length_takeWhile_le]) simp
  show "get_position (new_line_map u) pos =
      Inr \<lparr>line = of_nat (lines_before u pos), column = of_nat (column_of u pos)\<rparr>"
    using start le by (simp add: get_position_def Let_def ub)
qed

section \<open>Lines\<close>

definition line_around :: "string \<Rightarrow> nat \<Rightarrow> string" where
  "line_around u pos = rev (takeWhile (\<lambda>c. c \<noteq> nl) (rev (take pos u))) @ takeWhile (\<lambda>c. c \<noteq> nl) (drop pos u)"

definition to_line_end :: "string \<Rightarrow> nat \<Rightarrow> nat" where
  "to_line_end u pos = length (takeWhile (\<lambda>c. c \<noteq> nl) (drop pos u))"

lemma breaks_above: "i \<le> pos \<Longrightarrow> pos \<le> i + length s \<Longrightarrow>
    dropWhile (\<lambda>b. b \<le> pos) (breaks_from i s) = breaks_from pos (drop (pos - i) s)"
proof (induction i s rule: breaks_from.induct)
  case (2 i c s)
  show ?case
  proof (cases "pos = i")
    case True
    have "takeWhile (\<lambda>b. b \<le> pos) (breaks_from i (c # s)) = []"
      using True by (simp add: takeWhile_breaks_above)
    then have "dropWhile (\<lambda>b. b \<le> pos) (breaks_from i (c # s)) = breaks_from i (c # s)"
      by (metis append_Nil takeWhile_dropWhile_id)
    then show ?thesis using True by simp
  next
    case False
    then have "Suc i \<le> pos" "drop (pos - i) (c # s) = drop (pos - Suc i) s" "pos \<le> Suc i + length s"
      using 2(3,4) by (simp_all add: drop_Cons')
    then show ?thesis using 2(1,2) by (cases "c = nl") simp_all
  qed
qed simp

lemma first_break:
  "breaks_from i s = [] \<longleftrightarrow> nl \<notin> set s"
  "nl \<in> set s \<Longrightarrow> hd (breaks_from i s) = Suc (i + length (takeWhile (\<lambda>c. c \<noteq> nl) s))"
  by (induction i s rule: breaks_from.induct) auto

lemma next_break:
  assumes "pos \<le> length u"
  shows "Suc (lines_before u pos) < length (line_breaks (new_line_map u)) \<longleftrightarrow> nl \<in> set (drop pos u)"
    "nl \<in> set (drop pos u) \<Longrightarrow>
      line_breaks (new_line_map u) ! Suc (lines_before u pos) = Suc (pos + to_line_end u pos)"
proof -
  let ?P = "\<lambda>b. b \<le> pos" and ?B = "breaks_from 0 u"
  have above: "dropWhile ?P ?B = breaks_from pos (drop pos u)"
    using breaks_above [of 0 pos u] assms by simp
  have below: "length (takeWhile ?P ?B) = lines_before u pos"
    by (simp add: length_takeWhile_breaks lines_before_def)
  have split: "?B = takeWhile ?P ?B @ breaks_from pos (drop pos u)"
    using takeWhile_dropWhile_id [of ?P ?B] above by simp
  show "Suc (lines_before u pos) < length (line_breaks (new_line_map u)) \<longleftrightarrow> nl \<in> set (drop pos u)"
    using first_break(1) [of pos "drop pos u"] arg_cong [OF split, of length] below
    by (simp add: new_line_map_def)
  assume nl: "nl \<in> set (drop pos u)"
  then have ne: "breaks_from pos (drop pos u) \<noteq> []" using first_break(1) by blast
  have "?B ! lines_before u pos = breaks_from pos (drop pos u) ! 0"
    using below ne by (subst split) (simp add: nth_append)
  also have "\<dots> = Suc (pos + to_line_end u pos)"
    using first_break(2) [OF nl, of pos] ne by (simp add: hd_conv_nth to_line_end_def)
  finally show "line_breaks (new_line_map u) ! Suc (lines_before u pos) = Suc (pos + to_line_end u pos)"
    by (simp add: new_line_map_def)
qed

lemma lines_before_le: "lines_before u pos \<le> length u"
  unfolding lines_before_def by (rule order.trans [OF length_filter_le]) simp

lemma unat_of_nat_small: "n < 2 ^ 32 \<Longrightarrow> unat (of_nat n :: uint32) = n"
  by (simp add: unat_of_nat take_bit_nat_eq_self)

text \<open>Texts whose positions fit into the counters.\<close>

abbreviation (input) countable_text :: "string \<Rightarrow> bool" where
  "countable_text u \<equiv> Suc (length u) < 2 ^ 32"

lemma unat_line:
  assumes "countable_text u"
  shows "unat (of_nat (lines_before u pos) :: uint32) = lines_before u pos"
    "unat (of_nat (lines_before u pos) + 1 :: uint32) = Suc (lines_before u pos)"
proof -
  have le: "Suc (lines_before u pos) < 2 ^ 32" using assms lines_before_le [of u pos] by simp
  then show "unat (of_nat (lines_before u pos) :: uint32) = lines_before u pos"
    by (simp add: unat_of_nat_small)
  have "unat (of_nat (Suc (lines_before u pos)) :: uint32) = Suc (lines_before u pos)"
    using le by (intro unat_of_nat_small) simp
  then show "unat (of_nat (lines_before u pos) + 1 :: uint32) = Suc (lines_before u pos)"
    by (simp add: add.commute)
qed

lemma unat_column:
  assumes "countable_text u" "pos \<le> length u"
  shows "unat (of_nat (column_of u pos) :: uint32) = column_of u pos"
  using assms get_position_correct(4) [of pos u] by (intro unat_of_nat_small) simp

lemma get_line_range_correct:
  assumes "countable_text u" "pos \<le> length u"
  shows "get_line_range (new_line_map u) (of_nat (lines_before u pos)) =
    Inr (text_range_of (pos - column_of u pos)
      (if nl \<in> set (drop pos u) then Suc (pos + to_line_end u pos) else length u))"
  using get_position_correct(2,3) [OF assms(2)] next_break [OF assms(2)]
  by (simp add: get_line_range_def unat_line [OF assms(1)] file_end_def) (simp add: new_line_map_def)

lemma to_line_end:
  assumes "pos \<le> length u"
  shows "nl \<in> set (drop pos u) \<Longrightarrow> pos + to_line_end u pos < length u \<and> u ! (pos + to_line_end u pos) = nl"
    "nl \<notin> set (drop pos u) \<Longrightarrow> pos + to_line_end u pos = length u"
proof -
  assume "nl \<in> set (drop pos u)"
  then have "takeWhile (\<lambda>c. c \<noteq> nl) (drop pos u) \<noteq> drop pos u" by (auto simp: takeWhile_eq_all_conv)
  then have lt: "to_line_end u pos < length (drop pos u)"
    unfolding to_line_end_def
    by (metis length_takeWhile_le nat_less_le takeWhile_eq_take take_all_iff order_refl)
  moreover have "drop pos u ! to_line_end u pos = nl"
    using nth_length_takeWhile [of "\<lambda>c. c \<noteq> nl" "drop pos u"] lt by (simp add: to_line_end_def)
  ultimately show "pos + to_line_end u pos < length u \<and> u ! (pos + to_line_end u pos) = nl"
    using assms by simp
next
  assume "nl \<notin> set (drop pos u)"
  then have "takeWhile (\<lambda>c. c \<noteq> nl) (drop pos u) = drop pos u" by (auto simp: takeWhile_eq_all_conv)
  then have "to_line_end u pos = length (drop pos u)" unfolding to_line_end_def by (rule arg_cong)
  then show "pos + to_line_end u pos = length u" using assms by simp
qed

text \<open>The line without its newline, except at the end of the text after its last newline.\<close>

definition past_last_line :: "string \<Rightarrow> nat \<Rightarrow> bool" where
  "past_last_line u pos \<longleftrightarrow> pos = length u \<and> ends_line u"

lemma get_line_correct:
  assumes "countable_text u" "pos \<le> length u" "\<not> past_last_line u pos"
  shows "get_line_range_wo_newline (new_line_map u) (of_nat (lines_before u pos)) =
    Inr (text_range_of (pos - column_of u pos) (pos + to_line_end u pos))"
proof (cases "nl \<in> set (drop pos u)")
  case True
  then show ?thesis
    using get_line_range_correct [OF assms(1,2)] to_line_end(1) [OF assms(2)]
    by (simp add: get_line_range_wo_newline_def) (simp add: new_line_map_def)
next
  case False
  have ne: "u \<noteq> []" and last: "last u \<noteq> nl"
  proof -
    show "u \<noteq> []" using assms(2,3) by (auto simp: past_last_line_def ends_line_def)
    show "last u \<noteq> nl"
    proof (cases "pos = length u")
      case True
      then show ?thesis using assms(3) by (auto simp: past_last_line_def ends_line_def)
    next
      case neq: False
      then have "drop pos u \<noteq> []" using assms(2) by simp
      then have "last (drop pos u) \<in> set (drop pos u)" by (rule last_in_set)
      moreover have "last (drop pos u) = last u" using neq assms(2) by simp
      ultimately show ?thesis using False by auto
    qed
  qed
  then show ?thesis
    using False get_line_range_correct [OF assms(1,2)] to_line_end(2) [OF assms(2) False]
    by (simp add: get_line_range_wo_newline_def) (simp add: new_line_map_def last_conv_nth)
qed

lemma string_of_line:
  assumes "pos \<le> length u"
  shows "string_of_range (new_line_map u) (text_range_of (pos - column_of u pos) (pos + to_line_end u pos)) =
    Inr (line_around u pos)"
proof -
  let ?c = "column_of u pos" and ?w = "takeWhile (\<lambda>c. c \<noteq> nl) (rev (take pos u))"
  have le: "?c \<le> pos" using get_position_correct(4) [OF assms] .
  have "take pos u = rev (dropWhile (\<lambda>c. c \<noteq> nl) (rev (take pos u))) @ rev ?w"
    by (metis rev_append rev_rev_ident takeWhile_dropWhile_id)
  moreover have "length (rev (dropWhile (\<lambda>c. c \<noteq> nl) (rev (take pos u)))) = pos - ?c"
    using assms by (simp add: column_of_def dropWhile_eq_drop)
  ultimately have "drop (pos - ?c) (take pos u) = rev ?w" by (metis append_eq_conv_conj)
  moreover have "drop (pos - ?c) u = drop (pos - ?c) (take pos u) @ drop pos u"
    using le assms by (metis append_take_drop_id diff_is_0_eq diff_le_self drop_0 drop_append length_take min.absorb2)
  ultimately have "drop (pos - ?c) u = rev ?w @ drop pos u" by simp
  moreover have "take (to_line_end u pos) (drop pos u) = takeWhile (\<lambda>c. c \<noteq> nl) (drop pos u)"
    by (simp add: to_line_end_def takeWhile_eq_take [symmetric])
  ultimately show ?thesis
    using le by (simp add: string_of_range_def line_around_def) (simp add: new_line_map_def column_of_def)
qed


section \<open>The output of an error\<close>

lemma print_past_last_line:
  assumes "countable_text u" "past_last_line u pos"
  shows "bind_faulty (get_line_range_wo_newline (new_line_map u) (of_nat (lines_before u pos)))
      (string_of_range (new_line_map u)) = Inl (Undefined_behaviour
        (if u = [] then ''read before the start of the file'' else ''string of an inverted range''))"
proof (cases "u = []")
  case True
  then show ?thesis
    using get_line_range_correct [OF assms(1), of pos] assms(2)
    by (simp add: get_line_range_wo_newline_def past_last_line_def)
next
  case False
  then have last: "u ! (length u - 1) = nl" and pos: "pos = length u"
    using assms(2) by (simp_all add: past_last_line_def ends_line_def last_conv_nth)
  have "u = butlast u @ [nl]"
    using False last by (metis append_butlast_last_id last_conv_nth)
  then obtain v where "rev u = nl # v" by (metis rev_eq_Cons_iff rev_swap)
  then have "column_of u pos = 0" using pos by (simp add: column_of_def)
  moreover have "\<not> length u \<le> length u - Suc 0" using False by (cases u) simp_all
  ultimately show ?thesis
    using get_line_range_correct [OF assms(1), of pos] False last pos
    by (simp add: get_line_range_wo_newline_def string_of_range_def) (simp add: new_line_map_def)
qed

lemma print_point:
  assumes "countable_text u" "range_start (err_range e) = pos" "range_end (err_range e) = pos" "pos \<le> length u"
  shows "print_error f (new_line_map u) e =
    (if past_last_line u pos then Inl (Undefined_behaviour
        (if u = [] then ''read before the start of the file'' else ''string of an inverted range''))
     else Inr (f @ '':'' @ show_nat (lines_before u pos) @ '':'' @ show_nat (column_of u pos) @ '': '' @ err_message e @ newline @
       line_around u pos @ newline @ replicate (column_of u pos) (CHR '' '') @ ''^'' @ newline))"
proof (cases "past_last_line u pos")
  case True
  have "print_error f (new_line_map u) e =
      bind_faulty (bind_faulty (get_line_range_wo_newline (new_line_map u) (of_nat (lines_before u pos)))
        (string_of_range (new_line_map u)))
        (\<lambda>text_line. Inr (f @ '':'' @ show_uint32 (of_nat (lines_before u pos)) @ '':'' @
          show_uint32 (of_nat (column_of u pos)) @ '': '' @ err_message e @ newline @
          text_line @ newline @ replicate (unat (of_nat (column_of u pos) :: uint32)) (CHR '' '') @ ''^'' @ newline))"
    using assms(2,3) get_position_correct(1) [OF assms(4)]
    by (simp add: print_error_def bind_faulty_def split: sum.splits)
  then show ?thesis using True by (simp add: print_past_last_line [OF assms(1) True])
next
  case False
  then show ?thesis
    using assms(2,3) get_position_correct(1) [OF assms(4)] get_line_correct [OF assms(1,4) False] string_of_line [OF assms(4)]
    by (simp add: print_error_def show_uint32_def unat_line [OF assms(1)] unat_column [OF assms(1,4)])
qed

lemma same_line:
  assumes "a \<le> b" "b \<le> length u" "lines_before u a = lines_before u b"
  shows "column_of u b = column_of u a + (b - a)"
proof -
  have tk: "take b u = take a u @ take (b - a) (drop a u)"
    using assms(1) by (metis le_add_diff_inverse take_add)
  then have "filter (\<lambda>c. c = nl) (take (b - a) (drop a u)) = []"
    using assms(3) by (simp add: lines_before_def)
  then have "\<forall>c \<in> set (rev (take (b - a) (drop a u))). c \<noteq> nl" by (simp add: filter_empty_conv)
  then show ?thesis
    using assms(2) unfolding column_of_def tk rev_append by (subst takeWhile_append2) auto
qed

lemma print_span:
  assumes "countable_text u" "range_start (err_range e) = a" "range_end (err_range e) = b" "a < b" "b \<le> length u"
  shows "print_error f (new_line_map u) e =
    Inr (f @ '':'' @ show_nat (lines_before u a) @ '':'' @ show_nat (column_of u a) @ ''~'' @
      (if lines_before u a = lines_before u b then [] else show_nat (lines_before u b) @ '':'') @
      show_nat (column_of u b) @ '': '' @ err_message e @ newline @ line_around u a @ newline @
      replicate (column_of u a) (CHR '' '') @
      replicate (if lines_before u a = lines_before u b then b - a else to_line_end u a) (CHR ''~'') @ newline)"
proof -
  have a: "a \<le> length u" "\<not> past_last_line u a" using assms(4,5) by (simp_all add: past_last_line_def)
  have lines: "(of_nat (lines_before u a) :: uint32) = of_nat (lines_before u b) \<longleftrightarrow> lines_before u a = lines_before u b"
    by (metis unat_line(1) [OF assms(1)])
  have cols: "unat (of_nat (column_of u b) - of_nat (column_of u a) :: uint32) = b - a"
    if "lines_before u a = lines_before u b"
  proof -
    have "column_of u b = column_of u a + (b - a)" using same_line [OF _ assms(5) that] assms(4) by simp
    then have "(of_nat (column_of u b) - of_nat (column_of u a) :: uint32) = of_nat (b - a)" by simp
    then show ?thesis using assms(1,5) by (simp add: unat_of_nat_small)
  qed
  have le: "column_of u a \<le> a" using get_position_correct(4) [OF a(1)] .
  show ?thesis
    using assms(2-4) get_position_correct(1) [OF a(1)] get_position_correct(1) [OF assms(5)]
      get_line_correct [OF assms(1) a] string_of_line [OF a(1)] lines cols le
    by (simp add: print_error_def show_uint32_def unat_line [OF assms(1)]
        unat_column [OF assms(1) a(1)] unat_column [OF assms(1,5)])
qed

text \<open>All errors are printed unless one is past the last line.\<close>

lemma print_error_total:
  assumes "countable_text u" "range_within 0 (length u) (err_range e)" "\<not> past_last_line u (range_start (err_range e))"
  shows "\<exists>out. print_error f (new_line_map u) e = Inr out"
  using assms print_point [OF assms(1) refl, of e f] print_span [OF assms(1) refl refl, of e f]
  by (cases "range_start (err_range e) = range_end (err_range e)") (auto simp: range_within_def)

lemma print_errors_total:
  assumes "countable_text u" "errors_within 0 (length u) es"
    "\<forall>e \<in> set es. \<not> past_last_line u (range_start (err_range e))"
  shows "\<exists>out. print_errors f (new_line_map u) es = Inr out"
  using assms(2,3)
proof (induction es)
  case (Cons e es)
  then obtain out where "print_errors f (new_line_map u) es = Inr out" by auto
  moreover obtain out' where "print_error f (new_line_map u) e = Inr out'"
    using print_error_total [OF assms(1), of e f] Cons.prems by auto
  ultimately show ?case by simp
qed simp

lemma error_report_total:
  assumes "countable_text u" "errors_within 0 (length u) es"
    "\<forall>e \<in> set es. \<not> past_last_line u (range_start (err_range e))"
  shows "\<exists>out. error_report f u es = Inr out"
  using print_errors_total [OF assms, of f] by (auto simp: error_report_def)

end
