(* ===== verification/Read_Text_Facts.thy ===== *)
theory Read_Text_Facts
  imports Read_Descriptions_Facts Line_Map_Facts
begin

text \<open>
  The reading of a whole text: the parser and the reader of the tree together. A text is read
  without an error exactly if it parses without one and its tree means something; what is read
  is well formed and not larger than the text. Last, a text with a comment left open.
\<close>


section \<open>Reading a text\<close>

lemma results_apply: "results m P \<Longrightarrow> \<exists>x fs. m es = Inr (x, es @ fs) \<and> P x fs"
  by (auto simp: results_def gives_def)

lemma read_tree_unnamed:
  assumes "n \<in> set (top_run_levels t)" "rn_name n = None"
  shows "read_tree t es = Inl (Undefined_behaviour ''null run level name'')"
proof -
  obtain base fs where "read_tasks t empty_descriptions es = Inr (base, fs)"
    using results_apply [OF read_tasks_results, of t es] by auto
  moreover have "run_levels_by_name (top_run_levels t) [] = Inl (Undefined_behaviour ''null run level name'')"
    using assms by (auto simp: run_levels_by_name_named)
  ultimately show ?thesis
    by (simp add: read_tree_def rbind_def read_run_levels_def split: prod.split)
qed

lemma read_tree_named:
  assumes "read_tree t es = Inr q"
  shows "\<forall>n \<in> set (top_run_levels t). rn_name n \<noteq> None"
  using read_tree_unnamed [of _ t es] assms by fastforce

lemma read_tree_named_reads:
  assumes "\<forall>n \<in> set (top_run_levels t). rn_name n \<noteq> None"
  shows "\<exists>tds es'. read_tree t es = Inr (tds, es')"
  using results_apply [OF read_tree_results [OF assms], of es] by auto

lemma read_descriptions_result:
  assumes "read_descriptions u = Inr (tds, es)"
  shows "\<exists>t es0 fs ds. parse_text u = Inr (t, es0) \<and> es = es0 @ fs \<and> read_as t ds tds \<and>
    (list_all task_complete (top_tasks t) \<longrightarrow> (fs = [] \<longleftrightarrow> meaningful t) \<and> (fs = [] \<longrightarrow> data_fit t ds))"
proof -
  obtain t es0 where t: "parse_text u = Inr (t, es0)" and r: "read_tree t es0 = Inr (tds, es)"
    using assms by (auto simp: read_descriptions_def bind_faulty_Inr_iff)
  show ?thesis
    using results_apply [OF read_tree_results [OF read_tree_named [OF r]], of es0] t r by auto
qed

lemma complete_tree_tasks:
  "complete_tree t \<Longrightarrow> list_all task_complete (top_tasks t)"
  "complete_tree t \<Longrightarrow> \<forall>n \<in> set (top_run_levels t). rn_name n \<noteq> None"
  by (simp_all add: complete_tree_def task_complete_def [abs_def] list_all_iff)

lemma read_descriptions_clean:
  "(\<exists>tds. read_descriptions u = Inr (tds, [])) \<longleftrightarrow> (\<exists>t. parse_text u = Inr (t, []) \<and> meaningful t)"
  "read_descriptions u = Inr (tds, []) \<Longrightarrow> \<exists>t. parse_text u = Inr (t, []) \<and> denotes_tree t tds"
proof -
  have clean: "\<exists>t ds. parse_text u = Inr (t, []) \<and> meaningful t \<and> data_fit t ds \<and> read_as t ds tds"
    if "read_descriptions u = Inr (tds, [])" for tds
    using read_descriptions_result [OF that] parse_text_complete [of u] complete_tree_tasks(1) by auto
  then show "read_descriptions u = Inr (tds, []) \<Longrightarrow> \<exists>t. parse_text u = Inr (t, []) \<and> denotes_tree t tds"
    using read_as_denotes by blast
  have "\<exists>tds. read_descriptions u = Inr (tds, [])" if t: "parse_text u = Inr (t, [])" "meaningful t" for t
    using results_apply [OF read_tree_results [OF complete_tree_tasks(2)], of t "[]"]
      parse_text_complete [OF t(1)] complete_tree_tasks(1) [of t] t
    by (auto simp: read_descriptions_def)
  then show "(\<exists>tds. read_descriptions u = Inr (tds, [])) \<longleftrightarrow> (\<exists>t. parse_text u = Inr (t, []) \<and> meaningful t)"
    using clean by blast
qed

section \<open>Sizes\<close>

text \<open>Every name that the tree refers to has been read from the text.\<close>

definition tree_size :: "top_level_node \<Rightarrow> nat" where
  "tree_size t = length (top_tasks t) + sum_list (map (\<lambda>n. length (dn_dependencies n)) (top_dependencies t))"

definition got :: "'a option \<Rightarrow> nat" where
  "got i = (if i = None then 0 else 1)"

lemma cons_option_length: "length (cons_option i xs) = length xs + got i"
  by (cases i) (simp_all add: cons_option_def got_def)

text \<open>What a function reads is at least the size of its result.\<close>

definition consumes :: "('a \<Rightarrow> nat) \<Rightarrow> parser \<Rightarrow> ('a \<times> parser) faulty \<Rightarrow> bool" where
  "consumes s p r \<longleftrightarrow> (\<forall>x q. r = Inr (x, q) \<longrightarrow> valid p \<longrightarrow> valid q \<and> s x + left_to_read q \<le> left_to_read p)"

lemma consumes_bind:
  assumes "consumes a p (m p)" "\<And>x q. m p = Inr (x, q) \<Longrightarrow> consumes (\<lambda>y. s y - a x) q (f x q)"
  shows "consumes s p (pbind m f p)"
  unfolding consumes_def
proof (intro allI impI)
  fix y r assume "pbind m f p = Inr (y, r)" "valid p"
  then obtain x q where "m p = Inr (x, q)" "f x q = Inr (y, r)" by (auto simp: pbind_Inr_iff)
  moreover from calculation have "valid q" "a x + left_to_read q \<le> left_to_read p"
    using assms(1) \<open>valid p\<close> by (auto simp: consumes_def)
  ultimately show "valid r \<and> s y + left_to_read r \<le> left_to_read p"
    using assms(2) [of x q] by (fastforce simp: consumes_def)
qed

lemma consumes_less: "consumes s p r \<Longrightarrow> (\<And>x. s' x \<le> s x) \<Longrightarrow> consumes s' p r"
  by (fastforce simp: consumes_def intro: order.trans [OF add_le_mono1])

lemma consumes_return: "s x = 0 \<Longrightarrow> consumes s p (preturn x p)" "s x = 0 \<Longrightarrow> consumes s p (Inr (x, p))"
  by (simp_all add: consumes_def preturn_def)

lemma consumes_nothing: "stepping progress_of p r \<Longrightarrow> consumes (\<lambda>_. 0) p r"
  by (cases r) (auto simp: consumes_def progress_of_def)

lemma consumes_assert:
  assumes "tt p = t" "t \<noteq> Tt_eof"
  shows "consumes (\<lambda>_. 1) p (assert_token t p)"
  using assert_token_less [OF _ _ assms] stepping_progress(1) [OF prog.step_assert [OF assms(1)]] assms
  by (fastforce simp: consumes_def)

lemma consumes_identifier:
  "consumes got p (expect_identifier msg p)"
  unfolding consumes_def
proof (intro allI impI)
  fix i q assume i: "expect_identifier msg p = Inr (i, q)" "valid p"
  have "valid q" "left_to_read q \<le> left_to_read p"
    using stepping_progress [OF prog.step_identifier i(1) i(2)] by simp_all
  moreover have "left_to_read q < left_to_read p" if "i \<noteq> None"
  proof -
    have "tt p = Tt_identifier"
      using i(1) that by (auto simp: expect_identifier_def expect_token_msg_def pbind_Inr_iff split: if_splits)
    then show ?thesis
      using i expect_token_less [of Tt_identifier msg p]
      by (auto simp: expect_identifier_def pbind_Inr_iff)
  qed
  ultimately show "valid q \<and> got i + left_to_read q \<le> left_to_read p" by (auto simp: got_def)
qed

lemma identifiers_consume: "consumes length p (parse_identifiers n p)"
proof (induction n arbitrary: p)
  case 0
  show ?case by (simp add: consumes_def)
next
  case (Suc n)
  have rest: "consumes (\<lambda>y. length y - got i) q
      (pbind (parse_identifiers n) (\<lambda>is. preturn (cons_option i is)) q)" for i q
    by (rule consumes_bind [OF Suc.IH], rule consumes_return) (simp add: cons_option_length)
  have step: "consumes (\<lambda>y. length y - got i) q
      (pbind m (\<lambda>_. pbind (parse_identifiers n) (\<lambda>is. preturn (cons_option i is))) q)"
    if "stepping progress_of q (m q)" for i q and m :: "'b parsing"
    by (rule consumes_bind, rule consumes_nothing [OF that]) (use rest in simp)
  show ?case
    unfolding parse_identifiers.simps Let_def
    by (rule consumes_bind [OF consumes_identifier])
      (auto simp: cons_option_length intro!: consumes_return step prog.step_report prog.step_next)
qed

definition node_size :: "dependency_node option \<Rightarrow> nat" where
  "node_size n = (case n of None \<Rightarrow> 0 | Some m \<Rightarrow> length (dn_dependencies m))"

lemma declaration_consumes:
  "tt p = Tt_task_keyword \<Longrightarrow> consumes (\<lambda>_. 1) p (parse_task p)"
  "tt p = Tt_identifier \<Longrightarrow> consumes node_size p (parse_dependencies_declaration p)"
  "tt p = Tt_run_level_keyword \<Longrightarrow> consumes (\<lambda>_. 0) p (parse_run_level p)"
proof -
  show "consumes (\<lambda>_. 1) p (parse_task p)" if "tt p = Tt_task_keyword"
    unfolding parse_task_def
    by (rule consumes_bind, rule consumes_assert [OF that], simp,
        (rule consumes_bind, rule consumes_nothing,
          (rule prog.step_identifier | rule prog.step_value(1) | (rule prog.step_expect, simp)))+,
        rule consumes_return) simp
  show "consumes node_size p (parse_dependencies_declaration p)" if "tt p = Tt_identifier"
    unfolding parse_dependencies_declaration_def
    by (rule consumes_bind, rule consumes_nothing, rule prog.step_assert [OF that], simp,
        rule consumes_bind, rule consumes_nothing, rule prog.step_expect, simp,
        rule consumes_bind, rule identifiers_consume,
        rule consumes_bind, rule consumes_nothing, rule prog.step_expect, simp, rule consumes_return)
      (simp add: node_size_def split: option.split)
  show "consumes (\<lambda>_. 0) p (parse_run_level p)" if "tt p = Tt_run_level_keyword"
    by (rule consumes_nothing [OF prog.step_declaration(3) [OF that]])
qed

lemma tree_size_add:
  "tree_size (t\<lparr>top_tasks := top_tasks t @ cons_option x []\<rparr>) \<le> Suc (tree_size t)"
  "tree_size (t\<lparr>top_dependencies := top_dependencies t @ cons_option n []\<rparr>) = tree_size t + node_size n"
  "tree_size (t\<lparr>top_run_levels := rs\<rparr>) = tree_size t"
  by (auto simp: tree_size_def cons_option_def node_size_def split: option.split)

lemma declarations_consume: "consumes (\<lambda>t. tree_size t - tree_size tree) p (parse_declarations n tree p)"
proof (induction n arbitrary: tree p)
  case 0
  show ?case by (simp add: consumes_def)
next
  case (Suc n)
  have more: "consumes (\<lambda>t. tree_size t - tree_size tree - a) q (parse_declarations n tree' q)"
    if "tree_size tree' \<le> tree_size tree + a" for a tree' q
    by (rule consumes_less [OF Suc.IH]) (use that in simp)
  show ?case
    unfolding parse_declarations.simps Let_def
    by (auto intro!: consumes_return consumes_bind [OF declaration_consumes(1)] consumes_bind [OF declaration_consumes(2)]
        consumes_bind [OF declaration_consumes(3)] consumes_bind [OF consumes_nothing [OF prog.step_report]]
        consumes_bind [OF consumes_nothing [OF prog.step_next]] more Suc.IH simp: tree_size_add dest: tt_report)
qed

lemma parse_text_size:
  assumes "parse_text u = Inr (t, es)"
  shows "tree_size t \<le> length u"
proof -
  obtain lx lx' where lx: "new_lexer u [] = Inr lx" and f: "parse_file lx = Inr (t, lx')"
    using assms by (auto simp: parse_text_def bind_faulty_Inr_iff)
  let ?p = "\<lparr>ps_lexer = lx, ps_last_error = None\<rparr>"
  obtain q where q: "parse_declarations (enough_fuel ?p) empty_top ?p = Inr (t, q)"
    using f by (auto simp: parse_file_def Let_def bind_faulty_Inr_iff)
  have "valid ?p" using new_lexer_valid(1) [OF lx] by (simp add: valid_def)
  then have "tree_size t - tree_size empty_top \<le> left_to_read ?p"
    using declarations_consume [of empty_top ?p "enough_fuel ?p"] q by (auto simp: consumes_def)
  moreover have "left_to_read ?p \<le> length u"
    using advance_token_step(3) [OF lx [unfolded new_lexer_def]] by (simp add: left_to_read_def split: option.splits)
  ultimately show ?thesis by (simp add: tree_size_def empty_top_def)
qed

lemma declared_by_sizes:
  "(\<Sum>i<N. length (concat (map (declared_by tds i) ns))) \<le> sum_list (map (\<lambda>n. length (dn_dependencies n)) ns)"
proof (induction ns)
  case (Cons n ns)
  have "length (List.map_filter (lookup tds) is) \<le> length is" for "is"
    by (simp add: List.map_filter_def)
  then have "length (declared_by tds i n) \<le> (if lookup tds (dn_dependant n) = Some i then length (dn_dependencies n) else 0)" for i
    by (simp add: declared_by_def)
  then have "(\<Sum>i<N. length (declared_by tds i n)) \<le>
      (\<Sum>i<N. if lookup tds (dn_dependant n) = Some i then length (dn_dependencies n) else 0)"
    by (intro sum_mono)
  also have "\<dots> \<le> length (dn_dependencies n)"
    by (cases "lookup tds (dn_dependant n)") (simp_all add: sum.delta)
  finally show ?case using Cons.IH by (simp add: sum.distrib)
qed simp

lemma read_as_sizes:
  assumes "read_as t ds tds"
  shows "length (all_tasks tds) = length (top_tasks t)"
    "sum_list (map (\<lambda>d. length (td_dependencies d)) (all_tasks tds)) \<le> sum_list (map (\<lambda>n. length (dn_dependencies n)) (top_dependencies t))"
proof -
  let ?base = "base_of t ds"
  obtain mid where len: "length ds = length (tasks_by_name (top_tasks t))"
    and mid: "with_declarations (top_dependencies t) ?base mid" and all: "all_tasks tds = all_tasks mid"
    using assms by (auto simp: read_as_def)
  note base = base_of_facts(4,6) [OF len]
  show "length (all_tasks tds) = length (top_tasks t)"
    using mid all base(1) len mm.length_entries_from_list [of "map (\<lambda>n. (id_text (tn_name n), n)) (top_tasks t)"]
    by (simp add: with_declarations_def tasks_by_name_eq)
  have "sum_list (map (\<lambda>d. length (td_dependencies d)) (all_tasks tds)) =
      (\<Sum>i<length ds. length (concat (map (declared_by ?base i) (top_dependencies t))))"
    unfolding sum_list_sum_nth using mid all base by (simp add: with_declarations_def atLeast0LessThan)
  then show "sum_list (map (\<lambda>d. length (td_dependencies d)) (all_tasks tds)) \<le> sum_list (map (\<lambda>n. length (dn_dependencies n)) (top_dependencies t))"
    using declared_by_sizes [where N = "length ds"] by simp
qed

lemma read_descriptions_sizes:
  assumes "read_descriptions u = Inr (tds, es)"
  shows "length (all_tasks tds) + sum_list (map (\<lambda>d. length (td_dependencies d)) (all_tasks tds)) \<le> length u"
proof -
  obtain t es0 ds where "parse_text u = Inr (t, es0)" "read_as t ds tds"
    using read_descriptions_result [OF assms] by auto
  then show ?thesis
    using parse_text_size [of u t es0] read_as_sizes [of t ds tds] by (simp add: tree_size_def)
qed

lemma wf_read_descriptions: "read_descriptions u = Inr (tds, es) \<Longrightarrow> wf_descriptions tds"
  using read_descriptions_result wf_read_as by blast


section \<open>A comment left open\<close>

lemma skip_open_comment:
  "\<not> sublist ''*/'' s \<Longrightarrow> skip_multi_line_comment L s = ([], [error_tag_of (make_empty L) ''unterminated comment''])"
proof (induction s)
  case (Cons c s)
  have "\<not> is_multi_line_comment_end (c # s)"
  proof
    assume "is_multi_line_comment_end (c # s)"
    then have "prefix ''*/'' (c # s)"
      unfolding is_multi_line_comment_end_def by (metis take_is_prefix)
    then show False using Cons.prems prefix_imp_sublist by blast
  qed
  moreover have "\<not> sublist ''*/'' s" using Cons.prems by (simp add: sublist_Cons_right)
  ultimately show ?case using Cons.IH by simp
qed simp

lemma open_comment_lexed:
  assumes "\<not> sublist ''*/'' s"
  shows "read_next_token L (''/*'' @ s) es = Inr (None, [], es @ [error_tag_of (make_empty L) ''unterminated comment''])"
  using skip_open_comment [OF assms]
  by (subst read_next_token.simps)
    (simp add: Let_def is_ascii_whitespace_def less_eq_char_def is_single_line_comment_start_def
      is_multi_line_comment_start_def read_next_token.simps [of L "[]"])

lemma open_comment_parsed:
  assumes "\<not> sublist ''*/'' s"
  shows "parse_text (''/*'' @ s) =
    Inr (empty_top, [error_tag_of (make_empty (length (''/*'' @ s))) ''unterminated comment''])"
  using open_comment_lexed [OF assms, of "length (''/*'' @ s)" "[]"]
  by (simp add: parse_text_def new_lexer_def advance_token_def parse_file_def Let_def enough_fuel_def tt_def preturn_def)

lemma read_tree_empty: "read_tree empty_top es = Inr (empty_descriptions, es)"
  by (simp add: read_tree_def empty_top_def read_tasks_def rbind_def tasks_by_name_def report_duplicate_errors_def
      report_duplicates_def rreturn_def read_run_levels_def)

text \<open>Comments that the end of the text cuts off.\<close>

lemma comment_on_last_line_aborts:
  assumes "list_all is_ascii_whitespace v" "CHR 0x0A \<notin> set s"
  shows "read_descriptions (v @ ''//'' @ s) = Inl (Assertion_failed ''(end - pos) >= n'')"
proof -
  have "skip_whitespace (v @ ''//'' @ s) = ''//'' @ s"
    using skip_whitespace_blank [OF assms(1)] by (simp add: is_ascii_whitespace_def less_eq_char_def)
  then have "read_next_token L (v @ ''//'' @ s) es = Inl (Assertion_failed ''(end - pos) >= n'')" for L es
    using line_comment_at_end [OF assms(2)]
    by (subst read_next_token.simps)
      (simp add: Let_def is_ascii_whitespace_def less_eq_char_def is_single_line_comment_start_def)
  then show ?thesis by (simp add: read_descriptions_def parse_text_def new_lexer_def advance_token_def)
qed

lemma open_comment_not_printed:
  assumes "\<not> sublist ''*/'' s" "Suc (length (''/*'' @ s)) < 2 ^ 32" "s \<noteq> []" "last s = CHR 0x0A"
  shows "\<exists>es. read_descriptions (''/*'' @ s) = Inr (empty_descriptions, es) \<and>
    error_report f (''/*'' @ s) es = Inl (Undefined_behaviour ''string of an inverted range'')"
proof -
  let ?u = "''/*'' @ s" and ?e = "error_tag_of (make_empty (length (''/*'' @ s))) ''unterminated comment''"
  have "read_descriptions ?u = Inr (empty_descriptions, [?e])"
    unfolding read_descriptions_def open_comment_parsed [OF assms(1)] by (simp add: read_tree_empty)
  moreover have "past_last_line ?u (length ?u)" using assms(3,4) by (simp add: past_last_line_def ends_line_def)
  then have "print_error f (new_line_map ?u) ?e = Inl (Undefined_behaviour ''string of an inverted range'')"
    using print_point [OF assms(2), of ?e "length ?u" f] by (simp add: make_empty_def)
  then have "error_report f ?u [?e] = Inl (Undefined_behaviour ''string of an inverted range'')"
    by (simp add: error_report_def)
  ultimately show ?thesis by blast
qed

end
