(* ===== verification/Config_Roundtrip.thy ===== *)
theory Config_Roundtrip
  imports Parser_Roundtrip Read_Text_Facts
begin

text \<open>
  The reader and the parser together: what a tree stands for does not depend on its positions,
  so the text of a meaningful tree, in every layout, is read as what the tree stands for.
\<close>

section \<open>Positions do not matter\<close>

lemma strip_identifier_text [simp]: "id_text (strip_identifier i) = id_text i"
  by (simp add: strip_identifier_def)

lemma prop_key_strip [simp]: "prop_key (strip_property p) = strip_identifier (prop_key p)"
  by (cases p) simp

lemma prop_value_strip [simp]: "prop_value (strip_property p) = map_option strip_value (prop_value p)"
  by (cases p) simp

lemma field_strip: "field (map strip_property ps) name = map_option strip_value (field ps name)"
  by (induction ps) (simp_all add: field_def)

lemma struct_with_strip:
  "struct_with name (strip_value v) qs \<longleftrightarrow> (\<exists>ps. struct_with name v ps \<and> qs = map strip_property ps)"
  by (cases v) (auto simp: struct_with_def comp_def)

lemma required_strip:
  "(\<And>v. D (strip_value v) d \<longleftrightarrow> D v d) \<Longrightarrow> required (map strip_property ps) name D d \<longleftrightarrow> required ps name D d"
  by (auto simp: required_def field_strip)

lemma defaulting_strip:
  "(\<And>v. D (strip_value v) d \<longleftrightarrow> D v d) \<Longrightarrow> defaulting (map strip_property ps) name D e d \<longleftrightarrow> defaulting ps name D e d"
  by (auto simp: defaulting_def field_strip split: option.split)

lemma denotes_literal_strip:
  "denotes_string (strip_value v) s \<longleftrightarrow> denotes_string v s"
  "denotes_bool (strip_value v) b \<longleftrightarrow> denotes_bool v b"
  "denotes_cmd_line (strip_value v) c \<longleftrightarrow> denotes_cmd_line v c"
  by (cases v; simp add: denotes_string_def denotes_bool_def denotes_cmd_line_def)+

lemma denotes_command_strip: "denotes_command (strip_value v) d \<longleftrightarrow> denotes_command v d"
  by (auto simp: denotes_command_def struct_with_strip required_strip defaulting_strip denotes_literal_strip)

lemma denotes_task_strip: "denotes_task (strip_value v) d \<longleftrightarrow> denotes_task v d"
  by (cases d) (auto simp: denotes_hostname_def denotes_start_stop_def denotes_control_def denotes_null_def
      struct_with_strip required_strip defaulting_strip denotes_literal_strip denotes_command_strip)

lemma task_of_strip: "task_of (strip_task n) = task_of n"
  by (auto simp: fun_eq_iff task_of_def strip_task_def denotes_task_strip)

lemma strip_fields [simp]:
  "tn_name (strip_task n) = strip_identifier (tn_name n)"
  "dn_dependant (strip_dependency m) = strip_identifier (dn_dependant m)"
  "dn_dependencies (strip_dependency m) = map strip_identifier (dn_dependencies m)"
  "rn_name (strip_run_level r) = map_option strip_identifier (rn_name r)"
  "rn_dependencies (strip_run_level r) = map strip_identifier (rn_dependencies r)"
  "top_tasks (strip_tree t) = map strip_task (top_tasks t)"
  "top_dependencies (strip_tree t) = map strip_dependency (top_dependencies t)"
  "top_run_levels (strip_tree t) = map strip_run_level (top_run_levels t)"
  by (simp_all add: strip_task_def strip_dependency_def strip_run_level_def strip_tree_def)

lemma tree_names_strip [simp]: "tree_names (strip_tree t) = tree_names t"
  by (simp add: tree_names_def comp_def)

lemma named_strip:
  assumes "\<forall>n \<in> set (top_run_levels t). rn_name n \<noteq> None"
  shows "map (\<lambda>n. (id_text (the (rn_name n)), f (rn_dependencies n))) (top_run_levels (strip_tree t)) =
    map (\<lambda>n. (id_text (the (rn_name n)), f (map strip_identifier (rn_dependencies n)))) (top_run_levels t)"
  using assms by (auto simp: option.map_sel)

lemma level_names_strip:
  assumes "\<forall>n \<in> set (top_run_levels t). rn_name n \<noteq> None"
  shows "level_names (strip_tree t) = level_names t"
  using arg_cong [OF named_strip [OF assms, of "\<lambda>_. ()"], of "map fst"] by (simp add: level_names_def comp_def)

lemma names_declared_strip:
  "names_declared (strip_tree t) (map strip_identifier is) \<longleftrightarrow> names_declared t is"
  "names_declared (strip_tree t) (strip_identifier i # map strip_identifier is) \<longleftrightarrow> names_declared t (i # is)"
  by (auto simp: names_declared_def image_image)

lemma meaningful_strip:
  assumes "\<forall>n \<in> set (top_run_levels t). rn_name n \<noteq> None"
  shows "meaningful (strip_tree t) \<longleftrightarrow> meaningful t"
  using level_names_strip [OF assms]
  by (simp add: meaningful_def task_of_strip names_declared_strip)

lemma denotes_tree_strip:
  assumes "\<forall>n \<in> set (top_run_levels t). rn_name n \<noteq> None"
  shows "denotes_tree (strip_tree t) tds \<longleftrightarrow> denotes_tree t tds"
proof -
  have "declared_dependencies (strip_tree t) name = declared_dependencies t name" for name
    by (simp add: declared_dependencies_def comp_def cong: if_cong)
  moreover have "declared_level (strip_tree t) = declared_level t"
    unfolding declared_level_def named_strip [OF assms, of "map id_text"] by (simp add: comp_def)
  ultimately show ?thesis by (simp add: denotes_tree_def task_of_strip)
qed

section \<open>Every meaningful tree can be written\<close>

lemma read_descriptions_layout:
  assumes "layout_ok l end_gap" "map snd l = tree_symbols t" "complete_tree t" "no_empty_lists t" "meaningful t"
  shows "\<exists>tds. read_descriptions (print_layout l end_gap) = Inr (tds, []) \<and> denotes_tree t tds"
proof -
  obtain x where x: "parse_text (print_layout l end_gap) = Inr (x, [])" "strip_tree x = strip_tree t"
    using parse_text_layout [OF assms(1-4)] by blast
  have named: "\<forall>n \<in> set (top_run_levels t). rn_name n \<noteq> None" "\<forall>n \<in> set (top_run_levels x). rn_name n \<noteq> None"
    using complete_tree_tasks(2) [OF assms(3)] complete_tree_tasks(2) [OF parse_text_complete [OF x(1)]] by simp_all
  have "meaningful x" using meaningful_strip [OF named(1)] meaningful_strip [OF named(2)] x(2) assms(5) by simp
  then obtain tds where tds: "read_descriptions (print_layout l end_gap) = Inr (tds, [])"
    using read_descriptions_clean(1) x(1) by blast
  then have "denotes_tree x tds" using read_descriptions_clean(2) [OF tds] x(1) by auto
  then show ?thesis using tds denotes_tree_strip [OF named(1)] denotes_tree_strip [OF named(2)] x(2) by auto
qed

end
