(* ===== verification/Configured_Init.thy ===== *)
theory Configured_Init
  imports Example_System Config_Roundtrip
begin

text \<open>
  The reader and the scheduler together: what is read from a text that fits into memory is
  what the scheduler asks for, so that everything shown of the scheduler holds for every
  configuration file, with the tasks named as in the file.
\<close>

lemma length_all_edges:
  "length (all_edges tds) = sum_list (map (\<lambda>d. length (td_dependencies d)) (all_tasks tds))"
proof -
  have "map length (map (edges_of tds) [0..<length (all_tasks tds)]) =
      map (\<lambda>d. length (td_dependencies d)) (all_tasks tds)"
    by (intro nth_equalityI) (simp_all add: edges_of_def)
  then show ?thesis by (simp add: all_edges_def length_concat)
qed

lemma read_descriptions_ok:
  assumes "read_descriptions u = Inr (tds, es)" "length u < 2 ^ 64"
  shows "descriptions_ok tds"
  using wf_read_descriptions [OF assms(1)] read_descriptions_sizes [OF assms(1)] assms(2)
  by (simp add: descriptions_ok_def sizes_fit_def length_all_edges)

text \<open>The order that the file asks for, by name.\<close>

lemma configured_dependencies:
  assumes "denotes_tree t tds" "i < length (all_tasks tds)" "j < length (all_tasks tds)"
    and "td_name (all_tasks tds ! j) \<in> set (declared_dependencies t (td_name (all_tasks tds ! i)))"
    and "distinct (task_names tds)" "wf_descriptions tds"
  shows "j \<in> set (td_dependencies (all_tasks tds ! i))"
proof -
  let ?d = "all_tasks tds ! i"
  have "td_name (all_tasks tds ! j) \<in> (!) (task_names tds) ` set (td_dependencies ?d)"
    using assms(1,2,4) by (auto simp: denotes_tree_def simp flip: set_map)
  then obtain k where k: "k \<in> set (td_dependencies ?d)" "task_names tds ! k = task_names tds ! j"
    using assms(3) by (auto simp: task_names_def)
  have "k < length (all_tasks tds)"
    using assms(2,6) k(1) by (auto simp: wf_descriptions_def)
  then have "k = j" using assms(3,5) k(2) nth_eq_iff_index_eq [of "task_names tds" k j] by (simp add: task_names_def)
  then show ?thesis using k(1) by simp
qed

lemma configured_order:
  assumes "read_descriptions u = Inr (tds, [])" "length u < 2 ^ 64" "runs os nature tds rs c"
  shows "\<exists>t. parse_text u = Inr (t, []) \<and> denotes_tree t tds \<and>
    (\<forall>i < length (all_tasks tds). \<forall>j < length (all_tasks tds).
       is_running i (ctx_state c) \<or> is_in_transition i (ctx_state c) \<longrightarrow>
       td_name (all_tasks tds ! j) \<in> set (declared_dependencies t (td_name (all_tasks tds ! i))) \<longrightarrow>
       is_running j (ctx_state c) \<and> \<not> is_in_transition j (ctx_state c))"
proof -
  obtain t where t: "parse_text u = Inr (t, [])" "denotes_tree t tds"
    using read_descriptions_clean(2) [OF assms(1)] by blast
  have "meaningful t" using read_descriptions_clean(1) [of u] assms(1) t(1) by auto
  then have "distinct (tree_names t)" by (simp add: meaningful_def)
  moreover have "mset (task_names tds) = mset (tree_names t)" using t(2) by (simp add: denotes_tree_def)
  ultimately have dist: "distinct (task_names tds)" by (metis mset_eq_imp_distinct_iff)
  have ok: "descriptions_ok tds" by (rule read_descriptions_ok [OF assms(1,2)])
  then have wf: "wf_descriptions tds" by (simp add: descriptions_ok_def)
  have up: "is_running j (ctx_state c) \<and> \<not> is_in_transition j (ctx_state c)"
    if "i < length (all_tasks tds)" "j < length (all_tasks tds)"
      "is_running i (ctx_state c) \<or> is_in_transition i (ctx_state c)"
      "td_name (all_tasks tds ! j) \<in> set (declared_dependencies t (td_name (all_tasks tds ! i)))" for i j
    using runs_dependencies_up [OF assms(3) ok that(1,3)]
      configured_dependencies [OF t(2) that(1,2,4) dist wf] by (simp add: task_views)
  show ?thesis
    by (rule exI [of _ t], intro conjI t allI impI) ((rule up [THEN conjunct1] up [THEN conjunct2], assumption+)+)
qed

section \<open>A configuration file\<close>

definition example_text :: string where
  "example_text = ''task db = start_stop { start = command { cmd = \"/bin/db start\" }, stop = command { cmd = \"/bin/db stop\" } };'' @
     newline @ ''task web = null {};'' @ newline @ ''web depends db;'' @ newline @ ''run_level default : web;'' @ newline"

lemma example_text_length: "length example_text < 2 ^ 64"
  by (simp add: example_text_def newline_def)

definition text_descriptions :: task_descriptions where
  "text_descriptions = fst (the (case read_descriptions example_text of Inr q \<Rightarrow> Some q | Inl _ \<Rightarrow> None))"

lemma example_text_read: "read_descriptions example_text = Inr (text_descriptions, [])"
proof -
  have "case read_descriptions example_text of Inr (tds, es) \<Rightarrow> es = [] | Inl f \<Rightarrow> False" by code_simp
  then show ?thesis by (auto simp: text_descriptions_def split: sum.splits)
qed

lemma text_descriptions_eq:
  "text_descriptions =
     create_run_level ''default'' [1]
       (push_dependency 1 0
         (snd (create_task_description ''web'' Null_task
           (snd (create_task_description ''db'' (service ''/bin/db'') empty_descriptions)))))"
  unfolding text_descriptions_def by code_simp

text \<open>The file's tasks are started.\<close>

definition text_up :: "nat list initd_context" where
  "text_up = the (play simple_os [Child_exit, Wake_up 1] (fst (context_construct simple_os text_descriptions [])))"

lemma text_up_runs: "\<exists>rs. runs simple_os nature text_descriptions rs text_up"
proof -
  let ?c = "fst (context_construct simple_os text_descriptions [])"
  have "snd (context_construct simple_os text_descriptions []) = Done"
    unfolding text_descriptions_eq by code_simp
  then have "runs simple_os nature text_descriptions [] ?c"
    by (intro runs.constructed) (simp add: prod_eq_iff)
  moreover have "play simple_os [Child_exit, Wake_up 1] ?c = Some text_up"
  proof -
    have "play simple_os [Child_exit, Wake_up 1] ?c \<noteq> None" unfolding text_descriptions_eq by code_simp
    then show ?thesis by (simp add: text_up_def)
  qed
  ultimately show ?thesis using play_runs [of simple_os _ ?c text_up nature text_descriptions "[]"]
    by (fastforce simp: all_done_def simp del: play.simps)
qed

lemma text_up_state:
  "length (all_tasks text_descriptions) = 2" "td_name (all_tasks text_descriptions ! 0) = ''db''"
  "td_name (all_tasks text_descriptions ! 1) = ''web''"
  "is_running 1 (ctx_state text_up)" "is_running 0 (ctx_state text_up)"
  unfolding text_up_def text_descriptions_eq by code_simp+

end
