(* ===== verification/Sysapi_Descriptors.thy ===== *)
theory Sysapi_Descriptors
  imports Sysapi_Errors
begin

text \<open>
  The owning wrapper of file descriptors, \<^verbatim>\<open>libsysapi/file_descriptor.cpp\<close>. The objects of
  the program are at addresses of partial maps: a constructor makes an address defined, a
  destructor undefined. The kernel's part of the state is the set of open descriptors and the
  interest list of the epoll instance. The answer of each system call is an argument.
\<close>

section \<open>Objects and the kernel\<close>

type_synonym addr = nat

record registration =
  rg_ep :: bool
  rg_fd :: int
  rg_events :: uint32
  rg_callback :: "nat option"

text \<open>
  \<open>rg_ep\<close> says whether the pointer to the epoll instance is set. A callback is the number of
  its closure, none for an empty \<^verbatim>\<open>std::function\<close>. \<open>res_cerr\<close> is what was written to
  \<^verbatim>\<open>std::cerr\<close>, line by line.
\<close>

record resources =
  res_open :: "int set"
  res_interest :: "int \<rightharpoonup> uint32 \<times> addr"
  res_fds :: "addr \<rightharpoonup> int"
  res_regs :: "addr \<rightharpoonup> registration"
  res_cerr :: "string list"

definition log_error :: "string \<Rightarrow> resources \<Rightarrow> resources" where
  "log_error msg s = s\<lparr>res_cerr := res_cerr s @ [msg]\<rparr>"

lemma log_error_simps:
  "res_open (log_error msg s) = res_open s" "res_interest (log_error msg s) = res_interest s"
  "res_fds (log_error msg s) = res_fds s" "res_regs (log_error msg s) = res_regs s"
  by (simp_all add: log_error_def)

text \<open>
  \<^verbatim>\<open>close\<close>: a number that is not open is refused; otherwise the descriptor is closed, even if
  an error is reported, and leaves the interest list.
\<close>

definition sys_close :: "errno option \<Rightarrow> int \<Rightarrow> resources \<Rightarrow> errno option \<times> resources" where
  "sys_close ans fd s =
     (if fd \<notin> res_open s then (Some EBADF, s)
      else (ans, s\<lparr>res_open := res_open s - {fd}, res_interest := (res_interest s)(fd := None)\<rparr>))"

section \<open>Constructors, moves, the destructor\<close>

definition fd_construct :: "addr \<Rightarrow> int \<Rightarrow> resources \<Rightarrow> resources" where
  "fd_construct a fd s = s\<lparr>res_fds := (res_fds s)(a \<mapsto> fd)\<rparr>"

definition fd_default :: "addr \<Rightarrow> resources \<Rightarrow> resources" where
  "fd_default a s = fd_construct a (-1) s"

definition fd_destroy ::
    "(errno \<Rightarrow> string) \<Rightarrow> errno option \<Rightarrow> addr \<Rightarrow> resources \<Rightarrow> resources \<times> outcome" where
  "fd_destroy strerror ans a s =
     (case res_fds s a of
        None \<Rightarrow> (s, Aborted ''destructor without an object'')
      | Some fd \<Rightarrow>
          (let dead = (\<lambda>s. s\<lparr>res_fds := (res_fds s)(a := None)\<rparr>) in
           if fd = -1 then (dead s, Done)
           else (case sys_close ans fd s of
               (None, s') \<Rightarrow> (dead s', Done)
             | (Some err, s') \<Rightarrow>
                 (dead (log_error (''unable to close file descriptor \"'' @ show_int fd @
                    ''\", error: '' @ errno_to_text strerror err) s'), Done))))"

text \<open>The move constructor at \<open>a\<close> from the object at \<open>b\<close>; \<open>swap\<close>; move assignment, whose
  parameter is an object of its own at \<open>tmp\<close>.\<close>

definition fd_move :: "addr \<Rightarrow> addr \<Rightarrow> resources \<Rightarrow> resources \<times> outcome" where
  "fd_move a b s =
     (case res_fds s b of
        None \<Rightarrow> (s, Aborted ''move from no object'')
      | Some fd \<Rightarrow> (s\<lparr>res_fds := (res_fds s)(a \<mapsto> fd, b \<mapsto> -1)\<rparr>, Done))"

definition fd_swap :: "addr \<Rightarrow> addr \<Rightarrow> resources \<Rightarrow> resources \<times> outcome" where
  "fd_swap a b s =
     (case (res_fds s a, res_fds s b) of
        (Some fa, Some fb) \<Rightarrow> (s\<lparr>res_fds := (res_fds s)(a \<mapsto> fb, b \<mapsto> fa)\<rparr>, Done)
      | _ \<Rightarrow> (s, Aborted ''swap of no object''))"

definition fd_assign ::
    "(errno \<Rightarrow> string) \<Rightarrow> errno option \<Rightarrow> addr \<Rightarrow> addr \<Rightarrow> addr \<Rightarrow> resources \<Rightarrow> resources \<times> outcome" where
  "fd_assign strerror ans tmp a b s =
     and_then (fd_move tmp b s) (\<lambda>s. and_then (fd_swap a tmp s) (fd_destroy strerror ans tmp))"

definition getfd :: "addr \<Rightarrow> resources \<Rightarrow> int" where
  "getfd a s = (case res_fds s a of None \<Rightarrow> -1 | Some fd \<Rightarrow> fd)"

section \<open>Opening\<close>

text \<open>A call that opens a descriptor, its error text, and the wrapper of the result.\<close>

definition fd_receive ::
    "(errno \<Rightarrow> string) \<Rightarrow> string \<Rightarrow> errno + int \<Rightarrow> addr \<Rightarrow> resources \<Rightarrow> resources \<times> outcome" where
  "fd_receive strerror what ans a s =
     (case ans of
        Inl err \<Rightarrow> (s, Threw (what @ errno_to_text strerror err))
      | Inr fd \<Rightarrow> (fd_construct a fd (s\<lparr>res_open := insert fd (res_open s)\<rparr>), Done))"

definition fd_open ::
    "(errno \<Rightarrow> string) \<Rightarrow> errno + int \<Rightarrow> string \<Rightarrow> addr \<Rightarrow> resources \<Rightarrow> resources \<times> outcome" where
  "fd_open strerror ans filename a s =
     fd_receive strerror (''unable to open file \"'' @ filename @ ''\", error: '') ans a s"

definition fd_open_if_exists ::
    "(errno \<Rightarrow> string) \<Rightarrow> errno + int \<Rightarrow> string \<Rightarrow> addr \<Rightarrow> resources \<Rightarrow> resources \<times> outcome" where
  "fd_open_if_exists strerror ans filename a s =
     (if ans = Inl ENOENT then (fd_construct a (-1) s, Done)
      else fd_receive strerror (''unable to open file \"'' @ filename @ ''\", error: '') ans a s)"

definition create_pipe ::
    "(errno \<Rightarrow> string) \<Rightarrow> errno + int \<times> int \<Rightarrow> addr \<Rightarrow> addr \<Rightarrow> resources \<Rightarrow> resources \<times> outcome" where
  "create_pipe strerror ans a b s =
     (case ans of
        Inl err \<Rightarrow> (s, Threw (''unable to create pipe, error: '' @ errno_to_text strerror err))
      | Inr (fd0, fd1) \<Rightarrow>
          (fd_construct b fd1 (fd_construct a fd0
             (s\<lparr>res_open := insert fd0 (insert fd1 (res_open s))\<rparr>)), Done))"

section \<open>Reading and writing\<close>

definition read_some :: "(errno \<Rightarrow> string) \<Rightarrow> errno + 'a list \<Rightarrow> int \<Rightarrow> string + 'a list" where
  "read_some strerror ans fd =
     (case ans of
        Inl err \<Rightarrow> Inl (''unable to read file descriptor \"'' @ show_int fd @ ''\", error: '' @
                         errno_to_text strerror err)
      | Inr bs \<Rightarrow> Inr bs)"

definition read_exactly ::
    "(errno \<Rightarrow> string) \<Rightarrow> errno + 'a list \<Rightarrow> int \<Rightarrow> nat \<Rightarrow> string + 'a list" where
  "read_exactly strerror ans fd count =
     (case read_some strerror ans fd of
        Inl msg \<Rightarrow> Inl msg
      | Inr bs \<Rightarrow>
          (if length bs \<noteq> count
           then Inl (''unexpected end of file, requested \"'' @ show_nat count @ ''\" bytes, read: \"'' @
                     show_nat (length bs) @ ''\" bytes'')
           else Inr bs))"

definition write_some :: "(errno \<Rightarrow> string) \<Rightarrow> errno + nat \<Rightarrow> int \<Rightarrow> string + nat" where
  "write_some strerror ans fd =
     (case ans of
        Inl err \<Rightarrow> Inl (''unable to write file descriptor \"'' @ show_int fd @ ''\", error: '' @
                         errno_to_text strerror err)
      | Inr n \<Rightarrow> Inr n)"

definition write_exactly :: "(errno \<Rightarrow> string) \<Rightarrow> errno + nat \<Rightarrow> int \<Rightarrow> nat \<Rightarrow> string + unit" where
  "write_exactly strerror ans fd count =
     (case write_some strerror ans fd of
        Inl msg \<Rightarrow> Inl msg
      | Inr n \<Rightarrow>
          (if n \<noteq> count
           then Inl (''incomplete write, requested \"'' @ show_nat count @ ''\" bytes, written: \"'' @
                     show_nat n @ ''\" bytes'')
           else Inr ()))"

text \<open>The size is all that is used of \<^verbatim>\<open>struct stat\<close>.\<close>

definition get_stat :: "(errno \<Rightarrow> string) \<Rightarrow> errno + nat \<Rightarrow> int \<Rightarrow> string + nat" where
  "get_stat strerror ans fd =
     (case ans of
        Inl err \<Rightarrow> Inl (''unable to read stats of file descriptor \"'' @ show_int fd @ ''\", error: '' @
                         errno_to_text strerror err)
      | Inr n \<Rightarrow> Inr n)"

text \<open>
  \<^verbatim>\<open>read_entire_file\<close> asks for the size and reads once. The local object at \<open>a\<close> is destroyed
  on every way out.
\<close>

record file_answers =
  fa_open :: "errno + int"
  fa_stat :: "errno + nat"
  fa_read :: "errno + string"
  fa_close :: "errno option"

definition read_sized :: "(errno \<Rightarrow> string) \<Rightarrow> file_answers \<Rightarrow> int \<Rightarrow> string + string" where
  "read_sized strerror fa fd =
     (case get_stat strerror (fa_stat fa) fd of
        Inl msg \<Rightarrow> Inl msg
      | Inr n \<Rightarrow> read_exactly strerror (fa_read fa) fd n)"

definition read_entire_file ::
    "(errno \<Rightarrow> string) \<Rightarrow> file_answers \<Rightarrow> string \<Rightarrow> addr \<Rightarrow> resources \<Rightarrow> (string + string) \<times> resources" where
  "read_entire_file strerror fa filename a s =
     (case fd_open strerror (fa_open fa) filename a s of
        (s1, Done) \<Rightarrow>
          (read_sized strerror fa (getfd a s1), fst (fd_destroy strerror (fa_close fa) a s1))
      | (s1, Threw msg) \<Rightarrow> (Inl msg, s1)
      | (s1, Aborted msg) \<Rightarrow> (Inl msg, s1))"

end
