(* ===== verification/Sysapi_Epoll.thy ===== *)
theory Sysapi_Epoll
  imports Sysapi_Descriptors
begin

text \<open>
  \<^verbatim>\<open>libsysapi/epoll.cpp\<close>: the registration of a descriptor with the epoll instance, which
  stores the address of the registration object and so has to be told when the object moves;
  and the wait for one event. The program has one instance.
\<close>

section \<open>epoll_ctl\<close>

text \<open>
  The kernel refuses descriptors that are not open, a second registration of a descriptor, and
  changes of one that is not registered; only an addition can fail for other reasons.
\<close>

definition sys_epoll_add ::
    "errno option \<Rightarrow> int \<Rightarrow> uint32 \<Rightarrow> addr \<Rightarrow> resources \<Rightarrow> errno option \<times> resources" where
  "sys_epoll_add ans fd ev a s =
     (if fd \<notin> res_open s then (Some EBADF, s)
      else if res_interest s fd \<noteq> None then (Some EEXIST, s)
      else case ans of
          Some err \<Rightarrow> (Some err, s)
        | None \<Rightarrow> (None, s\<lparr>res_interest := (res_interest s)(fd \<mapsto> (ev, a))\<rparr>))"

definition sys_epoll_mod ::
    "int \<Rightarrow> uint32 \<Rightarrow> addr \<Rightarrow> resources \<Rightarrow> errno option \<times> resources" where
  "sys_epoll_mod fd ev a s =
     (if fd \<notin> res_open s then (Some EBADF, s)
      else if res_interest s fd = None then (Some ENOENT, s)
      else (None, s\<lparr>res_interest := (res_interest s)(fd \<mapsto> (ev, a))\<rparr>))"

definition sys_epoll_del :: "int \<Rightarrow> resources \<Rightarrow> errno option \<times> resources" where
  "sys_epoll_del fd s =
     (if fd \<notin> res_open s then (Some EBADF, s)
      else if res_interest s fd = None then (Some ENOENT, s)
      else (None, s\<lparr>res_interest := (res_interest s)(fd := None)\<rparr>))"

definition throw_error ::
    "(errno \<Rightarrow> string) \<Rightarrow> string \<Rightarrow> errno option \<times> resources \<Rightarrow> resources \<times> outcome" where
  "throw_error strerror what r =
     (case r of
        (None, s) \<Rightarrow> (s, Done)
      | (Some err, s) \<Rightarrow> (s, Threw (what @ errno_to_text strerror err)))"

definition epoll_add ::
    "(errno \<Rightarrow> string) \<Rightarrow> errno option \<Rightarrow> int \<Rightarrow> uint32 \<Rightarrow> addr \<Rightarrow> resources \<Rightarrow> resources \<times> outcome" where
  "epoll_add strerror ans fd ev a s =
     throw_error strerror ''unable to add file descriptor to epoll, error: '' (sys_epoll_add ans fd ev a s)"

definition epoll_modify ::
    "(errno \<Rightarrow> string) \<Rightarrow> int \<Rightarrow> uint32 \<Rightarrow> addr \<Rightarrow> resources \<Rightarrow> resources \<times> outcome" where
  "epoll_modify strerror fd ev a s =
     throw_error strerror ''unable to modify file descriptor in epoll, error: '' (sys_epoll_mod fd ev a s)"

definition epoll_remove ::
    "(errno \<Rightarrow> string) \<Rightarrow> int \<Rightarrow> resources \<Rightarrow> resources \<times> outcome" where
  "epoll_remove strerror fd s =
     throw_error strerror ''unable to remove file descriptor from epoll, error: '' (sys_epoll_del fd s)"

text \<open>The constructor of the instance. An object that holds no descriptor closes none when it throws.\<close>

definition epoll_construct ::
    "(errno \<Rightarrow> string) \<Rightarrow> errno + int \<Rightarrow> addr \<Rightarrow> resources \<Rightarrow> resources \<times> outcome" where
  "epoll_construct strerror ans a s = fd_receive strerror ''unable to create epoll object, error: '' ans a s"

section \<open>epoll_registration\<close>

definition no_registration :: registration where
  "no_registration = \<lparr>rg_ep = False, rg_fd = -1, rg_events = 0, rg_callback = None\<rparr>"

definition put_reg :: "addr \<Rightarrow> registration \<Rightarrow> resources \<Rightarrow> resources" where
  "put_reg a r s = s\<lparr>res_regs := (res_regs s)(a \<mapsto> r)\<rparr>"

definition drop_reg :: "addr \<Rightarrow> resources \<Rightarrow> resources" where
  "drop_reg a s = s\<lparr>res_regs := (res_regs s)(a := None)\<rparr>"

definition reg_default :: "addr \<Rightarrow> resources \<Rightarrow> resources" where
  "reg_default a s = put_reg a no_registration s"

text \<open>If the addition throws, the constructor does not complete and there is no object.\<close>

definition reg_construct ::
    "(errno \<Rightarrow> string) \<Rightarrow> errno option \<Rightarrow> int \<Rightarrow> uint32 \<Rightarrow> nat option \<Rightarrow> addr \<Rightarrow> resources \<Rightarrow> resources \<times> outcome" where
  "reg_construct strerror ans fd ev cb a s =
     and_then (epoll_add strerror ans fd ev a s)
       (\<lambda>s. (put_reg a \<lparr>rg_ep = True, rg_fd = fd, rg_events = ev, rg_callback = cb\<rparr> s, Done))"

definition reg_update :: "(errno \<Rightarrow> string) \<Rightarrow> addr \<Rightarrow> resources \<Rightarrow> resources \<times> outcome" where
  "reg_update strerror a s =
     (case res_regs s a of
        None \<Rightarrow> (s, Aborted ''update of no registration'')
      | Some r \<Rightarrow> (if rg_ep r then epoll_modify strerror (rg_fd r) (rg_events r) a s else (s, Done)))"

text \<open>
  The move constructor: the members are taken over first, the kernel is told, and only then is
  the source reset. If telling the kernel throws there is no new object, and the source has
  lost its callback.
\<close>

definition reg_move :: "(errno \<Rightarrow> string) \<Rightarrow> addr \<Rightarrow> addr \<Rightarrow> resources \<Rightarrow> resources \<times> outcome" where
  "reg_move strerror a b s =
     (case res_regs s b of
        None \<Rightarrow> (s, Aborted ''move from no registration'')
      | Some r \<Rightarrow>
          (case reg_update strerror a (put_reg b (r\<lparr>rg_callback := None\<rparr>) (put_reg a r s)) of
             (s', Done) \<Rightarrow> (put_reg b no_registration s', Done)
           | (s', x) \<Rightarrow> (drop_reg a s', x)))"

definition reg_swap :: "(errno \<Rightarrow> string) \<Rightarrow> addr \<Rightarrow> addr \<Rightarrow> resources \<Rightarrow> resources \<times> outcome" where
  "reg_swap strerror a b s =
     (case (res_regs s a, res_regs s b) of
        (Some ra, Some rb) \<Rightarrow>
          and_then (reg_update strerror a (put_reg b ra (put_reg a rb s))) (reg_update strerror b)
      | _ \<Rightarrow> (s, Aborted ''swap of no registration''))"

text \<open>\<^verbatim>\<open>clear\<close> leaves the callback alone.\<close>

definition reg_clear :: "(errno \<Rightarrow> string) \<Rightarrow> addr \<Rightarrow> resources \<Rightarrow> resources \<times> outcome" where
  "reg_clear strerror a s =
     (case res_regs s a of
        None \<Rightarrow> (s, Aborted ''clear of no registration'')
      | Some r \<Rightarrow>
          (if rg_ep r then
             and_then (epoll_remove strerror (rg_fd r) s)
               (\<lambda>s. (put_reg a \<lparr>rg_ep = False, rg_fd = -1, rg_events = 0, rg_callback = rg_callback r\<rparr> s, Done))
           else (s, Done)))"

text \<open>An exception that leaves a destructor ends the program.\<close>

definition reg_destroy :: "(errno \<Rightarrow> string) \<Rightarrow> addr \<Rightarrow> resources \<Rightarrow> resources \<times> outcome" where
  "reg_destroy strerror a s =
     (case reg_clear strerror a s of
        (s', Done) \<Rightarrow> (drop_reg a s', Done)
      | (s', Threw msg) \<Rightarrow> (s', Aborted (''terminate: '' @ msg))
      | (s', Aborted msg) \<Rightarrow> (s', Aborted msg))"

text \<open>\<^verbatim>\<open>operator=\<close>, whose parameter lives at \<open>tmp\<close>, from a fresh registration of a descriptor.\<close>

definition reg_assign_new ::
    "(errno \<Rightarrow> string) \<Rightarrow> errno option \<Rightarrow> int \<Rightarrow> uint32 \<Rightarrow> nat option \<Rightarrow> addr \<Rightarrow> addr \<Rightarrow> resources \<Rightarrow>
     resources \<times> outcome" where
  "reg_assign_new strerror ans fd ev cb tmp a s =
     and_then (reg_construct strerror ans fd ev cb tmp s)
       (\<lambda>s. case reg_swap strerror a tmp s of
          (s', Done) \<Rightarrow> reg_destroy strerror tmp s'
        | (s', x) \<Rightarrow> and_then (reg_destroy strerror tmp s') (\<lambda>s'. (s', x)))"

section \<open>epoll::wait\<close>

text \<open>
  One round: interrupted waits are repeated; the event names the registration by the address
  the kernel was given. An exception of the callback is logged, an empty callback throws.
\<close>

fun epoll_wait ::
    "(errno \<Rightarrow> string) \<Rightarrow> (nat \<Rightarrow> uint32 \<Rightarrow> resources \<Rightarrow> resources \<times> outcome) \<Rightarrow>
     (errno + int \<times> uint32) list \<Rightarrow> resources \<Rightarrow> resources \<times> outcome" where
  "epoll_wait strerror run [] s = (s, Aborted ''no answer'')"
| "epoll_wait strerror run (Inl err # answers) s =
     (if err = EINTR then epoll_wait strerror run answers s
      else (s, Threw (''unable to wait for epoll, error: '' @ errno_to_text strerror err)))"
| "epoll_wait strerror run (Inr (fd, events) # answers) s =
     (case res_interest s fd of
        None \<Rightarrow> (s, Aborted ''event of a descriptor that is not registered'')
      | Some (ev, a) \<Rightarrow>
          (case res_regs s a of
             None \<Rightarrow> (s, Aborted ''callback of a destroyed registration'')
           | Some r \<Rightarrow>
               (case (case rg_callback r of None \<Rightarrow> (s, Threw ''bad_function_call'')
                      | Some cb \<Rightarrow> run cb events s) of
                  (s', Threw msg) \<Rightarrow> (log_error (''error: '' @ msg) s', Done)
                | res \<Rightarrow> res)))"

end
