(* ===== verification/Sysapi_Watchers.thy ===== *)
theory Sysapi_Watchers
  imports Sysapi_Epoll
begin

text \<open>
  The classes that own a descriptor and watch it: \<^verbatim>\<open>eventfd\<close>, \<^verbatim>\<open>signalfd\<close>, \<^verbatim>\<open>timerfd\<close>,
  \<^verbatim>\<open>stream_server_socket\<close>, \<^verbatim>\<open>connection_process\<close> and \<^verbatim>\<open>stream_socket\<close>. The descriptor member
  and the registration member of an object are at the object's address; the registration is the
  later member, so that it is destroyed first. The callback of a registration captures
  \<^verbatim>\<open>this\<close>: its number is the address of the object.
\<close>

section \<open>Construction and destruction\<close>

text \<open>
  The registration is constructed after the descriptor member; if that throws, the descriptor
  is destroyed again. \<open>cl\<close> is the answer of \<^verbatim>\<open>close\<close> then.
\<close>

definition watch ::
    "(errno \<Rightarrow> string) \<Rightarrow> errno option \<Rightarrow> errno option \<Rightarrow> uint32 \<Rightarrow> addr \<Rightarrow> resources \<Rightarrow> resources \<times> outcome" where
  "watch strerror add cl ev a s =
     (case reg_construct strerror add (getfd a s) ev (Some a) a s of
        (s', Done) \<Rightarrow> (s', Done)
      | (s', x) \<Rightarrow> and_then (fd_destroy strerror cl a s') (\<lambda>s'. (s', x)))"

definition watched_destroy ::
    "(errno \<Rightarrow> string) \<Rightarrow> errno option \<Rightarrow> addr \<Rightarrow> resources \<Rightarrow> resources \<times> outcome" where
  "watched_destroy strerror cl a s = and_then (reg_destroy strerror a s) (fd_destroy strerror cl a)"

definition epollin :: uint32 where "epollin = 1"
definition epollout :: uint32 where "epollout = 4"
definition epollhup :: uint32 where "epollhup = 16"

definition open_eventfd ::
    "(errno \<Rightarrow> string) \<Rightarrow> errno + int \<Rightarrow> addr \<Rightarrow> resources \<Rightarrow> resources \<times> outcome" where
  "open_eventfd strerror ans a s = fd_receive strerror ''unable to create eventfd, error: '' ans a s"

definition eventfd_construct ::
    "(errno \<Rightarrow> string) \<Rightarrow> errno + int \<Rightarrow> errno option \<Rightarrow> errno option \<Rightarrow> addr \<Rightarrow> resources \<Rightarrow>
     resources \<times> outcome" where
  "eventfd_construct strerror ans add cl a s =
     and_then (open_eventfd strerror ans a s) (watch strerror add cl epollin a)"

definition open_signalfd ::
    "(errno \<Rightarrow> string) \<Rightarrow> errno + int \<Rightarrow> addr \<Rightarrow> resources \<Rightarrow> resources \<times> outcome" where
  "open_signalfd strerror ans a s = fd_receive strerror ''unable to create signalfd, error: '' ans a s"

definition signalfd_construct ::
    "(errno \<Rightarrow> string) \<Rightarrow> errno + int \<Rightarrow> errno option \<Rightarrow> errno option \<Rightarrow> addr \<Rightarrow> resources \<Rightarrow>
     resources \<times> outcome" where
  "signalfd_construct strerror ans add cl a s =
     and_then (open_signalfd strerror ans a s) (watch strerror add cl epollin a)"

text \<open>
  \<^verbatim>\<open>open_timerfd\<close> keeps the new descriptor in a plain integer until the timer is set: an
  error of \<^verbatim>\<open>timerfd_settime\<close> leaves it open.
\<close>

definition open_timerfd ::
    "(errno \<Rightarrow> string) \<Rightarrow> errno + int \<Rightarrow> errno option \<Rightarrow> addr \<Rightarrow> resources \<Rightarrow> resources \<times> outcome" where
  "open_timerfd strerror ans settime a s =
     (case ans of
        Inl err \<Rightarrow> (s, Threw (''unable to create timerfd, error: '' @ errno_to_text strerror err))
      | Inr fd \<Rightarrow>
          (let s1 = s\<lparr>res_open := insert fd (res_open s)\<rparr> in
           case settime of
             Some err \<Rightarrow> (s1, Threw (''unable to setup timerfd, error: '' @ errno_to_text strerror err))
           | None \<Rightarrow> (fd_construct a fd s1, Done)))"

definition timerfd_construct ::
    "(errno \<Rightarrow> string) \<Rightarrow> errno + int \<Rightarrow> errno option \<Rightarrow> errno option \<Rightarrow> errno option \<Rightarrow> addr \<Rightarrow>
     resources \<Rightarrow> resources \<times> outcome" where
  "timerfd_construct strerror ans settime add cl a s =
     and_then (open_timerfd strerror ans settime a s) (watch strerror add cl epollin a)"

section \<open>Events of descriptors that are read\<close>

text \<open>
  The callbacks of the three classes read a value of a fixed size and hand it on; the value is
  the result. Any other event than \<^verbatim>\<open>EPOLLIN\<close> fails an assertion.
\<close>

definition fd_event ::
    "(errno \<Rightarrow> string) \<Rightarrow> nat \<Rightarrow> errno + 'a list \<Rightarrow> int \<Rightarrow> uint32 \<Rightarrow> 'a list option \<times> outcome" where
  "fd_event strerror count ans fd events =
     (if events \<noteq> epollin then (None, Aborted ''assert(events == EPOLLIN)'')
      else (case read_exactly strerror ans fd count of
          Inl msg \<Rightarrow> (None, Threw msg)
        | Inr bs \<Rightarrow> (Some bs, Done)))"

definition eventfd_event ::
    "(errno \<Rightarrow> string) \<Rightarrow> errno + 'a list \<Rightarrow> int \<Rightarrow> uint32 \<Rightarrow> 'a list option \<times> outcome" where
  "eventfd_event strerror ans fd events = fd_event strerror 8 ans fd events"

definition signalfd_event ::
    "(errno \<Rightarrow> string) \<Rightarrow> errno + 'a list \<Rightarrow> int \<Rightarrow> uint32 \<Rightarrow> 'a list option \<times> outcome" where
  "signalfd_event strerror ans fd events = fd_event strerror 128 ans fd events"

definition timerfd_event ::
    "(errno \<Rightarrow> string) \<Rightarrow> errno + 'a list \<Rightarrow> int \<Rightarrow> uint32 \<Rightarrow> 'a list option \<times> outcome" where
  "timerfd_event strerror ans fd events = fd_event strerror 8 ans fd events"

section \<open>Sockets\<close>

definition create_socket ::
    "(errno \<Rightarrow> string) \<Rightarrow> errno + int \<Rightarrow> addr \<Rightarrow> resources \<Rightarrow> resources \<times> outcome" where
  "create_socket strerror ans a s = fd_receive strerror ''unable to create socket, error: '' ans a s"

definition bind_socket :: "(errno \<Rightarrow> string) \<Rightarrow> errno option \<Rightarrow> resources \<Rightarrow> resources \<times> outcome" where
  "bind_socket strerror ans s = throw_error strerror ''unable to bind socket, error: '' (ans, s)"

definition listen_socket :: "(errno \<Rightarrow> string) \<Rightarrow> errno option \<Rightarrow> resources \<Rightarrow> resources \<times> outcome" where
  "listen_socket strerror ans s = throw_error strerror ''unable to listen socket, error: '' (ans, s)"

text \<open>The two error numbers that are looked for here and have no name in \<^verbatim>\<open>errors.cpp\<close>.\<close>

abbreviation ECONNABORTED :: errno where "ECONNABORTED \<equiv> Errno 103"
abbreviation EINPROGRESS :: errno where "EINPROGRESS \<equiv> Errno 115"

text \<open>An aborted connection is no error: the object is empty.\<close>

definition accept_socket ::
    "(errno \<Rightarrow> string) \<Rightarrow> errno + int \<Rightarrow> addr \<Rightarrow> resources \<Rightarrow> resources \<times> outcome" where
  "accept_socket strerror ans a s =
     (if ans = Inl ECONNABORTED then (fd_default a s, Done)
      else fd_receive strerror ''unable to create socket, error: '' ans a s)"

text \<open>A connection under way is no error; \<open>address\<close> is the address as it is printed.\<close>

definition connect_socket ::
    "(errno \<Rightarrow> string) \<Rightarrow> errno option \<Rightarrow> string \<Rightarrow> resources \<Rightarrow> resources \<times> outcome" where
  "connect_socket strerror ans address s =
     (if ans = Some EINPROGRESS then (s, Done)
      else throw_error strerror (''unable to connect to \"'' @ address @ ''\", error: '') (ans, s))"

definition socket_avail_for_read :: "(errno \<Rightarrow> string) \<Rightarrow> errno + int \<Rightarrow> string + nat faulty" where
  "socket_avail_for_read strerror ans =
     (case ans of
        Inl err \<Rightarrow> Inl (''unable to get available bytes, error: '' @ errno_to_text strerror err)
      | Inr avail \<Rightarrow>
          Inr (if avail < 0 then Inl (Assertion_failed ''assert(avail >= 0)'') else Inr (nat avail)))"

text \<open>
  \<^verbatim>\<open>prepare_socket\<close>: a local object at \<open>tmp\<close>, which is destroyed when a later call throws, and
  moved into the member at \<open>a\<close> otherwise.
\<close>

definition with_local ::
    "(errno \<Rightarrow> string) \<Rightarrow> errno option \<Rightarrow> addr \<Rightarrow> addr \<Rightarrow> (resources \<Rightarrow> resources \<times> outcome) \<Rightarrow>
     resources \<Rightarrow> resources \<times> outcome" where
  "with_local strerror cl tmp a body s =
     (case body s of
        (s', Done) \<Rightarrow> and_then (fd_move a tmp s') (fd_destroy strerror cl tmp)
      | (s', x) \<Rightarrow> and_then (fd_destroy strerror cl tmp s') (\<lambda>s'. (s', x)))"

definition prepare_server_socket ::
    "(errno \<Rightarrow> string) \<Rightarrow> errno + int \<Rightarrow> errno option \<Rightarrow> errno option \<Rightarrow> errno option \<Rightarrow> addr \<Rightarrow> addr \<Rightarrow>
     resources \<Rightarrow> resources \<times> outcome" where
  "prepare_server_socket strerror ans bound listening cl tmp a s =
     and_then (create_socket strerror ans tmp s)
       (with_local strerror cl tmp a
          (\<lambda>s. and_then (bind_socket strerror bound s) (listen_socket strerror listening)))"

definition stream_server_socket_construct ::
    "(errno \<Rightarrow> string) \<Rightarrow> errno + int \<Rightarrow> errno option \<Rightarrow> errno option \<Rightarrow> errno option \<Rightarrow> errno option \<Rightarrow>
     addr \<Rightarrow> addr \<Rightarrow> resources \<Rightarrow> resources \<times> outcome" where
  "stream_server_socket_construct strerror ans bound listening add cl tmp a s =
     and_then (prepare_server_socket strerror ans bound listening cl tmp a s)
       (watch strerror add cl epollin a)"

definition prepare_client_socket ::
    "(errno \<Rightarrow> string) \<Rightarrow> errno + int \<Rightarrow> errno option \<Rightarrow> string \<Rightarrow> errno option \<Rightarrow> addr \<Rightarrow> addr \<Rightarrow>
     resources \<Rightarrow> resources \<times> outcome" where
  "prepare_client_socket strerror ans connected address cl tmp a s =
     and_then (create_socket strerror ans tmp s)
       (with_local strerror cl tmp a (connect_socket strerror connected address))"

definition connection_process_construct ::
    "(errno \<Rightarrow> string) \<Rightarrow> errno + int \<Rightarrow> errno option \<Rightarrow> string \<Rightarrow> errno option \<Rightarrow> errno option \<Rightarrow>
     addr \<Rightarrow> addr \<Rightarrow> resources \<Rightarrow> resources \<times> outcome" where
  "connection_process_construct strerror ans connected address add cl tmp a s =
     and_then (prepare_client_socket strerror ans connected address cl tmp a s)
       (watch strerror add cl epollout a)"

section \<open>stream_socket\<close>

definition socket_default :: "addr \<Rightarrow> resources \<Rightarrow> resources" where
  "socket_default a s = reg_default a (fd_default a s)"

definition socket_construct :: "addr \<Rightarrow> addr \<Rightarrow> resources \<Rightarrow> resources \<times> outcome" where
  "socket_construct a b s = and_then (fd_move a b s) (\<lambda>s. (reg_default a s, Done))"

text \<open>The members of the moved object; the descriptor is closed if the registration cannot be moved.\<close>

definition socket_move ::
    "(errno \<Rightarrow> string) \<Rightarrow> errno option \<Rightarrow> addr \<Rightarrow> addr \<Rightarrow> resources \<Rightarrow> resources \<times> outcome" where
  "socket_move strerror cl a b s =
     and_then (fd_move a b s)
       (\<lambda>s. case reg_move strerror a b s of
          (s', Done) \<Rightarrow> (s', Done)
        | (s', x) \<Rightarrow> and_then (fd_destroy strerror cl a s') (\<lambda>s'. (s', x)))"

definition socket_events :: "bool \<Rightarrow> bool \<Rightarrow> uint32" where
  "socket_events on_read on_disconnect =
     (if on_read then epollin else 0) + (if on_disconnect then epollhup else 0)"

text \<open>\<^verbatim>\<open>stream_socket::update\<close>: the old registration goes first, so that one descriptor is not
  registered twice.\<close>

definition socket_update ::
    "(errno \<Rightarrow> string) \<Rightarrow> errno option \<Rightarrow> bool \<Rightarrow> bool \<Rightarrow> addr \<Rightarrow> addr \<Rightarrow> resources \<Rightarrow> resources \<times> outcome" where
  "socket_update strerror add on_read on_disconnect tmp a s =
     (let events = socket_events on_read on_disconnect in
      and_then (reg_clear strerror a s)
        (\<lambda>s. if events \<noteq> 0 then reg_assign_new strerror add (getfd a s) events (Some a) tmp a s
             else (s, Done)))"

text \<open>The callback of \<^verbatim>\<open>connection_process\<close>: the descriptor goes to a new socket at \<open>b\<close>.\<close>

definition connection_established ::
    "(errno \<Rightarrow> string) \<Rightarrow> addr \<Rightarrow> addr \<Rightarrow> resources \<Rightarrow> resources \<times> outcome" where
  "connection_established strerror a b s = and_then (reg_clear strerror a s) (socket_construct b a)"

end
