(* ===== verification/Sysapi_Ownership.thy ===== *)
theory Sysapi_Ownership
  imports Sysapi_Watchers
begin

text \<open>
  Who owns what: every open descriptor belongs to exactly one object, and the kernel's interest
  list holds exactly the registrations that exist, under the addresses at which they are. So
  nothing leaks, nothing is closed twice, no destructor throws, and an event reaches an object
  that exists.
\<close>

section \<open>The invariant\<close>

definition owned :: "resources \<Rightarrow> int set" where
  "owned s = {fd. fd \<noteq> -1 \<and> (\<exists>a. res_fds s a = Some fd)}"

definition one_owner :: "resources \<Rightarrow> bool" where
  "one_owner s \<longleftrightarrow>
     (\<forall>a b fd. fd \<noteq> -1 \<and> res_fds s a = Some fd \<and> res_fds s b = Some fd \<longrightarrow> a = b)"

text \<open>\<open>base\<close> are the descriptors that other parts of the program have open.\<close>

definition fds_ok :: "int set \<Rightarrow> resources \<Rightarrow> bool" where
  "fds_ok base s \<longleftrightarrow> one_owner s \<and> res_open s = base \<union> owned s \<and> base \<inter> owned s = {} \<and> -1 \<notin> base"

definition listed :: "resources \<Rightarrow> bool" where
  "listed s \<longleftrightarrow>
     (\<forall>fd ev a. res_interest s fd = Some (ev, a) \<longrightarrow>
        (\<exists>r. res_regs s a = Some r \<and> rg_ep r \<and> rg_fd r = fd \<and> rg_events r = ev)) \<and>
     (\<forall>a r. res_regs s a = Some r \<and> rg_ep r \<longrightarrow> res_interest s (rg_fd r) = Some (rg_events r, a))"

definition regs_own :: "resources \<Rightarrow> bool" where
  "regs_own s \<longleftrightarrow>
     (\<forall>a r. res_regs s a = Some r \<and> rg_ep r \<longrightarrow>
        rg_fd r \<noteq> -1 \<and> res_fds s a = Some (rg_fd r) \<and> rg_callback r = Some a)"

definition resources_ok :: "int set \<Rightarrow> resources \<Rightarrow> bool" where
  "resources_ok base s \<longleftrightarrow> fds_ok base s \<and> listed s \<and> regs_own s"

definition unwatched :: "addr \<Rightarrow> resources \<Rightarrow> bool" where
  "unwatched a s \<longleftrightarrow> (\<forall>r. res_regs s a = Some r \<longrightarrow> \<not> rg_ep r)"

text \<open>What a call that opens a descriptor answers: a number that was not open.\<close>

definition fresh_answer :: "errno + int \<Rightarrow> resources \<Rightarrow> bool" where
  "fresh_answer ans s \<longleftrightarrow> (\<forall>fd. ans = Inr fd \<longrightarrow> 0 \<le> fd \<and> fd \<notin> res_open s)"

lemma fds_okD:
  assumes "fds_ok base s"
  shows "fd \<noteq> -1 \<Longrightarrow> res_fds s a = Some fd \<Longrightarrow> res_fds s b = Some fd \<Longrightarrow> a = b"
    "fd \<noteq> -1 \<Longrightarrow> res_fds s a = Some fd \<Longrightarrow> fd \<in> res_open s"
    "fd \<notin> res_open s \<Longrightarrow> fd \<notin> base"
    "fd \<notin> res_open s \<Longrightarrow> fd \<noteq> -1 \<Longrightarrow> res_fds s a \<noteq> Some fd"
    "fd \<in> base \<Longrightarrow> res_fds s a \<noteq> Some fd"
  using assms unfolding fds_ok_def one_owner_def owned_def by blast+

lemma fds_ok_iff:
  "fds_ok base s \<longleftrightarrow>
     (\<forall>a b fd. fd \<noteq> -1 \<and> res_fds s a = Some fd \<and> res_fds s b = Some fd \<longrightarrow> a = b) \<and>
     (\<forall>fd. fd \<in> res_open s \<longleftrightarrow> fd \<in> base \<or> fd \<noteq> -1 \<and> (\<exists>a. res_fds s a = Some fd)) \<and>
     (\<forall>fd \<in> base. fd \<noteq> -1 \<and> (\<forall>a. res_fds s a \<noteq> Some fd))"
  unfolding fds_ok_def one_owner_def owned_def by (intro iffI conjI; blast)

lemma resources_okD:
  assumes "resources_ok base s"
  shows "fds_ok base s" "listed s" "regs_own s"
    "res_regs s a = Some r \<Longrightarrow> rg_ep r \<Longrightarrow> res_fds s a = Some (rg_fd r)"
    "res_regs s a = Some r \<Longrightarrow> rg_ep r \<Longrightarrow> rg_fd r \<noteq> -1"
    "res_regs s a = Some r \<Longrightarrow> rg_ep r \<Longrightarrow> rg_callback r = Some a"
    "res_regs s a = Some r \<Longrightarrow> rg_ep r \<Longrightarrow> res_interest s (rg_fd r) = Some (rg_events r, a)"
    "res_interest s fd = Some (ev, b) \<Longrightarrow>
       \<exists>r. res_regs s b = Some r \<and> rg_ep r \<and> rg_fd r = fd \<and> rg_events r = ev"
  using assms unfolding resources_ok_def regs_own_def listed_def by blast+

lemma registered_open:
  assumes "resources_ok base s" "res_regs s a = Some r" "rg_ep r"
  shows "rg_fd r \<in> res_open s"
  using fds_okD(2) [OF resources_okD(1) [OF assms(1)]] resources_okD(4,5) [OF assms] by blast

lemma same_descriptor:
  assumes ok: "resources_ok base s" and a: "res_fds s a = Some fd" "fd \<noteq> -1"
    and b: "res_regs s b = Some r" "rg_ep r" "rg_fd r = fd"
  shows "b = a"
  using fds_okD(1) [OF resources_okD(1) [OF ok]] resources_okD(4) [OF ok b(1,2)] a b(3) by metis

text \<open>The descriptor of an object that is not watched is not in the interest list.\<close>

lemma unwatched_interest:
  assumes ok: "resources_ok base s" and a: "res_fds s a = Some fd" "fd \<noteq> -1" and un: "unwatched a s"
  shows "res_interest s fd = None"
proof (rule ccontr)
  assume "res_interest s fd \<noteq> None"
  then obtain ev b where "res_interest s fd = Some (ev, b)" by auto
  then obtain r where r: "res_regs s b = Some r" "rg_ep r" "rg_fd r = fd"
    using resources_okD(8) [OF ok] by blast
  then have "b = a" by (rule same_descriptor [OF ok a])
  then show False using un r by (simp add: unwatched_def)
qed

lemma closed_interest:
  assumes ok: "resources_ok base s" and fd: "fd \<notin> res_open s"
  shows "res_interest s fd = None"
proof (rule ccontr)
  assume "res_interest s fd \<noteq> None"
  then obtain ev b where "res_interest s fd = Some (ev, b)" by auto
  then obtain r where "res_regs s b = Some r" "rg_ep r" "rg_fd r = fd"
    using resources_okD(8) [OF ok] by blast
  then show False using registered_open [OF ok] fd by blast
qed

section \<open>The elementary changes\<close>

lemma ex_map_upd:
  "m a \<noteq> Some x \<Longrightarrow> (\<exists>b. (m(a := y)) b = Some x) \<longleftrightarrow> y = Some x \<or> (\<exists>b. m b = Some x)"
  by (metis fun_upd_other fun_upd_same)

lemma fds_ok_same:
  assumes "fds_ok base s" "res_open s' = res_open s"
    and "\<And>x. x \<noteq> -1 \<Longrightarrow> (\<exists>b. res_fds s' b = Some x) \<longleftrightarrow> (\<exists>b. res_fds s b = Some x)"
    and "\<And>a b x. x \<noteq> -1 \<Longrightarrow> res_fds s' a = Some x \<Longrightarrow> res_fds s' b = Some x \<Longrightarrow> a = b"
  shows "fds_ok base s'"
proof -
  have "owned s' = owned s" using assms(3) by (auto simp: owned_def)
  moreover have "one_owner s'" using assms(4) by (auto simp: one_owner_def)
  ultimately show ?thesis using assms(1,2) by (simp add: fds_ok_def)
qed

text \<open>
  Registrations only depend on the descriptors of the objects that have one, so a change of
  the descriptors elsewhere keeps them.
\<close>

lemma change_fds_ok:
  assumes ok: "resources_ok base s" and fds: "fds_ok base s'"
    and regs: "res_regs s' = res_regs s"
    and kept: "\<And>a r. res_regs s a = Some r \<Longrightarrow> rg_ep r \<Longrightarrow>
      res_fds s' a = res_fds s a \<and> res_interest s' (rg_fd r) = res_interest s (rg_fd r)"
    and less: "\<And>fd. res_interest s' fd = res_interest s fd \<or> res_interest s' fd = None"
  shows "resources_ok base s'"
proof -
  have "\<exists>r. res_regs s' a = Some r \<and> rg_ep r \<and> rg_fd r = fd \<and> rg_events r = ev"
    if "res_interest s' fd = Some (ev, a)" for fd ev a
    using that less [of fd] resources_okD(8) [OF ok] regs by simp
  moreover have "res_interest s' (rg_fd r) = Some (rg_events r, a)"
    if "res_regs s' a = Some r" "rg_ep r" for a r
    using that regs kept resources_okD(7) [OF ok] by simp
  ultimately have "listed s'" unfolding listed_def by blast
  moreover have "regs_own s'"
    using resources_okD(4-6) [OF ok] regs kept by (auto simp: regs_own_def)
  ultimately show ?thesis using fds by (simp add: resources_ok_def)
qed

text \<open>The object \<open>a\<close> begins to watch its descriptor, and ends to.\<close>

lemma watch_ok:
  assumes ok: "resources_ok base s" and a: "res_fds s a = Some fd" "fd \<noteq> -1" and un: "unwatched a s"
  shows "resources_ok base (s\<lparr>res_interest := (res_interest s)(fd \<mapsto> (ev, a)),
    res_regs := (res_regs s)(a \<mapsto> \<lparr>rg_ep = True, rg_fd = fd, rg_events = ev, rg_callback = Some a\<rparr>)\<rparr>)"
    (is "resources_ok base ?s")
proof -
  have other: "rg_fd r \<noteq> fd \<and> b \<noteq> a" if "res_regs s b = Some r" "rg_ep r" for b r
    using same_descriptor [OF ok a that] un that by (auto simp: unwatched_def)
  have none: "res_interest s fd = None" by (rule unwatched_interest [OF ok a un])
  have "listed ?s"
    unfolding listed_def
  proof (intro conjI allI impI)
    fix x e b
    assume "res_interest ?s x = Some (e, b)"
    then show "\<exists>r. res_regs ?s b = Some r \<and> rg_ep r \<and> rg_fd r = x \<and> rg_events r = e"
      using resources_okD(8) [OF ok, of x e b] other by (cases "x = fd") auto
  next
    fix b r
    assume "res_regs ?s b = Some r \<and> rg_ep r"
    then show "res_interest ?s (rg_fd r) = Some (rg_events r, b)"
      using resources_okD(7) [OF ok, of b r] other by (cases "b = a") auto
  qed
  moreover have "regs_own ?s"
    using resources_okD(4-6) [OF ok] a by (auto simp: regs_own_def)
  moreover have "fds_ok base ?s"
    using resources_okD(1) [OF ok] by (simp add: fds_ok_iff)
  ultimately show ?thesis by (simp add: resources_ok_def)
qed

lemma unwatch_ok:
  assumes ok: "resources_ok base s" and r: "res_regs s a = Some r" "rg_ep r" and idle: "\<not> rg_ep r'"
  shows "resources_ok base (s\<lparr>res_interest := (res_interest s)(rg_fd r := None),
    res_regs := (res_regs s)(a \<mapsto> r')\<rparr>)" (is "resources_ok base ?s")
proof -
  note fd = resources_okD(4,5) [OF ok r]
  have other: "rg_fd q \<noteq> rg_fd r" if "res_regs s b = Some q" "rg_ep q" "b \<noteq> a" for b q
    using same_descriptor [OF ok fd that(1,2)] that by blast
  have "listed ?s"
    unfolding listed_def
  proof (intro conjI allI impI)
    fix x e b
    assume "res_interest ?s x = Some (e, b)"
    then have "x \<noteq> rg_fd r" "res_interest s x = Some (e, b)" by (auto split: if_splits)
    then show "\<exists>r. res_regs ?s b = Some r \<and> rg_ep r \<and> rg_fd r = x \<and> rg_events r = e"
      using resources_okD(8) [OF ok, of x e b] r by (cases "b = a") auto
  next
    fix b q
    assume "res_regs ?s b = Some q \<and> rg_ep q"
    then show "res_interest ?s (rg_fd q) = Some (rg_events q, b)"
      using resources_okD(7) [OF ok, of b q] other idle by (cases "b = a") auto
  qed
  moreover have "regs_own ?s"
    using resources_okD(4-6) [OF ok] idle by (auto simp: regs_own_def)
  moreover have "fds_ok base ?s"
    using resources_okD(1) [OF ok] by (simp add: fds_ok_iff)
  ultimately show ?thesis by (simp add: resources_ok_def)
qed

lemma idle_reg_ok:
  assumes ok: "resources_ok base s" and un: "unwatched a s" and x: "\<And>r. x = Some r \<Longrightarrow> \<not> rg_ep r"
  shows "resources_ok base (s\<lparr>res_regs := (res_regs s)(a := x)\<rparr>)" (is "resources_ok base ?s")
proof -
  have "listed ?s"
    unfolding listed_def
  proof (intro conjI allI impI)
    fix y e b
    assume "res_interest ?s y = Some (e, b)"
    then obtain r where "res_regs s b = Some r" "rg_ep r" "rg_fd r = y" "rg_events r = e"
      using resources_okD(8) [OF ok, of y e b] by auto
    then show "\<exists>r. res_regs ?s b = Some r \<and> rg_ep r \<and> rg_fd r = y \<and> rg_events r = e"
      using un by (auto simp: unwatched_def)
  next
    fix b q
    assume "res_regs ?s b = Some q \<and> rg_ep q"
    then show "res_interest ?s (rg_fd q) = Some (rg_events q, b)"
      using resources_okD(7) [OF ok, of b q] x by (cases "b = a") auto
  qed
  moreover have "regs_own ?s"
    using resources_okD(4-6) [OF ok] x by (auto simp: regs_own_def)
  moreover have "fds_ok base ?s"
    using resources_okD(1) [OF ok] by (simp add: fds_ok_iff)
  ultimately show ?thesis by (simp add: resources_ok_def)
qed

lemma log_ok [simp]: "resources_ok base (log_error msg s) = resources_ok base s"
  by (simp add: log_error_def resources_ok_def fds_ok_iff listed_def regs_own_def)

section \<open>Descriptors\<close>

lemma construct_ok:
  assumes ok: "resources_ok base s" and a: "res_fds s a = None" and fd: "0 \<le> fd" "fd \<notin> res_open s"
  shows "resources_ok base (fd_construct a fd (s\<lparr>res_open := insert fd (res_open s)\<rparr>))"
proof (rule change_fds_ok [OF ok])
  show "fds_ok base (fd_construct a fd (s\<lparr>res_open := insert fd (res_open s)\<rparr>))"
    using resources_okD(1) [OF ok] a fd
    by (auto simp: fds_ok_iff fd_construct_def) (metis option.distinct(1))
qed (use a resources_okD(4) [OF ok] in \<open>auto simp: fd_construct_def\<close>)

lemma fd_default_ok:
  assumes ok: "resources_ok base s" and a: "res_fds s a = None"
  shows "resources_ok base (fd_default a s)"
proof (rule change_fds_ok [OF ok])
  show "fds_ok base (fd_default a s)"
    using resources_okD(1) [OF ok] a
    by (auto simp: fds_ok_iff fd_default_def fd_construct_def) (metis option.distinct(1))
qed (use a resources_okD(4) [OF ok] in \<open>auto simp: fd_default_def fd_construct_def\<close>)

lemma fd_receive_ok:
  assumes "resources_ok base s" "res_fds s a = None" "fresh_answer ans s"
  shows "resources_ok base (fst (fd_receive strerror what ans a s))"
    "\<not> aborted (fd_receive strerror what ans a s)"
  using assms construct_ok [of base s a]
  by (auto simp: fd_receive_def fresh_answer_def split: sum.splits)

lemma dead_log:
  "(log_error msg s)\<lparr>res_fds := (res_fds (log_error msg s))(a := None)\<rparr> =
     log_error msg (s\<lparr>res_fds := (res_fds s)(a := None)\<rparr>)"
  by (simp add: log_error_def)

lemma fd_destroy_ok:
  assumes ok: "resources_ok base s" and a: "res_fds s a \<noteq> None" and un: "unwatched a s"
  shows "resources_ok base (fst (fd_destroy strerror ans a s))" "snd (fd_destroy strerror ans a s) = Done"
    "res_fds (fst (fd_destroy strerror ans a s)) = (res_fds s)(a := None)"
    "res_regs (fst (fd_destroy strerror ans a s)) = res_regs s"
    "res_open (fst (fd_destroy strerror ans a s)) = res_open s - {getfd a s}"
    "ans = None \<Longrightarrow> res_cerr (fst (fd_destroy strerror ans a s)) = res_cerr s"
proof -
  obtain fd where fd: "res_fds s a = Some fd" using a by auto
  note fds = resources_okD(1) [OF ok]
  let ?dead = "\<lambda>s. s\<lparr>res_fds := (res_fds s)(a := None)\<rparr>"
  have "fd \<in> res_open s" if "fd \<noteq> -1" using fds_okD(2) [OF fds that fd] .
  moreover have "fd = -1 \<Longrightarrow> fd \<notin> res_open s"
    using fds by (auto simp: fds_ok_def owned_def)
  ultimately show "snd (fd_destroy strerror ans a s) = Done"
    "res_fds (fst (fd_destroy strerror ans a s)) = (res_fds s)(a := None)"
    "res_regs (fst (fd_destroy strerror ans a s)) = res_regs s"
    "res_open (fst (fd_destroy strerror ans a s)) = res_open s - {getfd a s}"
    "ans = None \<Longrightarrow> res_cerr (fst (fd_destroy strerror ans a s)) = res_cerr s"
    using fd by (auto simp: fd_destroy_def sys_close_def getfd_def log_error_def split: option.splits)
  have others: "b \<noteq> a" if "res_regs s b = Some r" "rg_ep r" for b r
    using that un by (auto simp: unwatched_def)
  have "resources_ok base (?dead s)" if "fd = -1"
  proof (rule change_fds_ok [OF ok])
    show "fds_ok base (?dead s)"
    proof (rule fds_ok_same [OF fds])
      show "(\<exists>b. res_fds (?dead s) b = Some x) \<longleftrightarrow> (\<exists>b. res_fds s b = Some x)" if "x \<noteq> -1" for x
        using ex_map_upd [of "res_fds s" a x None] fd \<open>fd = -1\<close> that by simp
    qed (use fds_okD(1) [OF fds] in \<open>auto split: if_splits\<close>)
  qed (use others in auto)
  moreover have "resources_ok base (?dead (s\<lparr>res_open := res_open s - {fd},
      res_interest := (res_interest s)(fd := None)\<rparr>))" (is "resources_ok base ?s") if "fd \<noteq> -1"
  proof (rule change_fds_ok [OF ok])
    show "fds_ok base ?s"
    proof -
      have "owned ?s = owned s - {fd}"
      proof (rule set_eqI)
        fix x
        show "x \<in> owned ?s \<longleftrightarrow> x \<in> owned s - {fd}"
        proof (cases "x = fd")
          case True
          have "res_fds s b \<noteq> Some fd" if "b \<noteq> a" for b
            using fds_okD(1) [OF fds \<open>fd \<noteq> -1\<close> fd, of b] that by blast
          then show ?thesis using True by (auto simp: owned_def)
        next
          case False
          then show ?thesis using ex_map_upd [of "res_fds s" a x None] fd by (simp add: owned_def)
        qed
      qed
      moreover have "one_owner ?s"
        using fds unfolding fds_ok_def one_owner_def by simp
      moreover have "fd \<notin> base" using fds_okD(5) [OF fds] fd by blast
      ultimately show ?thesis using fds by (auto simp: fds_ok_def)
    qed
  qed (use others same_descriptor [OF ok fd that] in auto)
  ultimately show "resources_ok base (fst (fd_destroy strerror ans a s))"
    using fd \<open>fd \<noteq> -1 \<Longrightarrow> fd \<in> res_open s\<close>
    by (auto simp: fd_destroy_def sys_close_def dead_log split: option.splits)
qed

text \<open>Two objects that do not watch exchange what they own; -1 is not owned.\<close>

lemma exchange_ok:
  assumes ok: "resources_ok base s" and un: "unwatched a s" "unwatched b s" and ab: "a \<noteq> b"
    and x: "\<And>x. x \<noteq> -1 \<Longrightarrow> (u = Some x \<longleftrightarrow> res_fds s b = Some x) \<and> (v = Some x \<longleftrightarrow> res_fds s a = Some x)"
  shows "resources_ok base (s\<lparr>res_fds := (res_fds s)(a := u, b := v)\<rparr>)" (is "resources_ok base ?s")
proof -
  note fds = resources_okD(1) [OF ok]
  let ?flip = "\<lambda>c. if c = a then b else if c = b then a else c"
  have flip: "res_fds ?s c = Some x \<longleftrightarrow> res_fds s (?flip c) = Some x" if "x \<noteq> -1" for c x
    using x [OF that] ab by auto
  have inv: "?flip (?flip c) = c" for c by simp
  show ?thesis
  proof (rule change_fds_ok [OF ok])
    show "fds_ok base ?s"
    proof (rule fds_ok_same [OF fds])
      fix x :: int
      assume x: "x \<noteq> -1"
      show "(\<exists>c. res_fds ?s c = Some x) \<longleftrightarrow> (\<exists>c. res_fds s c = Some x)"
        unfolding flip [OF x] by (metis inv)
      show "c = d" if "res_fds ?s c = Some x" "res_fds ?s d = Some x" for c d
      proof -
        have "?flip c = ?flip d"
          using that unfolding flip [OF x] by (rule fds_okD(1) [OF fds x])
        then show ?thesis by (metis inv)
      qed
    qed simp
  qed (use un in \<open>auto simp: unwatched_def\<close>)
qed

lemma fd_move_ok:
  assumes ok: "resources_ok base s" and b: "res_fds s b = Some fd" "unwatched b s"
    and a: "res_fds s a = None"
  shows "fd_move a b s = (s\<lparr>res_fds := (res_fds s)(a \<mapsto> fd, b \<mapsto> -1)\<rparr>, Done)"
    "resources_ok base (s\<lparr>res_fds := (res_fds s)(a \<mapsto> fd, b \<mapsto> -1)\<rparr>)"
proof -
  have "unwatched a s"
    using resources_okD(4) [OF ok] a by (auto simp: unwatched_def)
  moreover have "a \<noteq> b" using a b by auto
  ultimately show "resources_ok base (s\<lparr>res_fds := (res_fds s)(a \<mapsto> fd, b \<mapsto> -1)\<rparr>)"
    using a b by (intro exchange_ok [OF ok]) auto
qed (simp add: fd_move_def b)

lemma fd_swap_ok:
  assumes ok: "resources_ok base s" and un: "unwatched a s" "unwatched b s" and ab: "a \<noteq> b"
    and fds: "res_fds s a = Some x" "res_fds s b = Some y"
  shows "fd_swap a b s = (s\<lparr>res_fds := (res_fds s)(a \<mapsto> y, b \<mapsto> x)\<rparr>, Done)"
    "resources_ok base (s\<lparr>res_fds := (res_fds s)(a \<mapsto> y, b \<mapsto> x)\<rparr>)"
  using fds by (simp_all add: fd_swap_def exchange_ok [OF ok un ab])

lemma fd_assign_ok:
  assumes ok: "resources_ok base s" and un: "unwatched a s" "unwatched b s"
    and fds: "res_fds s a = Some x" "res_fds s b = Some y"
    and tmp: "res_fds s tmp = None"
  shows "resources_ok base (fst (fd_assign strerror ans tmp a b s))"
    "snd (fd_assign strerror ans tmp a b s) = Done"
proof -
  have "unwatched tmp s" using resources_okD(4) [OF ok] tmp by (auto simp: unwatched_def)
  note M = fd_move_ok [OF ok fds(2) un(2) tmp]
  let ?s1 = "s\<lparr>res_fds := (res_fds s)(tmp \<mapsto> y, b \<mapsto> -1)\<rparr>"
  have t: "tmp \<noteq> a" "tmp \<noteq> b" using fds tmp by auto
  then obtain z where z: "res_fds ?s1 a = Some z" using fds by (cases "a = b") auto
  have un1: "unwatched a ?s1" "unwatched tmp ?s1"
    using un \<open>unwatched tmp s\<close> by (simp_all add: unwatched_def)
  note S = fd_swap_ok [OF M(2) un1, of z y]
  let ?s2 = "?s1\<lparr>res_fds := (res_fds ?s1)(a \<mapsto> y, tmp \<mapsto> z)\<rparr>"
  have "fd_assign strerror ans tmp a b s = fd_destroy strerror ans tmp ?s2"
    using S(1) t z by (simp add: fd_assign_def M(1))
  moreover have "resources_ok base ?s2" using S(2) t z by simp
  moreover have "unwatched tmp ?s2" using un1(2) by (simp add: unwatched_def)
  ultimately show "resources_ok base (fst (fd_assign strerror ans tmp a b s))"
    "snd (fd_assign strerror ans tmp a b s) = Done"
    using fd_destroy_ok(1,2) [of base ?s2 tmp strerror ans] by simp_all
qed

section \<open>Registrations\<close>

lemma epoll_ctl_simps:
  "fd \<in> res_open s \<Longrightarrow> res_interest s fd \<noteq> None \<Longrightarrow>
     epoll_modify strerror fd ev a s = (s\<lparr>res_interest := (res_interest s)(fd \<mapsto> (ev, a))\<rparr>, Done)"
  "fd \<in> res_open s \<Longrightarrow> res_interest s fd \<noteq> None \<Longrightarrow>
     epoll_remove strerror fd s = (s\<lparr>res_interest := (res_interest s)(fd := None)\<rparr>, Done)"
  by (simp_all add: epoll_add_def epoll_modify_def epoll_remove_def sys_epoll_add_def sys_epoll_mod_def
      sys_epoll_del_def throw_error_def)

lemma epoll_add_cases:
  obtains "epoll_add strerror ans fd ev a s = (s\<lparr>res_interest := (res_interest s)(fd \<mapsto> (ev, a))\<rparr>, Done)"
    | msg where "epoll_add strerror ans fd ev a s = (s, Threw msg)"
proof (cases "fd \<in> res_open s \<and> res_interest s fd = None \<and> ans = None")
  case True
  then show ?thesis using that(1) by (simp add: epoll_add_def sys_epoll_add_def throw_error_def)
next
  case False
  then have "\<exists>msg. epoll_add strerror ans fd ev a s = (s, Threw msg)"
    by (auto simp: epoll_add_def sys_epoll_add_def throw_error_def split: option.splits)
  then show ?thesis using that(2) by blast
qed

text \<open>The registration member of \<open>a\<close>, for a descriptor member that is not watched yet.\<close>

lemma reg_construct_ok:
  assumes ok: "resources_ok base s" and a: "res_fds s a = Some fd" "fd \<noteq> -1" and un: "unwatched a s"
  shows "resources_ok base (fst (reg_construct strerror ans fd ev (Some a) a s))"
    "\<not> aborted (reg_construct strerror ans fd ev (Some a) a s)"
    "snd (reg_construct strerror ans fd ev (Some a) a s) \<noteq> Done \<Longrightarrow>
       fst (reg_construct strerror ans fd ev (Some a) a s) = s"
    "res_fds (fst (reg_construct strerror ans fd ev (Some a) a s)) = res_fds s"
  using watch_ok [OF ok a un, of ev] ok
  by (rule_tac [!] epoll_add_cases [of strerror ans fd ev a s])
     (simp_all add: reg_construct_def put_reg_def)

lemma reg_clear_ok:
  assumes ok: "resources_ok base s" and r: "res_regs s a = Some r"
  shows "resources_ok base (fst (reg_clear strerror a s))" "snd (reg_clear strerror a s) = Done"
    "\<exists>q. res_regs (fst (reg_clear strerror a s)) = (res_regs s)(a \<mapsto> q) \<and> \<not> rg_ep q"
    "res_fds (fst (reg_clear strerror a s)) = res_fds s" "res_open (fst (reg_clear strerror a s)) = res_open s"
    "unwatched a (fst (reg_clear strerror a s))"
proof -
  let ?q = "\<lparr>rg_ep = False, rg_fd = -1, rg_events = 0, rg_callback = rg_callback r\<rparr>"
  let ?s = "s\<lparr>res_interest := (res_interest s)(rg_fd r := None), res_regs := (res_regs s)(a \<mapsto> ?q)\<rparr>"
  have eq: "reg_clear strerror a s = (if rg_ep r then (?s, Done) else (s, Done))"
    using resources_okD(7) [OF ok r] registered_open [OF ok r] r
    by (simp add: reg_clear_def epoll_ctl_simps put_reg_def)
  show "resources_ok base (fst (reg_clear strerror a s))" "snd (reg_clear strerror a s) = Done"
    "\<exists>q. res_regs (fst (reg_clear strerror a s)) = (res_regs s)(a \<mapsto> q) \<and> \<not> rg_ep q"
    "res_fds (fst (reg_clear strerror a s)) = res_fds s" "res_open (fst (reg_clear strerror a s)) = res_open s"
    "unwatched a (fst (reg_clear strerror a s))"
    using unwatch_ok [OF ok r, of ?q] ok r fun_upd_idem [of "res_regs s" a "Some r"]
    by (auto simp: eq unwatched_def intro!: exI [of _ "if rg_ep r then ?q else r"])
qed

lemma reg_destroy_ok:
  assumes ok: "resources_ok base s" and r: "res_regs s a \<noteq> None"
  shows "resources_ok base (fst (reg_destroy strerror a s))" "snd (reg_destroy strerror a s) = Done"
    "res_regs (fst (reg_destroy strerror a s)) = (res_regs s)(a := None)"
    "res_fds (fst (reg_destroy strerror a s)) = res_fds s"
    "res_open (fst (reg_destroy strerror a s)) = res_open s"
proof -
  obtain q where q: "res_regs s a = Some q" using r by blast
  note C = reg_clear_ok [OF ok q, of strerror]
  have eq: "reg_destroy strerror a s = (drop_reg a (fst (reg_clear strerror a s)), Done)"
    using C(2) by (cases "reg_clear strerror a s") (simp add: reg_destroy_def)
  show "resources_ok base (fst (reg_destroy strerror a s))"
    using idle_reg_ok [OF C(1) C(6), of None] by (simp add: eq drop_reg_def)
  show "snd (reg_destroy strerror a s) = Done"
    "res_regs (fst (reg_destroy strerror a s)) = (res_regs s)(a := None)"
    "res_fds (fst (reg_destroy strerror a s)) = res_fds s"
    "res_open (fst (reg_destroy strerror a s)) = res_open s"
    using C(3-5) by (auto simp: eq drop_reg_def)
qed

text \<open>
  The assignment of a new registration to the member of \<open>a\<close>, which is not registered: the
  temporary is swapped in, the kernel is told the new address, and what is left is destroyed.
\<close>

lemma reg_assign_new_eq:
  assumes r: "res_regs s a = Some r" "\<not> rg_ep r" and tmp: "tmp \<noteq> a"
    and fd: "fd \<in> res_open s" "res_interest s fd = None"
  shows "reg_assign_new strerror None fd ev cb tmp a s =
    (s\<lparr>res_interest := (res_interest s)(fd \<mapsto> (ev, a)),
       res_regs := (res_regs s)(tmp := None,
         a \<mapsto> \<lparr>rg_ep = True, rg_fd = fd, rg_events = ev, rg_callback = cb\<rparr>)\<rparr>, Done)"
proof -
  let ?n = "\<lparr>rg_ep = True, rg_fd = fd, rg_events = ev, rg_callback = cb\<rparr>"
  let ?s1 = "put_reg tmp ?n (s\<lparr>res_interest := (res_interest s)(fd \<mapsto> (ev, tmp))\<rparr>)"
  have c: "reg_construct strerror None fd ev cb tmp s = (?s1, Done)"
    using fd by (simp add: reg_construct_def epoll_add_def sys_epoll_add_def throw_error_def)
  let ?s2 = "put_reg tmp r (put_reg a ?n ?s1)"
  have "reg_swap strerror a tmp ?s1 = and_then (reg_update strerror a ?s2) (reg_update strerror tmp)"
    using r tmp by (simp add: reg_swap_def put_reg_def)
  also have "reg_update strerror a ?s2 =
      (?s2\<lparr>res_interest := (res_interest s)(fd \<mapsto> (ev, a))\<rparr>, Done)"
    using fd tmp by (simp add: reg_update_def put_reg_def epoll_ctl_simps)
  finally have sw: "reg_swap strerror a tmp ?s1 = (?s2\<lparr>res_interest := (res_interest s)(fd \<mapsto> (ev, a))\<rparr>, Done)"
    using r by (simp add: reg_update_def put_reg_def fun_upd_def)
  have "reg_assign_new strerror None fd ev cb tmp a s =
      reg_destroy strerror tmp (?s2\<lparr>res_interest := (res_interest s)(fd \<mapsto> (ev, a))\<rparr>)"
    by (simp add: reg_assign_new_def c sw)
  then show ?thesis
    using r tmp by (simp add: reg_destroy_def reg_clear_def put_reg_def drop_reg_def fun_upd_twist)
qed

lemma reg_assign_new_ok:
  assumes ok: "resources_ok base s" and a: "res_fds s a = Some fd" "fd \<noteq> -1"
    and r: "res_regs s a = Some r" "\<not> rg_ep r" and tmp: "res_regs s tmp = None"
  shows "resources_ok base (fst (reg_assign_new strerror ans fd ev (Some a) tmp a s))"
    "\<not> aborted (reg_assign_new strerror ans fd ev (Some a) tmp a s)"
proof -
  have un: "unwatched a s" using r by (simp add: unwatched_def)
  have ta: "tmp \<noteq> a" using tmp r by auto
  note fd = fds_okD(2) [OF resources_okD(1) [OF ok] a(2,1)] unwatched_interest [OF ok a un]
  have "(res_regs s)(tmp := None) = res_regs s" using tmp by (simp add: fun_upd_idem)
  then have eq: "reg_assign_new strerror None fd ev (Some a) tmp a s =
    (s\<lparr>res_interest := (res_interest s)(fd \<mapsto> (ev, a)),
       res_regs := (res_regs s)(a \<mapsto> \<lparr>rg_ep = True, rg_fd = fd, rg_events = ev, rg_callback = Some a\<rparr>)\<rparr>, Done)"
    using reg_assign_new_eq [OF r ta fd] by simp
  have err: "reg_assign_new strerror (Some err) fd ev (Some a) tmp a s =
    (s, Threw (''unable to add file descriptor to epoll, error: '' @ errno_to_text strerror err))" for err
    using fd by (simp add: reg_assign_new_def reg_construct_def epoll_add_def sys_epoll_add_def throw_error_def)
  show "resources_ok base (fst (reg_assign_new strerror ans fd ev (Some a) tmp a s))"
    "\<not> aborted (reg_assign_new strerror ans fd ev (Some a) tmp a s)"
    using watch_ok [OF ok a un, of ev] ok by (cases ans; simp add: eq err)+
qed

section \<open>The classes\<close>

definition vacant :: "addr \<Rightarrow> resources \<Rightarrow> bool" where
  "vacant a s \<longleftrightarrow> res_fds s a = None \<and> res_regs s a = None"

lemma watch_object_ok:
  assumes ok: "resources_ok base s" and a: "res_fds s a = Some fd" "fd \<noteq> -1" and un: "res_regs s a = None"
  shows "resources_ok base (fst (watch strerror add cl ev a s))" "\<not> aborted (watch strerror add cl ev a s)"
proof -
  have u: "unwatched a s" using un by (simp add: unwatched_def)
  have g: "getfd a s = fd" using a by (simp add: getfd_def)
  note R = reg_construct_ok [OF ok a u, of strerror add ev]
  obtain s' x where c: "reg_construct strerror add fd ev (Some a) a s = (s', x)" by force
  have "resources_ok base (fst (watch strerror add cl ev a s)) \<and> \<not> aborted (watch strerror add cl ev a s)"
  proof (cases "x = Done")
    case True
    then show ?thesis using R c by (simp add: watch_def g)
  next
    case False
    then have s': "s' = s" using R(3) c by simp
    have D: "resources_ok base (fst (fd_destroy strerror cl a s))" "snd (fd_destroy strerror cl a s) = Done"
      using fd_destroy_ok [OF ok _ u, where strerror = strerror and ans = cl] a by auto
    have "watch strerror add cl ev a s = (fst (fd_destroy strerror cl a s), x)"
      using False D(2) by (cases x) (simp_all add: watch_def g c s' and_then_fst)
    then show ?thesis using D R(2) c by (simp add: aborted_def)
  qed
  then show "resources_ok base (fst (watch strerror add cl ev a s))" "\<not> aborted (watch strerror add cl ev a s)"
    by blast+
qed

lemma watched_destroy_ok:
  assumes ok: "resources_ok base s" and a: "res_fds s a \<noteq> None" "res_regs s a \<noteq> None"
  shows "resources_ok base (fst (watched_destroy strerror cl a s))"
    "snd (watched_destroy strerror cl a s) = Done"
    "vacant a (fst (watched_destroy strerror cl a s))"
    "res_open (fst (watched_destroy strerror cl a s)) = res_open s - {getfd a s}"
proof -
  note R = reg_destroy_ok [OF ok a(2), of strerror]
  let ?s = "fst (reg_destroy strerror a s)"
  have "watched_destroy strerror cl a s = fd_destroy strerror cl a ?s"
    by (simp add: watched_destroy_def and_then_fst R)
  moreover have "res_fds ?s a \<noteq> None" "unwatched a ?s" using a R by (simp_all add: unwatched_def)
  moreover have "getfd a ?s = getfd a s" by (simp add: getfd_def R)
  ultimately show "resources_ok base (fst (watched_destroy strerror cl a s))"
    "snd (watched_destroy strerror cl a s) = Done"
    "vacant a (fst (watched_destroy strerror cl a s))"
    "res_open (fst (watched_destroy strerror cl a s)) = res_open s - {getfd a s}"
    using fd_destroy_ok [OF R(1), where a = a and strerror = strerror and ans = cl] R by (simp_all add: vacant_def)
qed

lemma and_then_ok:
  assumes "P (fst r)" "\<not> aborted r" and "snd r = Done \<Longrightarrow> P (fst (f (fst r))) \<and> \<not> aborted (f (fst r))"
  shows "P (fst (and_then r f)) \<and> \<not> aborted (and_then r f)"
  using assms by (cases "snd r = Done") (simp_all add: and_then_fst)

text \<open>Whatever opens a descriptor, in front of the registration that watches it.\<close>

lemma fd_receive_Done:
  assumes "snd (fd_receive strerror what ans a s) = Done"
  obtains fd where "ans = Inr fd" "res_fds (fst (fd_receive strerror what ans a s)) a = Some fd"
    "res_regs (fst (fd_receive strerror what ans a s)) = res_regs s"
  using assms that by (cases ans) (simp_all add: fd_receive_def fd_construct_def)

lemma receive_watch_ok:
  assumes ok: "resources_ok base s" and a: "vacant a s" and fresh: "fresh_answer ans s"
  shows "resources_ok base (fst (and_then (fd_receive strerror what ans a s) (watch strerror add cl ev a))) \<and>
    \<not> aborted (and_then (fd_receive strerror what ans a s) (watch strerror add cl ev a))"
proof (rule and_then_ok)
  have a': "res_fds s a = None" "res_regs s a = None" using a by (simp_all add: vacant_def)
  note R = fd_receive_ok [OF ok a'(1) fresh, of strerror what]
  show "resources_ok base (fst (fd_receive strerror what ans a s))"
    "\<not> aborted (fd_receive strerror what ans a s)" by (rule R)+
  assume "snd (fd_receive strerror what ans a s) = Done"
  then obtain fd where fd: "ans = Inr fd" "res_fds (fst (fd_receive strerror what ans a s)) a = Some fd"
    "res_regs (fst (fd_receive strerror what ans a s)) = res_regs s"
    by (rule fd_receive_Done)
  then have "fd \<noteq> -1" using fresh by (auto simp: fresh_answer_def)
  then show "resources_ok base (fst (watch strerror add cl ev a (fst (fd_receive strerror what ans a s)))) \<and>
      \<not> aborted (watch strerror add cl ev a (fst (fd_receive strerror what ans a s)))"
    using watch_object_ok [OF R(1) fd(2)] fd(3) a'(2) by simp
qed

text \<open>The local descriptor of the functions that prepare a socket.\<close>

lemma local_socket_ok:
  assumes ok: "resources_ok base s" and a: "vacant a s" and tmp: "vacant tmp s" "tmp \<noteq> a"
    and fresh: "fresh_answer ans s"
    and body: "\<And>s. fst (body s) = s \<and> \<not> aborted (body s)"
  shows "resources_ok base (fst (and_then (and_then (create_socket strerror ans tmp s)
      (with_local strerror cl tmp a body)) (watch strerror add cl ev a))) \<and>
    \<not> aborted (and_then (and_then (create_socket strerror ans tmp s)
      (with_local strerror cl tmp a body)) (watch strerror add cl ev a))"
proof (cases ans)
  case (Inl err)
  then show ?thesis using ok by (simp add: create_socket_def fd_receive_def)
next
  case (Inr fd)
  let ?s1 = "fd_construct tmp fd (s\<lparr>res_open := insert fd (res_open s)\<rparr>)"
  have c: "create_socket strerror ans tmp s = (?s1, Done)"
    using Inr by (simp add: create_socket_def fd_receive_def)
  have fd: "0 \<le> fd" "fd \<notin> res_open s" using fresh Inr by (simp_all add: fresh_answer_def)
  have ok1: "resources_ok base ?s1"
    using construct_ok [OF ok _ fd] tmp(1) by (simp add: vacant_def)
  have s1: "res_fds ?s1 tmp = Some fd" "unwatched tmp ?s1" "res_fds ?s1 a = None" "res_regs ?s1 = res_regs s"
    using a tmp by (simp_all add: fd_construct_def unwatched_def vacant_def)
  show ?thesis
  proof (cases "snd (body ?s1) = Done")
    case True
    then have b: "body ?s1 = (?s1, Done)" using body [of ?s1] by (cases "body ?s1") simp
    let ?s2 = "?s1\<lparr>res_fds := (res_fds ?s1)(a \<mapsto> fd, tmp \<mapsto> -1)\<rparr>"
    note M = fd_move_ok [OF ok1 s1(1,2,3)]
    have s2: "res_fds ?s2 tmp \<noteq> None" "unwatched tmp ?s2" using s1 tmp by (simp_all add: unwatched_def)
    note D = fd_destroy_ok [OF M(2) s2, where strerror = strerror and ans = cl]
    let ?s3 = "fst (fd_destroy strerror cl tmp ?s2)"
    have "with_local strerror cl tmp a body ?s1 = (?s3, Done)"
      using D(2) by (simp add: with_local_def b M(1) prod_eq_iff)
    moreover have "res_fds ?s3 a = Some fd" "res_regs ?s3 a = None" "fd \<noteq> -1"
      using D(3,4) s1 tmp a fd by (simp_all add: vacant_def)
    ultimately show ?thesis
      using watch_object_ok [OF D(1), of a fd] by (simp add: c)
  next
    case False
    obtain x where b: "body ?s1 = (?s1, x)" "x \<noteq> Done" using False body [of ?s1] by (cases "body ?s1") simp
    note D = fd_destroy_ok [OF ok1 _ s1(2), where strerror = strerror and ans = cl]
    have "with_local strerror cl tmp a body ?s1 = (fst (fd_destroy strerror cl tmp ?s1), x)"
      using D(2) s1 b by (cases x) (simp_all add: with_local_def and_then_fst)
    then show ?thesis
      using D(1) s1(1) b body [of ?s1] by (cases x) (simp_all add: c aborted_def)
  qed
qed

lemma socket_construct_ok:
  assumes ok: "resources_ok base s" and b: "res_fds s b \<noteq> None" "unwatched b s" and a: "vacant a s"
  shows "resources_ok base (fst (socket_construct a b s))" "snd (socket_construct a b s) = Done"
proof -
  obtain fd where fd: "res_fds s b = Some fd" using b by blast
  note M = fd_move_ok [OF ok fd b(2), of a]
  have "unwatched a (fst (fd_move a b s))"
    using M(1) a by (simp add: unwatched_def vacant_def)
  then show "resources_ok base (fst (socket_construct a b s))" "snd (socket_construct a b s) = Done"
    using M a idle_reg_ok [of base "fst (fd_move a b s)" a "Some no_registration"]
    by (simp_all add: socket_construct_def vacant_def reg_default_def put_reg_def no_registration_def)
qed

lemma socket_default_ok:
  assumes "resources_ok base s" "vacant a s"
  shows "resources_ok base (socket_default a s)"
  using idle_reg_ok [OF fd_default_ok [of base s a], of a "Some no_registration"] assms
  by (simp add: socket_default_def reg_default_def put_reg_def no_registration_def vacant_def
      unwatched_def fd_default_def fd_construct_def)

text \<open>A socket that watches nothing can be moved; its callbacks stay behind.\<close>

lemma socket_move_ok:
  assumes ok: "resources_ok base s" and b: "res_fds s b \<noteq> None" "res_regs s b = Some r" "\<not> rg_ep r"
    and a: "vacant a s"
  shows "resources_ok base (fst (socket_move strerror cl a b s))" "snd (socket_move strerror cl a b s) = Done"
proof -
  obtain fd where fd: "res_fds s b = Some fd" using b by blast
  have un: "unwatched b s" using b by (simp add: unwatched_def)
  have ab: "a \<noteq> b" using a b by (auto simp: vacant_def)
  note M = fd_move_ok [OF ok fd un, of a]
  let ?s1 = "s\<lparr>res_fds := (res_fds s)(a \<mapsto> fd, b \<mapsto> -1)\<rparr>"
  have m: "fd_move a b s = (?s1, Done)" "resources_ok base ?s1" using M a by (simp_all add: vacant_def)
  have r: "reg_move strerror a b ?s1 = (put_reg b no_registration (put_reg a r ?s1), Done)"
    using b ab by (simp add: reg_move_def reg_update_def put_reg_def)
  have "unwatched a ?s1" using a by (simp add: unwatched_def vacant_def)
  then have 1: "resources_ok base (put_reg a r ?s1)"
    using idle_reg_ok [OF m(2), of a "Some r"] b by (simp add: put_reg_def)
  have "unwatched b (put_reg a r ?s1)" using b ab by (simp add: unwatched_def put_reg_def)
  then have "resources_ok base (put_reg b no_registration (put_reg a r ?s1))"
    using idle_reg_ok [OF 1, of b "Some no_registration"]
    by (simp add: put_reg_def [of b] no_registration_def)
  then show "resources_ok base (fst (socket_move strerror cl a b s))"
    "snd (socket_move strerror cl a b s) = Done"
    by (simp_all add: socket_move_def m(1) r)
qed

lemma socket_update_ok:
  assumes ok: "resources_ok base s" and a: "res_fds s a = Some fd" "fd \<noteq> -1" "res_regs s a \<noteq> None"
    and tmp: "vacant tmp s"
  shows "resources_ok base (fst (socket_update strerror add on_read on_disconnect tmp a s)) \<and>
    \<not> aborted (socket_update strerror add on_read on_disconnect tmp a s)"
proof -
  obtain r where r: "res_regs s a = Some r" using a by blast
  note C = reg_clear_ok [OF ok r, of strerror]
  obtain q where q: "res_regs (fst (reg_clear strerror a s)) = (res_regs s)(a \<mapsto> q)" "\<not> rg_ep q"
    using C(3) by blast
  have "tmp \<noteq> a" using a tmp by (auto simp: vacant_def)
  then have "getfd a (fst (reg_clear strerror a s)) = fd" "res_regs (fst (reg_clear strerror a s)) tmp = None"
    using a(1) tmp C(4) q(1) by (simp_all add: getfd_def vacant_def)
  then show ?thesis
    using C(1,2,4) a q reg_assign_new_ok [OF C(1), of a fd q tmp strerror add]
    by (simp add: socket_update_def Let_def and_then_fst aborted_def)
qed

lemma connection_established_ok:
  assumes ok: "resources_ok base s" and a: "res_fds s a \<noteq> None" "res_regs s a \<noteq> None" and b: "vacant b s"
  shows "resources_ok base (fst (connection_established strerror a b s)) \<and>
    \<not> aborted (connection_established strerror a b s)"
proof -
  obtain r where r: "res_regs s a = Some r" using a by blast
  note C = reg_clear_ok [OF ok r, of strerror]
  have "b \<noteq> a" using a b by (auto simp: vacant_def)
  then have "vacant b (fst (reg_clear strerror a s))"
    using C(3,4) b by (auto simp: vacant_def)
  then have "resources_ok base (fst (socket_construct b a (fst (reg_clear strerror a s))))"
    "snd (socket_construct b a (fst (reg_clear strerror a s))) = Done"
    using socket_construct_ok [OF C(1), of a b] C(4,6) a by simp_all
  then show ?thesis using C(2) by (simp add: connection_established_def and_then_fst aborted_def)
qed

section \<open>The program's use of the classes\<close>

text \<open>
  What the program does with objects, each operation with the answers of the system and the
  addresses of the objects, temporaries included. Descriptors have been given to a timer when
  \<^verbatim>\<open>timerfd_settime\<close> succeeds.
\<close>

datatype io_op =
    Open_file "errno + int" string addr
  | Open_if_exists "errno + int" string addr
  | Open_socket "errno + int" addr
  | Accept "errno + int" addr
  | Pipe "errno + int \<times> int" addr addr
  | Move_fd addr addr
  | Assign_fd "errno option" addr addr addr
  | Destroy_fd "errno option" addr
  | New_eventfd "errno + int" "errno option" "errno option" addr
  | New_signalfd "errno + int" "errno option" "errno option" addr
  | New_timerfd "errno + int" "errno option" "errno option" addr
  | New_server "errno + int" "errno option" "errno option" "errno option" "errno option" addr addr
  | New_connection "errno + int" "errno option" string "errno option" "errno option" addr addr
  | Default_socket addr
  | New_socket addr addr
  | Move_socket "errno option" addr addr
  | Update_socket "errno option" bool bool addr addr
  | Established addr addr
  | Destroy_watched "errno option" addr

fun perform :: "(errno \<Rightarrow> string) \<Rightarrow> io_op \<Rightarrow> resources \<Rightarrow> resources \<times> outcome" where
  "perform e (Open_file ans f a) s = fd_open e ans f a s"
| "perform e (Open_if_exists ans f a) s = fd_open_if_exists e ans f a s"
| "perform e (Open_socket ans a) s = create_socket e ans a s"
| "perform e (Accept ans a) s = accept_socket e ans a s"
| "perform e (Pipe ans a b) s = create_pipe e ans a b s"
| "perform e (Move_fd a b) s = fd_move a b s"
| "perform e (Assign_fd cl tmp a b) s = fd_assign e cl tmp a b s"
| "perform e (Destroy_fd cl a) s = fd_destroy e cl a s"
| "perform e (New_eventfd ans add cl a) s = eventfd_construct e ans add cl a s"
| "perform e (New_signalfd ans add cl a) s = signalfd_construct e ans add cl a s"
| "perform e (New_timerfd ans add cl a) s = timerfd_construct e ans None add cl a s"
| "perform e (New_server ans bound lst add cl tmp a) s =
     stream_server_socket_construct e ans bound lst add cl tmp a s"
| "perform e (New_connection ans con address add cl tmp a) s =
     connection_process_construct e ans con address add cl tmp a s"
| "perform e (Default_socket a) s = (socket_default a s, Done)"
| "perform e (New_socket a b) s = socket_construct a b s"
| "perform e (Move_socket cl a b) s = socket_move e cl a b s"
| "perform e (Update_socket add r d tmp a) s = socket_update e add r d tmp a s"
| "perform e (Established a b) s = connection_established e a b s"
| "perform e (Destroy_watched cl a) s = watched_destroy e cl a s"

text \<open>
  When an operation makes sense: new objects are at vacant addresses, objects that are used
  exist, an answer of a call that opens something is a number that is not open. Two uses are
  left out that the program does not make: the move of a socket that watches, whose callback
  captures the old address, and the update of a socket without a descriptor.
\<close>

definition plain_fd :: "addr \<Rightarrow> resources \<Rightarrow> bool" where
  "plain_fd a s \<longleftrightarrow> res_fds s a \<noteq> None \<and> res_regs s a = None"

definition watched :: "addr \<Rightarrow> resources \<Rightarrow> bool" where
  "watched a s \<longleftrightarrow> res_fds s a \<noteq> None \<and> res_regs s a \<noteq> None"

fun allowed :: "io_op \<Rightarrow> resources \<Rightarrow> bool" where
  "allowed (Open_file ans f a) s \<longleftrightarrow> vacant a s \<and> fresh_answer ans s"
| "allowed (Open_if_exists ans f a) s \<longleftrightarrow> vacant a s \<and> fresh_answer ans s"
| "allowed (Open_socket ans a) s \<longleftrightarrow> vacant a s \<and> fresh_answer ans s"
| "allowed (Accept ans a) s \<longleftrightarrow> vacant a s \<and> fresh_answer ans s"
| "allowed (Pipe ans a b) s \<longleftrightarrow> vacant a s \<and> vacant b s \<and> a \<noteq> b \<and>
     (case ans of Inl err \<Rightarrow> True
      | Inr (x, y) \<Rightarrow> 0 \<le> x \<and> 0 \<le> y \<and> x \<noteq> y \<and> x \<notin> res_open s \<and> y \<notin> res_open s)"
| "allowed (Move_fd a b) s \<longleftrightarrow> vacant a s \<and> plain_fd b s"
| "allowed (Assign_fd cl tmp a b) s \<longleftrightarrow> vacant tmp s \<and> plain_fd a s \<and> plain_fd b s"
| "allowed (Destroy_fd cl a) s \<longleftrightarrow> plain_fd a s"
| "allowed (New_eventfd ans add cl a) s \<longleftrightarrow> vacant a s \<and> fresh_answer ans s"
| "allowed (New_signalfd ans add cl a) s \<longleftrightarrow> vacant a s \<and> fresh_answer ans s"
| "allowed (New_timerfd ans add cl a) s \<longleftrightarrow> vacant a s \<and> fresh_answer ans s"
| "allowed (New_server ans bound lst add cl tmp a) s \<longleftrightarrow>
     vacant a s \<and> vacant tmp s \<and> tmp \<noteq> a \<and> fresh_answer ans s"
| "allowed (New_connection ans con address add cl tmp a) s \<longleftrightarrow>
     vacant a s \<and> vacant tmp s \<and> tmp \<noteq> a \<and> fresh_answer ans s"
| "allowed (Default_socket a) s \<longleftrightarrow> vacant a s"
| "allowed (New_socket a b) s \<longleftrightarrow> vacant a s \<and> plain_fd b s"
| "allowed (Move_socket cl a b) s \<longleftrightarrow> vacant a s \<and> watched b s \<and> unwatched b s"
| "allowed (Update_socket add r d tmp a) s \<longleftrightarrow> vacant tmp s \<and> watched a s \<and> getfd a s \<noteq> -1"
| "allowed (Established a b) s \<longleftrightarrow> watched a s \<and> vacant b s"
| "allowed (Destroy_watched cl a) s \<longleftrightarrow> watched a s"

definition start_resources :: "int set \<Rightarrow> resources" where
  "start_resources base = \<lparr>res_open = base, res_interest = (\<lambda>_. None), res_fds = (\<lambda>_. None),
     res_regs = (\<lambda>_. None), res_cerr = []\<rparr>"

inductive io_runs :: "(errno \<Rightarrow> string) \<Rightarrow> int set \<Rightarrow> resources \<Rightarrow> bool" for e base where
  start: "io_runs e base (start_resources base)"
| perform: "io_runs e base (fst (perform e op s))" if "io_runs e base s" "allowed op s"

lemma start_ok: "-1 \<notin> base \<Longrightarrow> resources_ok base (start_resources base)"
  by (auto simp: start_resources_def resources_ok_def fds_ok_def one_owner_def owned_def listed_def regs_own_def)

lemma plain_unwatched: "plain_fd a s \<Longrightarrow> unwatched a s" "vacant a s \<Longrightarrow> unwatched a s"
  by (simp_all add: plain_fd_def vacant_def unwatched_def)

lemma perform_ok:
  assumes ok: "resources_ok base s" and al: "allowed op s"
  shows "resources_ok base (fst (perform e op s)) \<and> \<not> aborted (perform e op s)"
proof (cases op)
  case (Open_file ans f a)
  then show ?thesis
    using al fd_receive_ok [OF ok, of a ans] by (simp add: fd_open_def vacant_def)
next
  case (Open_if_exists ans f a)
  then show ?thesis
    using al fd_receive_ok [OF ok, of a ans] fd_default_ok [OF ok, of a]
    by (simp add: fd_open_if_exists_def vacant_def fd_default_def)
next
  case (Open_socket ans a)
  then show ?thesis
    using al fd_receive_ok [OF ok, of a ans] by (simp add: create_socket_def vacant_def)
next
  case (Accept ans a)
  then show ?thesis
    using al fd_receive_ok [OF ok, of a ans] fd_default_ok [OF ok, of a]
    by (simp add: accept_socket_def vacant_def)
next
  case (Pipe ans a b)
  show ?thesis
  proof (cases ans)
    case (Inl err)
    then show ?thesis using ok Pipe by (simp add: create_pipe_def)
  next
    case (Inr p)
    obtain x y where p: "p = (x, y)" by force
    let ?s1 = "fd_construct a x (s\<lparr>res_open := insert x (res_open s)\<rparr>)"
    have "resources_ok base ?s1"
      using construct_ok [OF ok, of a x] al Pipe Inr p by (simp add: vacant_def)
    from construct_ok [OF this, of b y]
    have "resources_ok base (fd_construct b y (?s1\<lparr>res_open := insert y (res_open ?s1)\<rparr>))"
      using al Pipe Inr p by (simp add: fd_construct_def vacant_def)
    moreover have "fst (create_pipe e (Inr (x, y)) a b s) =
        fd_construct b y (?s1\<lparr>res_open := insert y (res_open ?s1)\<rparr>)"
      by (simp add: create_pipe_def fd_construct_def insert_commute)
    ultimately show ?thesis using Pipe Inr p by (simp add: create_pipe_def)
  qed
next
  case (Move_fd a b)
  then obtain fd where "res_fds s b = Some fd" using al by (auto simp: plain_fd_def)
  from fd_move_ok [OF ok this, of a] show ?thesis
    using al Move_fd plain_unwatched by (simp add: vacant_def)
next
  case (Assign_fd cl tmp a b)
  then obtain x y where "res_fds s a = Some x" "res_fds s b = Some y" using al by (auto simp: plain_fd_def)
  from fd_assign_ok [OF ok _ _ this, of tmp e cl] show ?thesis
    using al Assign_fd plain_unwatched by (simp add: vacant_def aborted_def)
next
  case (Destroy_fd cl a)
  then show ?thesis
    using al fd_destroy_ok(1,2) [OF ok, of a e cl] plain_unwatched(1) [of a s]
    by (simp add: plain_fd_def aborted_def)
next
  case (New_eventfd ans add cl a)
  then show ?thesis
    using al receive_watch_ok [OF ok, of a ans] by (simp add: eventfd_construct_def open_eventfd_def)
next
  case (New_signalfd ans add cl a)
  then show ?thesis
    using al receive_watch_ok [OF ok, of a ans] by (simp add: signalfd_construct_def open_signalfd_def)
next
  case (New_timerfd ans add cl a)
  have "open_timerfd e ans None a s = fd_receive e ''unable to create timerfd, error: '' ans a s"
    by (simp add: open_timerfd_def fd_receive_def Let_def split: sum.splits)
  then show ?thesis
    using al New_timerfd receive_watch_ok [OF ok, of a ans] by (simp add: timerfd_construct_def)
next
  case (New_server ans bound lst add cl tmp a)
  have "fst (and_then (bind_socket e bound s) (listen_socket e lst)) = s \<and>
      \<not> aborted (and_then (bind_socket e bound s) (listen_socket e lst))" for s
    by (auto simp: bind_socket_def listen_socket_def throw_error_def split: option.splits)
  then show ?thesis
    using al New_server local_socket_ok [OF ok, of a tmp ans]
    by (simp add: stream_server_socket_construct_def prepare_server_socket_def)
next
  case (New_connection ans con address add cl tmp a)
  have "fst (connect_socket e con address s) = s \<and> \<not> aborted (connect_socket e con address s)" for s
    by (auto simp: connect_socket_def throw_error_def split: option.splits)
  then show ?thesis
    using al New_connection local_socket_ok [OF ok, of a tmp ans]
    by (simp add: connection_process_construct_def prepare_client_socket_def)
next
  case (Default_socket a)
  then show ?thesis using al socket_default_ok [OF ok] by simp
next
  case (New_socket a b)
  then show ?thesis
    using al socket_construct_ok [OF ok, of b a] plain_unwatched(1) [of b s]
    by (simp add: plain_fd_def aborted_def)
next
  case (Move_socket cl a b)
  then obtain r where "res_regs s b = Some r" "\<not> rg_ep r"
    using al by (auto simp: watched_def unwatched_def)
  from socket_move_ok [OF ok _ this, of a e cl] show ?thesis
    using al Move_socket by (simp add: watched_def aborted_def)
next
  case (Update_socket add r d tmp a)
  then obtain fd where "res_fds s a = Some fd" "fd \<noteq> -1"
    using al by (auto simp: watched_def getfd_def)
  from socket_update_ok [OF ok this] show ?thesis
    using al Update_socket by (simp add: watched_def)
next
  case (Established a b)
  then show ?thesis using al connection_established_ok [OF ok] by (simp add: watched_def)
next
  case (Destroy_watched cl a)
  then show ?thesis
    using al watched_destroy_ok(1,2) [OF ok, of a e cl] by (simp add: watched_def aborted_def)
qed

lemma io_runs_ok: "io_runs e base s \<Longrightarrow> -1 \<notin> base \<Longrightarrow> resources_ok base s"
  by (induction rule: io_runs.induct) (use start_ok perform_ok in blast)+

section \<open>Two uses that break it\<close>

text \<open>A timer that cannot be set leaves its descriptor open without an owner.\<close>

lemma timerfd_leaks:
  assumes "resources_ok base s" "0 \<le> fd" "fd \<notin> res_open s"
  shows "fd \<in> res_open (fst (timerfd_construct e (Inr fd) (Some err) add cl a s))"
    "res_fds (fst (timerfd_construct e (Inr fd) (Some err) add cl a s)) b \<noteq> Some fd"
    "\<not> fds_ok base (fst (timerfd_construct e (Inr fd) (Some err) add cl a s))"
proof -
  let ?s = "s\<lparr>res_open := insert fd (res_open s)\<rparr>"
  note fds = resources_okD(1) [OF assms(1)]
  have eq: "fst (timerfd_construct e (Inr fd) (Some err) add cl a s) = ?s"
    by (simp add: timerfd_construct_def open_timerfd_def)
  have none: "res_fds s b \<noteq> Some fd" for b
    using fds_okD(4) [OF fds assms(3)] assms(2) by auto
  moreover have "fd \<notin> base" by (rule fds_okD(3) [OF fds assms(3)])
  ultimately show "fd \<in> res_open (fst (timerfd_construct e (Inr fd) (Some err) add cl a s))"
    "res_fds (fst (timerfd_construct e (Inr fd) (Some err) add cl a s)) b \<noteq> Some fd"
    "\<not> fds_ok base (fst (timerfd_construct e (Inr fd) (Some err) add cl a s))"
    by (auto simp: eq fds_ok_iff)
qed

text \<open>
  When a socket that watches is moved, the kernel is told the new address, but the callback goes
  on to the object that was moved from.
\<close>

lemma moved_socket_calls_old_object:
  assumes ok: "resources_ok base s" and b: "res_regs s b = Some r" "rg_ep r" and a: "vacant a s"
  shows "res_regs (fst (socket_move e cl a b s)) a = Some r" "rg_callback r = Some b" "a \<noteq> b"
proof -
  note fd = resources_okD(4,5) [OF ok b]
  show ab: "a \<noteq> b" using a b by (auto simp: vacant_def)
  show "rg_callback r = Some b" by (rule resources_okD(6) [OF ok b])
  let ?s1 = "s\<lparr>res_fds := (res_fds s)(a \<mapsto> rg_fd r, b \<mapsto> -1)\<rparr>"
  have m: "fd_move a b s = (?s1, Done)" by (simp add: fd_move_def fd)
  let ?s2 = "put_reg b (r\<lparr>rg_callback := None\<rparr>) (put_reg a r ?s1)"
  have "reg_update e a ?s2 = (?s2\<lparr>res_interest := (res_interest s)(rg_fd r \<mapsto> (rg_events r, a))\<rparr>, Done)"
    using ab b registered_open [OF ok b] resources_okD(7) [OF ok b]
    by (simp add: reg_update_def put_reg_def epoll_ctl_simps)
  then show "res_regs (fst (socket_move e cl a b s)) a = Some r"
    using ab b by (simp add: socket_move_def m reg_move_def) (simp add: put_reg_def)
qed

section \<open>States that hold the same\<close>

definition same_resources :: "resources \<Rightarrow> resources \<Rightarrow> bool" where
  "same_resources s t \<longleftrightarrow> res_open s = res_open t \<and> res_fds s = res_fds t \<and> res_regs s = res_regs t \<and>
     res_interest s = res_interest t"

lemma same_resources_refl [simp]: "same_resources s s"
  by (simp add: same_resources_def)

lemma same_resources_trans: "same_resources s t \<Longrightarrow> same_resources t u \<Longrightarrow> same_resources s u"
  by (simp add: same_resources_def)

lemma same_resources_sym: "same_resources s t \<Longrightarrow> same_resources t s"
  by (simp add: same_resources_def)

lemma same_resources_ok: "same_resources s t \<Longrightarrow> resources_ok base s = resources_ok base t"
  by (simp add: same_resources_def resources_ok_def fds_ok_iff listed_def regs_own_def)

text \<open>The objects determine what is open and what is watched.\<close>

lemma same_resourcesI:
  assumes s: "resources_ok base s" and t: "resources_ok base t"
    and fds: "res_fds s = res_fds t" and regs: "res_regs s = res_regs t"
  shows "same_resources s t"
proof -
  have "res_open s = res_open t"
    using resources_okD(1) [OF s] resources_okD(1) [OF t] fds by (simp add: fds_ok_def owned_def)
  moreover have "res_interest s fd = res_interest t fd" for fd
  proof -
    have iff: "res_interest s fd = Some p \<longleftrightarrow> res_interest t fd = Some p" for p
      using resources_okD(7,8) [OF s] resources_okD(7,8) [OF t] regs by (cases p) metis
    then show ?thesis by (metis not_None_eq)
  qed
  ultimately show ?thesis using fds regs by (auto simp: same_resources_def)
qed

end
