(* ===== verification/Config_Dump.thy ===== *)
theory Config_Dump
  imports Read_Descriptions Line_Map
begin

text \<open>
  The dump of task descriptions in \<^verbatim>\<open>test-config/main.cpp\<close>, which the program's own tests
  compare with stored output.
\<close>


text \<open>\<^verbatim>\<open>char\<close> is signed: the characters above 127 are below the blank.\<close>

definition signed_char :: "char \<Rightarrow> int" where
  "signed_char c = (if of_char c < (128 :: int) then of_char c else of_char c - 256)"

definition dump_char :: "char \<Rightarrow> string" where
  "dump_char c =
     (if signed_char c < 32 \<or> c \<in> {CHR 0x22, CHR 0x27, CHR 0x5C}
      then CHR 0x5C # CHR ''x'' # show_int (signed_char c) else [c])"

definition dump_string :: "string \<Rightarrow> string" where
  "dump_string s = [CHR 0x22] @ concat (map dump_char s) @ [CHR 0x22]"

definition dump_bool :: "bool \<Rightarrow> string" where
  "dump_bool b = (if b then ''true'' else ''false'')"

definition dump_mount :: "mount_task_data \<Rightarrow> string" where
  "dump_mount d = ''mount'' @ newline @ ''{}'' @ newline"

definition dump_hostname :: "hostname_task_data \<Rightarrow> string" where
  "dump_hostname d = ''sethostname'' @ newline @ ''{'' @ newline @ ''    hostname   = '' @ dump_string (hostname d) @ newline @
     ''    no_restore = '' @ dump_bool (no_restore d) @ newline @ ''}'' @ newline"

definition dump_cmd_line :: "cmd_line \<Rightarrow> string" where
  "dump_cmd_line d = ''['' @ dump_string (executable d) @ concat (map (\<lambda>a. '', '' @ dump_string a) (arguments d)) @ '']''"

definition dump_command :: "command \<Rightarrow> string" where
  "dump_command d = ''command'' @ newline @ ''    {'' @ newline @ ''        cmd = '' @ dump_cmd_line (cmd d) @ newline @
     ''        working_directory = '' @ dump_string (working_directory d) @ newline @ ''    }'' @ newline"

definition dump_control :: "control_task_data \<Rightarrow> string" where
  "dump_control d = ''control'' @ newline @ ''    {'' @ newline @ ''        uds_filename = '' @
     dump_string (uds_filename d) @ newline @ ''    }'' @ newline"

definition dump_start_stop :: "start_stop_task_data \<Rightarrow> string" where
  "dump_start_stop d = ''start_stop'' @ newline @ ''{'' @ newline @ ''    start = '' @ dump_command (start_command d) @ newline @
     ''    stop = '' @ dump_command (stop_command d) @ newline @ ''}'' @ newline"

definition dump_null :: string where
  "dump_null = ''null'' @ newline @ ''{}'' @ newline"

fun dump_data :: "task_data \<Rightarrow> string" where
  "dump_data (Mount_task d) = dump_mount d"
| "dump_data (Hostname_task d) = dump_hostname d"
| "dump_data (Start_stop_task d) = dump_start_stop d"
| "dump_data (Control_task d) = dump_control d"
| "dump_data Null_task = dump_null"

definition dump_dependencies :: "task_descriptions \<Rightarrow> task_description \<Rightarrow> string" where
  "dump_dependencies descrs d =
     (case td_dependencies d of
        [] \<Rightarrow> []
      | i # is \<Rightarrow> td_name d @ '' depends '' @ td_name (all_tasks descrs ! i) @
          concat (map (\<lambda>j. '', '' @ td_name (all_tasks descrs ! j)) is) @ newline)"

definition dump_tasks :: "task_descriptions \<Rightarrow> string" where
  "dump_tasks descrs =
     concat (map (\<lambda>d. ''task '' @ td_name d @ '' = '' @ dump_data (td_data d)) (all_tasks descrs)) @
     concat (map (dump_dependencies descrs) (all_tasks descrs))"

text \<open>The output that a test compares with its stored one.\<close>

definition test_output :: "string \<Rightarrow> string \<Rightarrow> string faulty" where
  "test_output filename fdata =
     bind_faulty (read_descriptions fdata) (\<lambda>(tds, es).
     bind_faulty (error_report filename fdata es) (\<lambda>out. Inr (out @ dump_tasks tds)))"

end
