(* ===== verification/Config_File.thy ===== *)
theory Config_File
  imports Sysapi_Ownership Config_Dump
begin

text \<open>
  Reading the configuration from its file, the outer function \<^verbatim>\<open>read_descriptions\<close> of
  \<^verbatim>\<open>read_task_description.cpp\<close>.
\<close>

section \<open>The configuration file\<close>

text \<open>
  An exception of the file comes out as its text. Otherwise the result is the descriptions with
  what was written to the error stream, or a fault.
\<close>

definition read_descriptions_file ::
    "(errno \<Rightarrow> string) \<Rightarrow> file_answers \<Rightarrow> string \<Rightarrow> addr \<Rightarrow> resources \<Rightarrow>
     (string + (task_descriptions \<times> string) faulty) \<times> resources" where
  "read_descriptions_file strerror fa config_filename a s =
     (case read_entire_file strerror fa config_filename a s of
        (Inl msg, s') \<Rightarrow> (Inl msg, s')
      | (Inr fdata, s') \<Rightarrow>
          (Inr (bind_faulty (read_descriptions fdata) (\<lambda>(tds, es).
             bind_faulty (error_report config_filename fdata es) (\<lambda>out. Inr (tds, out)))), s'))"

section \<open>The file is closed on every path\<close>

lemma read_sized_Inr:
  "read_sized strerror fa fd = Inr u \<longleftrightarrow> fa_stat fa = Inr (length u) \<and> fa_read fa = Inr u"
  by (auto simp: read_sized_def get_stat_def read_exactly_def read_some_def split: sum.splits)

lemma fd_receive_Inr:
  "fd_receive strerror what (Inr fd) a s = (fd_construct a fd (s\<lparr>res_open := insert fd (res_open s)\<rparr>), Done)"
  by (simp add: fd_receive_def)

lemma opened_and_destroyed:
  assumes ok: "resources_ok base s" and a: "vacant a s" and fd: "0 \<le> fd" "fd \<notin> res_open s"
  defines "s1 \<equiv> fd_construct a fd (s\<lparr>res_open := insert fd (res_open s)\<rparr>)"
  shows "fst (fd_destroy strerror None a s1) = s" "getfd a s1 = fd"
    "res_open (fst (fd_destroy strerror cl a s1)) = res_open s"
    "res_fds (fst (fd_destroy strerror cl a s1)) = res_fds s"
    "res_regs (fst (fd_destroy strerror cl a s1)) = res_regs s"
    "res_interest (fst (fd_destroy strerror cl a s1)) = res_interest s"
proof -
  have "res_interest s fd = None" by (rule closed_interest [OF ok fd(2)])
  then have "(res_interest s)(fd := None) = res_interest s" by (simp add: fun_upd_idem)
  moreover have "(res_fds s)(a := None) = res_fds s" using a by (simp add: vacant_def fun_upd_idem)
  moreover have "insert fd (res_open s) - {fd} = res_open s" using fd by blast
  ultimately show "fst (fd_destroy strerror None a s1) = s" "getfd a s1 = fd"
    "res_open (fst (fd_destroy strerror cl a s1)) = res_open s"
    "res_fds (fst (fd_destroy strerror cl a s1)) = res_fds s"
    "res_regs (fst (fd_destroy strerror cl a s1)) = res_regs s"
    "res_interest (fst (fd_destroy strerror cl a s1)) = res_interest s"
    using fd by (auto simp: s1_def fd_construct_def fd_destroy_def sys_close_def log_error_def
        getfd_def split: option.splits)
qed

text \<open>
  Whatever fails, the descriptors, objects and registrations are afterwards what they were; the
  text is the whole file exactly if every call succeeded and as much was read as the size said.
\<close>

lemma read_entire_file_spec:
  assumes ok: "resources_ok base s" and a: "vacant a s" and fresh: "fresh_answer (fa_open fa) s"
  shows "same_resources (snd (read_entire_file strerror fa f a s)) s"
    "fst (read_entire_file strerror fa f a s) = Inr u \<longleftrightarrow>
       (\<exists>fd. fa_open fa = Inr fd) \<and> fa_stat fa = Inr (length u) \<and> fa_read fa = Inr u"
proof -
  have "same_resources (snd (read_entire_file strerror fa f a s)) s \<and>
    (fst (read_entire_file strerror fa f a s) = Inr u \<longleftrightarrow>
       (\<exists>fd. fa_open fa = Inr fd) \<and> fa_stat fa = Inr (length u) \<and> fa_read fa = Inr u)"
  proof (cases "fa_open fa")
    case (Inl err)
    then show ?thesis
      by (simp add: read_entire_file_def fd_open_def fd_receive_def same_resources_def)
  next
    case (Inr fd)
    then have fd: "0 \<le> fd" "fd \<notin> res_open s" using fresh by (simp_all add: fresh_answer_def)
    note D = opened_and_destroyed [OF ok a fd]
    show ?thesis
      using D by (simp add: read_entire_file_def fd_open_def Inr fd_receive_Inr same_resources_def read_sized_Inr)
  qed
  then show "same_resources (snd (read_entire_file strerror fa f a s)) s"
    "fst (read_entire_file strerror fa f a s) = Inr u \<longleftrightarrow>
       (\<exists>fd. fa_open fa = Inr fd) \<and> fa_stat fa = Inr (length u) \<and> fa_read fa = Inr u"
    by blast+
qed

end
