(* ===== verification/Sysapi_Calls.thy ===== *)
theory Sysapi_Calls
  imports Task_Handles
begin

text \<open>
  The wrappers of single system calls and what is built on them: signal masks
  (\<^verbatim>\<open>block_signals.cpp\<close>), the child's side of a fork (\<^verbatim>\<open>process.cpp\<close>), the working directory,
  reboot and loop devices. The answer of a call is an argument; a wrapper gives the text it
  throws, or nothing.
\<close>

definition throw_text :: "(errno \<Rightarrow> string) \<Rightarrow> string \<Rightarrow> errno option \<Rightarrow> string option" where
  "throw_text strerror what ans = map_option (\<lambda>err. what @ errno_to_text strerror err) ans"

section \<open>Signal masks\<close>

type_synonym sigset = "nat set"

definition SIGINT :: nat where "SIGINT = 2"
definition SIGTERM :: nat where "SIGTERM = 15"
definition SIGCHLD :: nat where "SIGCHLD = 17"

text \<open>\<^verbatim>\<open>sigaddset\<close> refuses numbers that are no signals; \<^verbatim>\<open>make_sigset\<close> ignores that.\<close>

definition sigaddset :: "nat \<Rightarrow> sigset \<Rightarrow> sigset" where
  "sigaddset signo sigs = (if 1 \<le> signo \<and> signo \<le> 64 then insert signo sigs else sigs)"

definition make_sigset :: "nat list \<Rightarrow> sigset" where
  "make_sigset ss = foldl (\<lambda>sigs signo. sigaddset signo sigs) {} ss"

text \<open>
  The constructor blocks and remembers the old mask, the result with the new mask; the
  destructor restores it, and only logs a failure.
\<close>

definition block_signals_construct ::
    "(errno \<Rightarrow> string) \<Rightarrow> errno option \<Rightarrow> sigset \<Rightarrow> sigset \<Rightarrow> string + sigset \<times> sigset" where
  "block_signals_construct strerror ans sigs current =
     (case throw_text strerror ''unable to block signals, error: '' ans of
        Some msg \<Rightarrow> Inl msg
      | None \<Rightarrow> Inr (current, current \<union> sigs))"

definition block_signals_destroy ::
    "(errno \<Rightarrow> string) \<Rightarrow> errno option \<Rightarrow> sigset \<Rightarrow> sigset \<Rightarrow> sigset \<times> string list" where
  "block_signals_destroy strerror ans oldset current =
     (case throw_text strerror ''unable to unblock signals, error: '' ans of
        Some msg \<Rightarrow> (current, [msg])
      | None \<Rightarrow> (oldset, []))"

text \<open>
  The mask after the constructor of \<^verbatim>\<open>context\<close>: first the signals that end the program, then
  the one of \<^verbatim>\<open>install_sigchild_handler\<close>.
\<close>

definition context_mask ::
    "(errno \<Rightarrow> string) \<Rightarrow> errno option \<Rightarrow> errno option \<Rightarrow> sigset \<Rightarrow> string + sigset" where
  "context_mask strerror ans1 ans2 start =
     (case block_signals_construct strerror ans1 (make_sigset [SIGINT, SIGTERM]) start of
        Inl msg \<Rightarrow> Inl msg
      | Inr (old1, mask1) \<Rightarrow>
          map_sum id snd (block_signals_construct strerror ans2 (make_sigset [SIGCHLD]) mask1))"

section \<open>Processes\<close>

definition fork_call :: "(errno \<Rightarrow> string) \<Rightarrow> errno + nat \<Rightarrow> string + nat" where
  "fork_call strerror ans = map_sum (\<lambda>err. ''unable to fork, error: '' @ errno_to_text strerror err) id ans"

definition set_current_directory :: "(errno \<Rightarrow> string) \<Rightarrow> errno option \<Rightarrow> string \<Rightarrow> string option" where
  "set_current_directory strerror ans dir =
     throw_text strerror (''unable to set current directory to \"'' @ dir @ ''\", error: '') ans"

definition get_current_directory :: "(errno \<Rightarrow> string) \<Rightarrow> errno + string \<Rightarrow> string + string" where
  "get_current_directory strerror ans =
     map_sum (\<lambda>err. ''unable to get current directory, error: '' @ errno_to_text strerror err) id ans"

text \<open>\<^verbatim>\<open>execv\<close> returns only with an error, so the function always throws.\<close>

definition exec_error :: "(errno \<Rightarrow> string) \<Rightarrow> errno \<Rightarrow> string \<Rightarrow> string" where
  "exec_error strerror err path =
     ''unable to exec \"'' @ path @ ''\", error: '' @ errno_to_text strerror err"

text \<open>
  How the child of a command ends: it becomes the program, with the signal mask it inherited, or
  it logs the exception and exits. The answers are those of \<^verbatim>\<open>chdir\<close> and \<^verbatim>\<open>execv\<close>.
\<close>

datatype child_end = Executes child_program sigset | Exits nat string

definition child_main ::
    "(errno \<Rightarrow> string) \<Rightarrow> errno option \<Rightarrow> errno option \<Rightarrow> sigset \<Rightarrow> command \<Rightarrow> child_end" where
  "child_main strerror chdir exec sigs c =
     (case set_current_directory strerror chdir (working_directory c) of
        Some msg \<Rightarrow> Exits 1 (''error: '' @ msg)
      | None \<Rightarrow>
          (case exec of
             Some err \<Rightarrow> Exits 1 (''error: '' @ exec_error strerror err (executable (cmd c)))
           | None \<Rightarrow> Executes (child_of_command c) sigs))"

definition waitpid_call :: "(errno \<Rightarrow> string) \<Rightarrow> errno + nat \<Rightarrow> nat \<Rightarrow> string + unit faulty" where
  "waitpid_call strerror ans pid =
     (case ans of
        Inl err \<Rightarrow> Inl (''unable to waitpid, error: '' @ errno_to_text strerror err)
      | Inr wpid \<Rightarrow> Inr (if wpid = pid then Inr () else Inl (Assertion_failed ''assert(wpid == pid)'')))"

section \<open>Reboot\<close>

definition reboot_call :: "(errno \<Rightarrow> string) \<Rightarrow> errno option \<Rightarrow> string option" where
  "reboot_call strerror ans = throw_text strerror ''unable to reboot computer, error: '' ans"

definition power_off_call :: "(errno \<Rightarrow> string) \<Rightarrow> errno option \<Rightarrow> string option" where
  "power_off_call strerror ans = throw_text strerror ''unable to power off computer, error: '' ans"

section \<open>Loop devices\<close>

definition loop_device_setfd :: "(errno \<Rightarrow> string) \<Rightarrow> errno option \<Rightarrow> string option" where
  "loop_device_setfd strerror ans =
     map_option (\<lambda>err. ''unable to ioctl LOOP_SET_FD, error: '' @ errno_to_text strerror err @
       (if err = EBUSY then '', loop device is already in use'' else '''')) ans"

definition loop_device_clearfd :: "(errno \<Rightarrow> string) \<Rightarrow> errno option \<Rightarrow> string option" where
  "loop_device_clearfd strerror ans = throw_text strerror ''unable to ioctl LOOP_CLR_FD, error: '' ans"

section \<open>What the masks are\<close>

lemma make_sigset_eq: "make_sigset ss = {s \<in> set ss. 1 \<le> s \<and> s \<le> 64}"
proof -
  have "foldl (\<lambda>sigs signo. sigaddset signo sigs) S ss = S \<union> {s \<in> set ss. 1 \<le> s \<and> s \<le> 64}" for S
    by (induction ss arbitrary: S) (auto simp: sigaddset_def)
  then show ?thesis by (simp add: make_sigset_def)
qed

text \<open>Guards that end in the reverse order of their construction restore the mask.\<close>

lemma block_signals_nested:
  assumes "block_signals_construct e a1 m1 s0 = Inr (o1, s1)"
    and "block_signals_construct e a2 m2 s1 = Inr (o2, s2)"
  shows "s2 = s0 \<union> m1 \<union> m2" "block_signals_destroy e None o2 s2 = (s1, [])"
    "block_signals_destroy e None o1 s1 = (s0, [])"
  using assms
  by (auto simp: block_signals_construct_def block_signals_destroy_def throw_text_def split: option.splits)

text \<open>
  A service inherits the mask of the init process: it starts with the signals blocked that the
  init process blocks for itself, the one that asks a program to terminate among them.
\<close>

lemma services_start_with_blocked_signals:
  assumes "context_mask e a1 a2 start = Inr sigs"
  shows "{SIGINT, SIGTERM, SIGCHLD} \<subseteq> sigs"
    "child_main e None None sigs c = Executes p m \<Longrightarrow> m = sigs"
proof -
  have "make_sigset [SIGINT, SIGTERM] = {SIGINT, SIGTERM}" "make_sigset [SIGCHLD] = {SIGCHLD}"
    by (auto simp: make_sigset_eq SIGINT_def SIGTERM_def SIGCHLD_def)
  then show "{SIGINT, SIGTERM, SIGCHLD} \<subseteq> sigs"
    using assms
    by (auto simp: context_mask_def block_signals_construct_def throw_text_def split: option.splits sum.splits)
  show "child_main e None None sigs c = Executes p m \<Longrightarrow> m = sigs"
    by (simp add: child_main_def set_current_directory_def throw_text_def)
qed

end
