(* ===== verification/Init_Main.thy ===== *)
theory Init_Main
  imports Configured_Init Config_File Sysapi_Calls
begin

text \<open>
  The whole of \<^verbatim>\<open>main\<close> of \<^verbatim>\<open>initd-main.cpp\<close>: the configuration file, the constructor of the context, the
  loop, and what the program does with the computer at the end.
\<close>

section \<open>Destruction\<close>

text \<open>
  The destructor of a handle. That of a start/stop task asserts that nothing runs; a synchronous
  task that runs is destroyed with its adaptor.
\<close>

fun handle_destroy :: "'w os \<Rightarrow> async_task_handle \<Rightarrow> 'w env \<Rightarrow> 'w env \<times> outcome" where
  "handle_destroy os (Start_stop_handle h) e =
     (if ss_running h then (e, Aborted ''assert(!running)'')
      else if ss_current_operation h \<noteq> None then (e, Aborted ''assert(!current_operation)'')
      else (e, Done))"
| "handle_destroy os (Sync_handle h) e =
     (case sa_handle h of
        None \<Rightarrow> (e, Done)
      | Some t \<Rightarrow> (e\<lparr>env_world := destroy_task os t (env_world e)\<rparr>, Done))"

text \<open>Of the members of the context only the tasks do something when they are destroyed.\<close>

definition context_destroy :: "'w os \<Rightarrow> 'w initd_context \<Rightarrow> 'w env \<times> outcome" where
  "context_destroy os c =
     for_each (\<lambda>t. handle_destroy os (t_handle t)) (st_tasks (ctx_state c)) (st_env (ctx_state c))"

definition start_stop_active :: "async_task_handle \<Rightarrow> bool" where
  "start_stop_active h \<longleftrightarrow> (\<exists>t. h = Start_stop_handle t) \<and> (h_is_running h \<or> h_is_in_transition h)"

lemma handle_destroy_cases:
  "aborted (handle_destroy os h e) \<longleftrightarrow> start_stop_active h"
  "\<not> start_stop_active h \<Longrightarrow> snd (handle_destroy os h e) = Done"
  by (cases h; auto simp: start_stop_active_def aborted_def ss_is_in_transition_def split: option.splits)+

lemma destroy_all_cases:
  "if \<exists>t \<in> set ts. start_stop_active (t_handle t)
   then aborted (for_each (\<lambda>t. handle_destroy os (t_handle t)) ts e)
   else snd (for_each (\<lambda>t. handle_destroy os (t_handle t)) ts e) = Done"
proof (induction ts arbitrary: e)
  case (Cons t ts)
  show ?case
  proof (cases "start_stop_active (t_handle t)")
    case True
    then have "aborted (handle_destroy os (t_handle t) e)" by (simp add: handle_destroy_cases)
    then show ?thesis using True by (simp add: aborted_and_then)
  next
    case False
    then obtain e' where "handle_destroy os (t_handle t) e = (e', Done)"
      using handle_destroy_cases(2) by (metis prod.collapse)
    then show ?thesis using Cons.IH [of e'] False by simp
  qed
qed simp

lemma context_destroy_cases:
  "aborted (context_destroy os c) \<longleftrightarrow> (\<exists>t \<in> set (st_tasks (ctx_state c)). start_stop_active (t_handle t))"
  "\<not> aborted (context_destroy os c) \<Longrightarrow> snd (context_destroy os c) = Done"
  using destroy_all_cases [where ts = "st_tasks (ctx_state c)" and os = os and e = "st_env (ctx_state c)"]
  unfolding context_destroy_def by (auto simp: aborted_def split: if_splits)

section \<open>Start\<close>

definition config_filename :: "string list \<Rightarrow> string" where
  "config_filename argv = (if 2 \<le> length argv then argv ! 1 else ''default.initd.conf'')"

text \<open>
  What is constructed, with what the reader printed; or the text of the exception, or a fault. The
  object of the file is at \<open>a\<close>. The run level \<^verbatim>\<open>default\<close> is asked for when all members exist, so an
  exception of it destroys them.
\<close>

definition main_start ::
    "'w os \<Rightarrow> file_answers \<Rightarrow> string list \<Rightarrow> addr \<Rightarrow> resources \<Rightarrow> 'w \<Rightarrow>
     string + (task_descriptions \<times> string \<times> 'w initd_context) faulty" where
  "main_start os fa argv a s w =
     (case fst (read_descriptions_file (os_strerror os) fa (config_filename argv) a s) of
        Inl msg \<Rightarrow> Inl msg
      | Inr (Inl fault) \<Rightarrow> Inr (Inl fault)
      | Inr (Inr (tds, out)) \<Rightarrow>
          (case context_construct os tds w of
             (c, Done) \<Rightarrow> Inr (Inr (tds, out, c))
           | (c, Threw msg) \<Rightarrow>
               (case snd (context_destroy os c) of
                  Aborted assertion \<Rightarrow> Inr (Inl (Assertion_failed assertion))
                | _ \<Rightarrow> Inl msg)
           | (c, Aborted msg) \<Rightarrow> Inr (Inl (Assertion_failed msg))))"

section \<open>The end\<close>

text \<open>The loop from a given state; \<open>rs\<close> are the ends of its rounds, the last one first.\<close>

inductive loops ::
    "'w os \<Rightarrow> ('w \<Rightarrow> 'w \<Rightarrow> bool) \<Rightarrow> 'w initd_context \<Rightarrow> outcome list \<Rightarrow> 'w initd_context \<Rightarrow> bool"
  for os nature c0 where
  entered: "loops os nature c0 [] c0"
| stepped: "loops os nature c0 (r # rs) c'"
    if "loops os nature c0 rs c" "step os nature r c c'" "\<not> aborted (c', r)"

lemma loops_runs:
  assumes "loops os nature c0 rs c" "context_construct os tds w = (c0, Done)"
  shows "runs os nature tds rs c"
  using assms(1) by induction (use assms(2) in \<open>auto intro: runs.intros\<close>)

text \<open>
  How \<^verbatim>\<open>main\<close> comes to its last part, and what it does there: an exception before the loop, the end
  of the loop, or an exception of the wait itself. The context is destroyed before. A failed
  assertion ends the program instead.
\<close>

inductive main_ends ::
    "'w os \<Rightarrow> ('w \<Rightarrow> 'w \<Rightarrow> bool) \<Rightarrow> file_answers \<Rightarrow> string list \<Rightarrow> addr \<Rightarrow> resources \<Rightarrow> nat \<Rightarrow>
     system_action faulty \<Rightarrow> bool"
  for os nature fa argv a s pid where
  start_failed: "main_ends os nature fa argv a s pid (Inr (main_end pid None))"
    if "main_start os fa argv a s w = Inl msg"
| start_aborted: "main_ends os nature fa argv a s pid (Inl fault)"
    if "main_start os fa argv a s w = Inr (Inl fault)"
| loop_left: "main_ends os nature fa argv a s pid (Inr (main_end pid (Some (ctx_target c))))"
    if "main_start os fa argv a s w = Inr (Inr (tds, out, c0))" "loops os nature c0 rs c" "\<not> is_active c"
      "snd (context_destroy os c) = Done"
| wait_failed: "main_ends os nature fa argv a s pid (Inr (main_end pid None))"
    if "main_start os fa argv a s w = Inr (Inr (tds, out, c0))" "loops os nature c0 rs c" "is_active c"
      "snd (context_destroy os c) = Done"
| destroy_aborted: "main_ends os nature fa argv a s pid (Inl (Assertion_failed msg))"
    if "main_start os fa argv a s w = Inr (Inr (tds, out, c0))" "loops os nature c0 rs c"
      "snd (context_destroy os c) = Aborted msg"
| round_aborted: "main_ends os nature fa argv a s pid (Inl (Assertion_failed msg))"
    if "main_start os fa argv a s w = Inr (Inr (tds, out, c0))" "loops os nature c0 rs c"
      "step os nature (Aborted msg) c c'"

text \<open>
  The action itself, with what it prints and the error of the call, which is caught; then the
  program ends. For the first process that is the end of the system.
\<close>

fun carry_out :: "(errno \<Rightarrow> string) \<Rightarrow> errno option \<Rightarrow> system_action \<Rightarrow> string list \<times> nat faulty" where
  "carry_out e ans No_action = ([], Inr 0)"
| "carry_out e ans Reboot_system =
     ([''syncing drives...'', ''reboot...''] @
        (case reboot_call e ans of None \<Rightarrow> [] | Some msg \<Rightarrow> [''error: '' @ msg]), Inr 0)"
| "carry_out e ans Power_off_system =
     ([''syncing drives...'', ''power off...''] @
        (case power_off_call e ans of None \<Rightarrow> [] | Some msg \<Rightarrow> [''error: '' @ msg]), Inr 0)"
| "carry_out e ans Assertion_false = ([], Inl (Assertion_failed ''assert(false)''))"

section \<open>What it comes to\<close>

lemma main_end_None: "main_end (Suc 0) None = Reboot_system"
  by (simp add: main_end_def)

text \<open>The first process asks for a reboot or for power off, and its switch is exhaustive.\<close>

lemma main_ends_goes_down:
  assumes "main_ends os nature fa argv a s 1 (Inr act)"
  shows "act \<in> {Reboot_system, Power_off_system}" "snd (carry_out e ans act) = Inr 0"
proof -
  show "act \<in> {Reboot_system, Power_off_system}"
    using assms
  proof cases
    case (loop_left w tds out c0 rs c)
    then show ?thesis by (cases "ctx_target c") (auto simp: main_end_def is_active_def)
  qed (auto simp: main_end_def)
  then show "snd (carry_out e ans act) = Inr 0" by auto
qed

lemma read_descriptions_file_Inr:
  assumes "fst (read_descriptions_file e fa f a s) = Inr (Inr (tds, out))"
  shows "\<exists>u es. fst (read_entire_file e fa f a s) = Inr u \<and> read_descriptions u = Inr (tds, es)"
  using assms
  by (auto simp: read_descriptions_file_def bind_faulty_def split: prod.splits sum.splits)

lemma main_start_Inr:
  assumes "main_start os fa argv a s w = Inr (Inr (tds, out, c))"
  shows "fst (read_descriptions_file (os_strerror os) fa (config_filename argv) a s) = Inr (Inr (tds, out))"
    "context_construct os tds w = (c, Done)"
  using assms unfolding main_start_def by (auto split: sum.splits prod.splits outcome.splits)

lemma start_stop_active_task: "start_stop_active (t_handle t) \<Longrightarrow> t_active t"
  by (auto simp: start_stop_active_def t_active_def)

text \<open>The loop only ends in states that can be destroyed.\<close>

lemma orderly_destruction:
  assumes "runs os nature tds rs c" "descriptions_ok tds" "\<not> is_active c"
  shows "snd (context_destroy os c) = Done"
proof -
  have len: "length (st_tasks (ctx_state c)) = length (all_tasks tds)"
    using runs_sched_inv(3) [OF assms(1,2)] by simp
  have "\<not> start_stop_active (t_handle t)" if "t \<in> set (st_tasks (ctx_state c))" for t
    using that down_when_inactive [OF assms] start_stop_active_task len by (metis in_set_conv_nth)
  then show ?thesis using context_destroy_cases by blast
qed

text \<open>
  A power off is always the orderly end of the loop: with every task of the file stopped.
\<close>

lemma power_off_is_orderly:
  assumes "main_ends os nature fa argv a s 1 (Inr Power_off_system)"
    and fits: "\<And>u. fst (read_entire_file (os_strerror os) fa (config_filename argv) a s) = Inr u \<Longrightarrow> length u < 2 ^ 64"
  shows "\<exists>tds out rs c. runs os nature tds rs c \<and> ctx_target c = Target_power_off \<and>
    fst (read_descriptions_file (os_strerror os) fa (config_filename argv) a s) = Inr (Inr (tds, out)) \<and>
    (\<forall>i < length (all_tasks tds). \<not> is_running i (ctx_state c) \<and> \<not> is_in_transition i (ctx_state c))"
  using assms(1)
proof cases
  case (loop_left w tds out c0 rs c)
  note read = main_start_Inr(1) [OF loop_left(2)]
  note rs = loops_runs [OF loop_left(3) main_start_Inr(2) [OF loop_left(2)]]
  obtain u es where u: "fst (read_entire_file (os_strerror os) fa (config_filename argv) a s) = Inr u"
    "read_descriptions u = Inr (tds, es)"
    using read_descriptions_file_Inr [OF read] by blast
  have "descriptions_ok tds" using read_descriptions_ok [OF u(2) fits [OF u(1)]] .
  then have "\<not> is_running i (ctx_state c) \<and> \<not> is_in_transition i (ctx_state c)"
    if "i < length (all_tasks tds)" for i
    using down_when_inactive [OF rs _ loop_left(4) that] by (simp add: task_views)
  moreover have "ctx_target c = Target_power_off"
    using loop_left(1) by (cases "ctx_target c") (simp_all add: main_end_def)
  ultimately show ?thesis using rs read by blast
qed (simp_all add: main_end_def)

text \<open>
  When the wait fails while a command runs, or a call fails after the first command has been
  started for the run level \<^verbatim>\<open>default\<close>, the exception does not reach its handler: the destructor of
  the task fails an assertion.
\<close>

lemma failed_wait_aborts:
  assumes "main_start os fa argv a s w = Inr (Inr (tds, out, c0))" "loops os nature c0 rs c"
    and "t \<in> set (st_tasks (ctx_state c))" "start_stop_active (t_handle t)"
  shows "\<exists>msg. main_ends os nature fa argv a s pid (Inl (Assertion_failed msg))"
proof -
  have "aborted (context_destroy os c)" using assms(3,4) context_destroy_cases(1) by blast
  then obtain msg where "snd (context_destroy os c) = Aborted msg" by (auto simp: aborted_def split: outcome.splits)
  from main_ends.destroy_aborted [OF assms(1,2) this] show ?thesis by blast
qed

lemma failed_start_aborts:
  assumes "fst (read_descriptions_file (os_strerror os) fa (config_filename argv) a s) = Inr (Inr (tds, out))"
    and "context_construct os tds w = (c, Threw msg)"
    and "t \<in> set (st_tasks (ctx_state c))" "start_stop_active (t_handle t)"
  shows "\<exists>assertion. main_start os fa argv a s w = Inr (Inl (Assertion_failed assertion))"
proof -
  have "aborted (context_destroy os c)" using assms(3,4) context_destroy_cases(1) by blast
  then show ?thesis using assms(1,2) by (auto simp: main_start_def aborted_def split: outcome.splits)
qed

text \<open>
  A configuration file that cannot be read, or that has no run level of the name \<^verbatim>\<open>default\<close>, makes the
  first process restart the computer, which then finds the same file.
\<close>

lemma unreadable_configuration_reboots:
  assumes "fa_open fa = Inl err"
  shows "main_ends os nature fa argv a s 1 (Inr Reboot_system)"
proof -
  have "main_start os fa argv a s w =
      Inl (''unable to open file \"'' @ config_filename argv @ ''\", error: '' @ errno_to_text (os_strerror os) err)" for w
    using assms
    by (simp add: main_start_def read_descriptions_file_def read_entire_file_def fd_open_def fd_receive_def)
  from main_ends.start_failed [OF this, of nature 1] show ?thesis by (simp add: main_end_None)
qed

lemma no_default_level_reboots:
  assumes read: "fst (read_descriptions_file (os_strerror os) fa (config_filename argv) a s) = Inr (Inr (tds, out))"
    and wf: "wf_descriptions tds" and none: "''default'' \<notin> fst ` set (run_level_by_name tds)"
  shows "main_ends os nature fa argv a s 1 (Inr Reboot_system)"
proof -
  have "mm_find (make_run_levels tds) ''default'' = None"
    using none set_make_run_levels [of tds] by (auto simp: mm_find_map_of map_of_eq_None_iff)
  then have cc: "\<exists>c. context_construct os tds w = (c, Threw (''run level \"default\" is not found'')) \<and>
      st_tasks (ctx_state c) = map (\<lambda>j. edge_task (task_handles tds ! j) j (all_edges tds)) [0..<length (all_tasks tds)]"
    for w
    by (simp add: context_construct_def initd_state_construct_eq [OF wf] on_state_def set_run_level_def)
  have fresh: "\<not> start_stop_active (create_async_task_handle d)" for d
    by (cases d) (simp_all add: start_stop_active_def new_start_stop_task_def ss_is_in_transition_def)
  have "main_start os fa argv a s w = Inl (''run level \"default\" is not found'')" for w
  proof -
    obtain c where c: "context_construct os tds w = (c, Threw (''run level \"default\" is not found''))"
      "st_tasks (ctx_state c) = map (\<lambda>j. edge_task (task_handles tds ! j) j (all_edges tds)) [0..<length (all_tasks tds)]"
      using cc [of w] by blast
    have "\<not> aborted (context_destroy os c)"
      unfolding context_destroy_cases(1) c(2) by (auto simp: edge_task_def task_handles_def new_task_def fresh)
    then show ?thesis
      using read c(1) context_destroy_cases(2) [of os c] by (simp add: main_start_def)
  qed
  from main_ends.start_failed [OF this, of nature 1] show ?thesis by (simp add: main_end_None)
qed

text \<open>
  It happens: two services without dependencies, and a system on which the second \<^verbatim>\<open>fork\<close> fails.
\<close>

definition crowded_os :: "nat list os" where
  "crowded_os = simple_os\<lparr>os_fork := (\<lambda>p w. if w = [] then os_fork simple_os p w else (Inl EAGAIN, w))\<rparr>"

definition two_services :: task_descriptions where
  "two_services =
     create_run_level ''default'' [0, 1]
       (snd (create_task_description ''b'' (service ''/bin/b'')
         (snd (create_task_description ''a'' (service ''/bin/a'') empty_descriptions))))"

lemma failed_fork_aborts:
  "\<exists>c msg. context_construct crowded_os two_services [] = (c, Threw msg) \<and> aborted (context_destroy crowded_os c)"
proof -
  have "case context_construct crowded_os two_services [] of
      (c, Threw msg) \<Rightarrow> aborted (context_destroy crowded_os c) | _ \<Rightarrow> False"
    by code_simp
  then show ?thesis by (auto split: prod.splits outcome.splits)
qed

end
