(* ===== verification/Socket_Address.thy ===== *)
theory Socket_Address
  imports Sync_Tasks
begin

text \<open>
  \<^verbatim>\<open>libsysapi/network/socket_address.cpp\<close>: an address is a zeroed \<^verbatim>\<open>sockaddr_storage\<close> with a
  family; of the families only local sockets are ever constructed. Writing past the end of
  \<^verbatim>\<open>sun_path\<close> and reading a path that is not terminated are faults.
\<close>

definition af_unspec :: nat where "af_unspec = 0"
definition af_unix :: nat where "af_unix = 1"
definition af_inet :: nat where "af_inet = 2"
definition af_inet6 :: nat where "af_inet6 = 10"

definition sun_path_size :: nat where "sun_path_size = 108"

record socket_address =
  address_family :: nat
  sun_path :: string

definition empty_address :: socket_address where
  "empty_address = \<lparr>address_family = af_unspec, sun_path = replicate sun_path_size (CHR 0x00)\<rparr>"

text \<open>The sizes of the three structures on the platform.\<close>

definition address_size :: "socket_address \<Rightarrow> nat faulty" where
  "address_size addr =
     (if address_family addr = af_unix then Inr 110
      else if address_family addr = af_inet then Inr 16
      else if address_family addr = af_inet6 then Inr 28
      else Inl (Assertion_failed ''assert(false)''))"

definition strcpy :: "string \<Rightarrow> string \<Rightarrow> string faulty" where
  "strcpy dst src =
     (let s = c_str src in
      if length s < length dst then Inr (s @ CHR 0x00 # drop (Suc (length s)) dst)
      else Inl (Undefined_behaviour ''write past the end of an array''))"

definition unix_domain :: "string \<Rightarrow> string + socket_address faulty" where
  "unix_domain path =
     (let r = empty_address\<lparr>address_family := af_unix\<rparr>;
          max_path_size = length (sun_path r) - 1
      in if length path > max_path_size then Inl (''too long address \"'' @ path @ ''\"'')
         else Inr (bind_faulty (strcpy (sun_path r) path) (\<lambda>p. Inr (r\<lparr>sun_path := p\<rparr>))))"

definition print_address :: "socket_address \<Rightarrow> string faulty" where
  "print_address addr =
     (if address_family addr \<noteq> af_unix then Inl (Assertion_failed ''assert(false)'')
      else if CHR 0x00 \<in> set (sun_path addr) then Inr (c_str (sun_path addr))
      else Inl (Undefined_behaviour ''read past the end of an array''))"

text \<open>
  Every path that fits is stored without a fault, and the address is printed as the path up to
  its first NUL; what does not fit is refused.
\<close>

lemma length_c_str: "length (c_str s) \<le> length s"
  by (simp add: c_str_def length_takeWhile_le)

lemma c_str_append_nul: "CHR 0x00 \<notin> set s \<Longrightarrow> c_str (s @ CHR 0x00 # t) = s"
  by (induction s) (auto simp: c_str_def)

lemma nul_notin_c_str: "CHR 0x00 \<notin> set (c_str s)"
  by (auto simp: c_str_def dest: set_takeWhileD)

lemma unix_domain_fits:
  assumes "length path < sun_path_size"
  shows "\<exists>addr. unix_domain path = Inr (Inr addr) \<and> length (sun_path addr) = sun_path_size \<and>
    address_size addr = Inr 110 \<and> print_address addr = Inr (c_str path)"
proof -
  let ?p = "c_str path @ CHR 0x00 # drop (Suc (length (c_str path))) (replicate sun_path_size (CHR 0x00))"
  have len: "length (c_str path) < sun_path_size" using assms length_c_str [of path] by simp
  then have "unix_domain path = Inr (Inr \<lparr>address_family = af_unix, sun_path = ?p\<rparr>)"
    using assms by (simp add: unix_domain_def strcpy_def empty_address_def Let_def not_less)
  moreover have "c_str ?p = c_str path"
    by (rule c_str_append_nul [OF nul_notin_c_str])
  ultimately show ?thesis
    using len by (simp add: address_size_def print_address_def)
qed

lemma unix_domain_too_long:
  "sun_path_size \<le> length path \<Longrightarrow> unix_domain path = Inl (''too long address \"'' @ path @ ''\"'')"
  by (simp add: unix_domain_def empty_address_def Let_def sun_path_size_def)

end
