(* ===== verification/Initctl.thy ===== *)
theory Initctl
  imports Config_File Bin_Stream Socket_Address
begin

text \<open>
  The whole of \<^verbatim>\<open>initctl/main.cpp\<close>: usage, connection, message, errors and exit status. The local
  descriptor is at \<open>a\<close>; the answers of \<^verbatim>\<open>socket\<close>, \<^verbatim>\<open>connect\<close>, \<^verbatim>\<open>write\<close> and \<^verbatim>\<open>close\<close> are arguments.
\<close>

record client_answers =
  ca_socket :: "errno + int"
  ca_connect :: "errno option"
  ca_write :: "errno + nat"
  ca_close :: "errno option"

definition control_path :: string where
  "control_path = ''/tmp/initd-control''"

definition initctl_usage :: "string \<Rightarrow> string list" where
  "initctl_usage prog =
     [prog @ '' reboot'', ''    reboot computer'', '''',
      prog @ '' poweroff'', ''    turn computer off'', '''',
      prog @ '' runlevel <runlevel name>'', ''    set current runlevel'', '''']"

text \<open>
  The part between the construction of the descriptor and its destruction: the message if it was
  written completely, and how it ends.
\<close>

definition initctl_talk ::
    "(errno \<Rightarrow> string) \<Rightarrow> client_answers \<Rightarrow> byte \<Rightarrow> string list \<Rightarrow> string \<Rightarrow> addr \<Rightarrow> resources \<Rightarrow>
     byte list \<times> outcome" where
  "initctl_talk strerror ca pad argv address a s =
     (case snd (connect_socket strerror (ca_connect ca) address s) of
        Done \<Rightarrow>
          (case initctl_output pad argv of
             Inl msg \<Rightarrow> ([], Threw msg)
           | Inr bs \<Rightarrow>
               (case write_exactly strerror (ca_write ca) (getfd a s) (length bs) of
                  Inl msg \<Rightarrow> ([], Threw msg)
                | Inr u \<Rightarrow> (bs, Done)))
      | x \<Rightarrow> ([], x))"

definition initctl_try ::
    "(errno \<Rightarrow> string) \<Rightarrow> client_answers \<Rightarrow> byte \<Rightarrow> string list \<Rightarrow> addr \<Rightarrow> resources \<Rightarrow>
     (resources \<times> byte list) \<times> outcome" where
  "initctl_try strerror ca pad argv a s =
     (case unix_domain control_path of
        Inl msg \<Rightarrow> ((s, []), Threw msg)
      | Inr (Inl fault) \<Rightarrow> ((s, []), Aborted ''unix_domain'')
      | Inr (Inr remote) \<Rightarrow>
          (case print_address remote of
             Inl fault \<Rightarrow> ((s, []), Aborted ''print_address'')
           | Inr address \<Rightarrow>
               (case create_socket strerror (ca_socket ca) a s of
                  (s1, Done) \<Rightarrow>
                    (case initctl_talk strerror ca pad argv address a s1 of
                       (bs, x) \<Rightarrow> ((fst (fd_destroy strerror (ca_close ca) a s1), bs), x))
                | (s1, x) \<Rightarrow> ((s1, []), x))))"

text \<open>The exit status, what was sent and the state with what was printed; none after an abort.\<close>

definition initctl_main ::
    "(errno \<Rightarrow> string) \<Rightarrow> client_answers \<Rightarrow> byte \<Rightarrow> string list \<Rightarrow> addr \<Rightarrow> resources \<Rightarrow>
     (nat \<times> byte list \<times> resources) option" where
  "initctl_main strerror ca pad argv a s =
     (if length argv < 2 then Some (1, [], s\<lparr>res_cerr := res_cerr s @ initctl_usage (argv ! 0)\<rparr>)
      else (case initctl_try strerror ca pad argv a s of
          ((s1, bs), Done) \<Rightarrow> Some (0, bs, s1)
        | ((s1, bs), Threw msg) \<Rightarrow> Some (0, bs, log_error (''error: '' @ msg) s1)
        | ((s1, bs), Aborted msg) \<Rightarrow> None))"

section \<open>What the exit status says\<close>

lemma connect_socket_cases:
  "snd (connect_socket e ans address s) = Done \<longleftrightarrow> ans = None \<or> ans = Some EINPROGRESS"
  "\<not> aborted (connect_socket e ans address s)"
  by (auto simp: connect_socket_def throw_error_def split: option.splits)

lemma initctl_talk_cases:
  "\<not> aborted (initctl_talk e ca pad argv address a s)"
  "fst (initctl_talk e ca pad argv address a s) = bs \<and> snd (initctl_talk e ca pad argv address a s) = Done \<longleftrightarrow>
     (ca_connect ca = None \<or> ca_connect ca = Some EINPROGRESS) \<and> initctl_output pad argv = Inr bs \<and>
     ca_write ca = Inr (length bs)"
  "snd (initctl_talk e ca pad argv address a s) \<noteq> Done \<Longrightarrow> fst (initctl_talk e ca pad argv address a s) = []"
  using connect_socket_cases [of e "ca_connect ca" address s]
  by (auto simp: initctl_talk_def write_exactly_def write_some_def aborted_def split: outcome.splits sum.splits)

text \<open>
  Once there is an argument the status is that of success, whatever happens; only the output
  tells an error. The socket is closed on every path.
\<close>

lemma initctl_main_status:
  assumes ok: "resources_ok base s" and a: "vacant a s" and fresh: "fresh_answer (ca_socket ca) s"
    and argv: "2 \<le> length argv"
  shows "\<exists>bs s'. initctl_main e ca pad argv a s = Some (0, bs, s') \<and> same_resources s' s \<and>
    (bs \<noteq> [] \<longrightarrow> initctl_output pad argv = Inr bs \<and> ca_write ca = Inr (length bs))"
proof -
  have "length control_path < sun_path_size" by (simp add: control_path_def sun_path_size_def)
  then obtain remote where remote: "unix_domain control_path = Inr (Inr remote)"
    "print_address remote = Inr (c_str control_path)"
    using unix_domain_fits by blast
  show ?thesis
  proof (cases "ca_socket ca")
    case (Inl err)
    then show ?thesis
      using argv by (simp add: initctl_main_def initctl_try_def remote create_socket_def fd_receive_def same_resources_def
          log_error_simps)
  next
    case (Inr fd)
    then have fd: "0 \<le> fd" "fd \<notin> res_open s" using fresh by (simp_all add: fresh_answer_def)
    let ?s1 = "fd_construct a fd (s\<lparr>res_open := insert fd (res_open s)\<rparr>)"
    let ?s2 = "fst (fd_destroy e (ca_close ca) a ?s1)"
    obtain bs x where t: "initctl_talk e ca pad argv (c_str control_path) a ?s1 = (bs, x)" by force
    have tried: "initctl_try e ca pad argv a s = ((?s2, bs), x)"
      by (simp add: initctl_try_def remote create_socket_def Inr fd_receive_Inr t)
    note T = initctl_talk_cases [of e ca pad argv "c_str control_path" a ?s1, unfolded t fst_conv snd_conv]
    have same: "same_resources ?s2 s"
      using opened_and_destroyed [OF ok a fd] by (simp add: same_resources_def)
    have sent: "bs \<noteq> [] \<Longrightarrow> initctl_output pad argv = Inr bs \<and> ca_write ca = Inr (length bs)"
      using T(2,3) by blast
    show ?thesis
    proof (cases x)
      case Done
      then show ?thesis using argv same sent by (simp add: initctl_main_def tried)
    next
      case (Threw msg)
      then show ?thesis using argv same sent
        by (simp add: initctl_main_def tried same_resources_def log_error_simps)
    next
      case (Aborted msg)
      then show ?thesis using T(1) by (simp add: aborted_def)
    qed
  qed
qed

end
