(* ===== verification/Stream_Socket.thy ===== *)
theory Stream_Socket
  imports Sysapi_Ownership
begin

unbundle bit_operations_syntax

text \<open>
  \<^verbatim>\<open>libsysapi/network/stream_socket.cpp\<close>: the callbacks of a socket, which may destroy it while
  it is calling them. To notice this the socket keeps a pointer, \<^verbatim>\<open>destroyed_tag\<close>, to a local
  variable of its callback; its destructor sets the variable. The pointer is not initialised and
  not reset when the callback returns.
\<close>

section \<open>The socket and the frames of its callback\<close>

datatype tag = Indeterminate | Null_tag | Tag_of nat

record socket_object =
  so_on_read :: "nat option"
  so_on_disconnect :: "nat option"
  so_tag :: tag

text \<open>\<open>sw_frames\<close> are the calls under way, with the variable \<^verbatim>\<open>destroyed\<close> of each.\<close>

record socket_world =
  sw_sockets :: "addr \<rightharpoonup> socket_object"
  sw_frames :: "nat \<rightharpoonup> bool"
  sw_res :: resources

definition put_socket :: "addr \<Rightarrow> socket_object \<Rightarrow> socket_world \<Rightarrow> socket_world" where
  "put_socket a so w = w\<lparr>sw_sockets := (sw_sockets w)(a \<mapsto> so)\<rparr>"

definition on_resources ::
    "(resources \<Rightarrow> resources \<times> outcome) \<Rightarrow> socket_world \<Rightarrow> socket_world \<times> outcome" where
  "on_resources f w = (case f (sw_res w) of (s, r) \<Rightarrow> (w\<lparr>sw_res := s\<rparr>, r))"

text \<open>Neither constructor gives the tag a value.\<close>

definition fresh_socket :: socket_object where
  "fresh_socket = \<lparr>so_on_read = None, so_on_disconnect = None, so_tag = Indeterminate\<rparr>"

definition stream_socket_construct :: "addr \<Rightarrow> addr \<Rightarrow> socket_world \<Rightarrow> socket_world \<times> outcome" where
  "stream_socket_construct a b w =
     and_then (on_resources (socket_construct a b) w) (\<lambda>w. (put_socket a fresh_socket w, Done))"

definition stream_socket_move ::
    "(errno \<Rightarrow> string) \<Rightarrow> errno option \<Rightarrow> addr \<Rightarrow> addr \<Rightarrow> socket_world \<Rightarrow> socket_world \<times> outcome" where
  "stream_socket_move strerror cl a b w =
     and_then (on_resources (socket_move strerror cl a b) w)
       (\<lambda>w. (put_socket a fresh_socket w, Done))"

section \<open>Callbacks\<close>

definition update_socket ::
    "(errno \<Rightarrow> string) \<Rightarrow> errno option \<Rightarrow> addr \<Rightarrow> addr \<Rightarrow> socket_world \<Rightarrow> socket_world \<times> outcome" where
  "update_socket strerror add tmp a w =
     (case sw_sockets w a of
        None \<Rightarrow> (w, Aborted ''update of no socket'')
      | Some so \<Rightarrow>
          on_resources (socket_update strerror add (so_on_read so \<noteq> None) (so_on_disconnect so \<noteq> None) tmp a) w)"

definition set_on_read ::
    "(errno \<Rightarrow> string) \<Rightarrow> errno option \<Rightarrow> nat option \<Rightarrow> addr \<Rightarrow> addr \<Rightarrow> socket_world \<Rightarrow> socket_world \<times> outcome" where
  "set_on_read strerror add cb tmp a w =
     (case sw_sockets w a of
        None \<Rightarrow> (w, Aborted ''set_on_read of no socket'')
      | Some so \<Rightarrow> update_socket strerror add tmp a (put_socket a (so\<lparr>so_on_read := cb\<rparr>) w))"

definition set_on_disconnect ::
    "(errno \<Rightarrow> string) \<Rightarrow> errno option \<Rightarrow> nat option \<Rightarrow> addr \<Rightarrow> addr \<Rightarrow> socket_world \<Rightarrow> socket_world \<times> outcome" where
  "set_on_disconnect strerror add cb tmp a w =
     (case sw_sockets w a of
        None \<Rightarrow> (w, Aborted ''set_on_disconnect of no socket'')
      | Some so \<Rightarrow> update_socket strerror add tmp a (put_socket a (so\<lparr>so_on_disconnect := cb\<rparr>) w))"

definition destroyed :: "nat \<Rightarrow> socket_world \<Rightarrow> bool" where
  "destroyed f w \<longleftrightarrow> sw_frames w f = Some True"

definition set_tag :: "addr \<Rightarrow> tag \<Rightarrow> socket_world \<Rightarrow> socket_world" where
  "set_tag a t w =
     (case sw_sockets w a of None \<Rightarrow> w | Some so \<Rightarrow> put_socket a (so\<lparr>so_tag := t\<rparr>) w)"

text \<open>
  One kind of event. \<open>cb\<close> selects the callback, which is called if it is not empty; the flag of
  the result says whether the function returns because the socket is gone.
\<close>

definition handle_event ::
    "(nat \<Rightarrow> socket_world \<Rightarrow> socket_world \<times> outcome) \<Rightarrow> (socket_object \<Rightarrow> nat option) \<Rightarrow> nat \<Rightarrow> addr \<Rightarrow>
     socket_world \<Rightarrow> socket_world \<times> outcome \<times> bool" where
  "handle_event run cb f a w =
     (case sw_sockets w a of
        None \<Rightarrow> (w, Aborted ''use of a destroyed socket'', True)
      | Some so \<Rightarrow>
          (case cb so of
             None \<Rightarrow> (w, Done, False)
           | Some c \<Rightarrow> (case run c w of (w', r) \<Rightarrow> (w', r, r \<noteq> Done \<or> destroyed f w'))))"

definition event_body ::
    "(nat \<Rightarrow> socket_world \<Rightarrow> socket_world \<times> outcome) \<Rightarrow> nat \<Rightarrow> addr \<Rightarrow> uint32 \<Rightarrow> socket_world \<Rightarrow>
     socket_world \<times> outcome" where
  "event_body run f a events w =
     (case (if events AND epollin \<noteq> 0 then handle_event run so_on_read f a w else (w, Done, False)) of
        (w1, r, True) \<Rightarrow> (w1, r)
      | (w1, r, False) \<Rightarrow>
          (case (if events AND epollhup \<noteq> 0 then handle_event run so_on_disconnect f a w1
                 else (w1, Done, False)) of
             (w2, r, True) \<Rightarrow> (w2, r)
           | (w2, r, False) \<Rightarrow>
               (let rest = events AND NOT epollin AND NOT epollhup in
                if rest \<noteq> 0
                then (w2\<lparr>sw_res := log_error (''unknown events type: '' @ show_nat (unat rest)) (sw_res w2)\<rparr>, Done)
                else (w2, Done))))"

text \<open>
  The callback of the registration, in the frame \<open>f\<close>. An exception is thrown again as a copy of
  its base class, which forgets the message.
\<close>

definition socket_event ::
    "(nat \<Rightarrow> socket_world \<Rightarrow> socket_world \<times> outcome) \<Rightarrow> nat \<Rightarrow> addr \<Rightarrow> uint32 \<Rightarrow> socket_world \<Rightarrow>
     socket_world \<times> outcome" where
  "socket_event run f a events w =
     (let enter = (\<lambda>w. set_tag a (Tag_of f) (w\<lparr>sw_frames := (sw_frames w)(f \<mapsto> False)\<rparr>));
          leave = (\<lambda>w. w\<lparr>sw_frames := (sw_frames w)(f := None)\<rparr>) in
      case event_body run f a events (enter w) of
        (w', Threw msg) \<Rightarrow>
          (leave (if destroyed f w' then w' else set_tag a Null_tag w'), Threw ''std::exception'')
      | (w', r) \<Rightarrow> (leave w', r))"

section \<open>The destructor\<close>

text \<open>The body, then the members.\<close>

definition socket_destructor_body :: "addr \<Rightarrow> socket_world \<Rightarrow> socket_world \<times> outcome" where
  "socket_destructor_body a w =
     (case sw_sockets w a of
        None \<Rightarrow> (w, Aborted ''destructor of no socket'')
      | Some so \<Rightarrow>
          (case so_tag so of
             Indeterminate \<Rightarrow> (w, Aborted ''use of an indeterminate pointer'')
           | Null_tag \<Rightarrow> (w, Done)
           | Tag_of f \<Rightarrow>
               (if sw_frames w f = None then (w, Aborted ''write through a dangling pointer'')
                else (w\<lparr>sw_frames := (sw_frames w)(f \<mapsto> True)\<rparr>, Done))))"

definition stream_socket_destroy ::
    "(errno \<Rightarrow> string) \<Rightarrow> errno option \<Rightarrow> addr \<Rightarrow> socket_world \<Rightarrow> socket_world \<times> outcome" where
  "stream_socket_destroy strerror cl a w =
     and_then (socket_destructor_body a w)
       (\<lambda>w. on_resources (watched_destroy strerror cl a) (w\<lparr>sw_sockets := (sw_sockets w)(a := None)\<rparr>))"

section \<open>read_process\<close>

text \<open>
  The callback that reads what is available: the buffer grows before the data is read, so a
  failure leaves zeros in it.
\<close>

definition read_process_receive ::
    "(errno \<Rightarrow> string) \<Rightarrow> errno + int \<Rightarrow> errno + 8 word list \<Rightarrow> int \<Rightarrow> 8 word list \<Rightarrow> 8 word list \<times> outcome" where
  "read_process_receive strerror avail ans fd buffer =
     (case socket_avail_for_read strerror avail of
        Inl msg \<Rightarrow> (buffer, Threw msg)
      | Inr (Inl fault) \<Rightarrow> (buffer, Aborted ''assert(avail >= 0)'')
      | Inr (Inr n) \<Rightarrow>
          (case read_exactly strerror ans fd n of
             Inl msg \<Rightarrow> (buffer @ replicate n 0, Threw msg)
           | Inr bs \<Rightarrow> (buffer @ bs, Done)))"

section \<open>When the destructor is defined\<close>

definition tag_view :: "addr \<Rightarrow> socket_world \<Rightarrow> (nat \<rightharpoonup> bool) \<times> tag option" where
  "tag_view a w = (sw_frames w, map_option so_tag (sw_sockets w a))"

text \<open>Callbacks that leave the socket, its tag and the frames alone.\<close>

definition keeps_socket :: "(nat \<Rightarrow> socket_world \<Rightarrow> socket_world \<times> outcome) \<Rightarrow> addr \<Rightarrow> bool" where
  "keeps_socket run a \<longleftrightarrow> (\<forall>c w. tag_view a (fst (run c w)) = tag_view a w)"

text \<open>A socket through a sequence of events; the last outcome comes first.\<close>

inductive lives ::
    "(nat \<Rightarrow> socket_world \<Rightarrow> socket_world \<times> outcome) \<Rightarrow> addr \<Rightarrow> socket_world \<Rightarrow> outcome list \<Rightarrow>
     socket_world \<Rightarrow> bool"
  for run a w where
  born: "lives run a w [] w"
| event: "lives run a w (r # rs) w''"
    if "lives run a w rs w'" "sw_frames w' f = None" "socket_event run f a ev w' = (w'', r)"

lemma tag_view_simps [simp]:
  "tag_view a (w\<lparr>sw_res := s\<rparr>) = tag_view a w"
  "tag_view a (w\<lparr>sw_frames := m\<rparr>) = (m, snd (tag_view a w))"
  "tag_view a (set_tag a t w) = (fst (tag_view a w), map_option (\<lambda>_. t) (snd (tag_view a w)))"
  "fst (tag_view a w) = sw_frames w"
  "sw_frames (set_tag a t w) = sw_frames w"
  by (simp_all add: tag_view_def set_tag_def put_socket_def option.map_comp comp_def split: option.splits)

lemma handle_event_view:
  assumes "keeps_socket run a"
  shows "tag_view a (fst (handle_event run cb f a w)) = tag_view a w"
proof (cases "sw_sockets w a")
  case (Some so)
  show ?thesis
  proof (cases "cb so")
    case c: (Some c)
    obtain w' r where "run c w = (w', r)" by force
    then show ?thesis
      using assms Some c unfolding keeps_socket_def handle_event_def by (metis (no_types, lifting) case_prod_conv fst_conv option.simps(5))
  qed (simp add: handle_event_def Some)
qed (simp add: handle_event_def)

lemma event_body_view:
  assumes "keeps_socket run a"
  shows "tag_view a (fst (event_body run f a ev w)) = tag_view a w"
proof -
  define h where "h b cb w = (if b then handle_event run cb f a w else (w, Done, False))"
    for b :: bool and cb and w :: socket_world
  have h: "tag_view a (fst (h b cb w)) = tag_view a w" for b cb w
    using handle_event_view [OF assms] by (simp add: h_def)
  obtain w1 r1 g1 where 1: "h (ev AND epollin \<noteq> 0) so_on_read w = (w1, r1, g1)" by (metis prod_cases3)
  obtain w2 r2 g2 where 2: "h (ev AND epollhup \<noteq> 0) so_on_disconnect w1 = (w2, r2, g2)" by (metis prod_cases3)
  have "tag_view a w1 = tag_view a w" "tag_view a w2 = tag_view a w1"
    using h [of "ev AND epollin \<noteq> 0" so_on_read w] h [of "ev AND epollhup \<noteq> 0" so_on_disconnect w1] 1 2
    by simp_all
  then show ?thesis
    using 1 2 unfolding h_def event_body_def Let_def by (cases g1; cases g2) simp_all
qed

lemma socket_event_view:
  assumes keeps: "keeps_socket run a" and f: "sw_frames w f = None" and alive: "sw_sockets w a \<noteq> None"
  shows "tag_view a (fst (socket_event run f a ev w)) =
    (sw_frames w, Some (case snd (socket_event run f a ev w) of Threw msg \<Rightarrow> Null_tag | _ \<Rightarrow> Tag_of f))"
proof -
  let ?enter = "set_tag a (Tag_of f) (w\<lparr>sw_frames := (sw_frames w)(f \<mapsto> False)\<rparr>)"
  obtain t where t: "snd (tag_view a w) = Some t" using alive by (auto simp: tag_view_def)
  obtain w' r where b: "event_body run f a ev ?enter = (w', r)" by force
  have "tag_view a w' = tag_view a ?enter"
    using event_body_view [OF keeps, of f ev ?enter] b by simp
  then have v: "tag_view a w' = ((sw_frames w)(f \<mapsto> False), Some (Tag_of f))" using t by simp
  then have frames: "sw_frames w' = (sw_frames w)(f \<mapsto> False)" by (simp add: tag_view_def)
  then have "\<not> destroyed f w'" by (simp add: destroyed_def)
  moreover have "((sw_frames w)(f \<mapsto> False))(f := None) = sw_frames w" using f by (simp add: fun_upd_idem)
  ultimately show ?thesis
    using v frames unfolding socket_event_def Let_def b by (cases r) simp_all
qed

text \<open>
  While none of its callbacks is running, the destructor of a socket is only defined if the
  last callback ended with an exception.
\<close>

lemma lives_view:
  assumes "lives run a w rs w'" "keeps_socket run a" "tag_view a w = (Map.empty, Some Indeterminate)"
  shows "\<exists>t. tag_view a w' = (Map.empty, Some t) \<and>
    (t = Null_tag \<longleftrightarrow> (\<exists>msg rs'. rs = Threw msg # rs'))"
  using assms
proof (induction rule: lives.induct)
  case (event rs w' f ev w'' r)
  then obtain t where t: "tag_view a w' = (Map.empty, Some t)" by blast
  then have "sw_sockets w' a \<noteq> None" by (auto simp: tag_view_def)
  then have "tag_view a w'' = (sw_frames w', Some (case r of Threw msg \<Rightarrow> Null_tag | _ \<Rightarrow> Tag_of f))"
    using socket_event_view [OF event.prems(1) event.hyps(2), of ev] event.hyps(3) by simp
  moreover have "sw_frames w' = Map.empty" using t by (simp add: tag_view_def)
  ultimately show ?case by (cases r) auto
qed simp

lemma destructor_body_aborts:
  assumes "tag_view a w = (Map.empty, Some t)"
  shows "aborted (socket_destructor_body a w) \<longleftrightarrow> t \<noteq> Null_tag"
  using assms by (auto simp: tag_view_def socket_destructor_body_def split: tag.splits)

text \<open>Inside its own callback a socket can be destroyed, and the callback notices.\<close>

lemma destroyed_in_callback:
  assumes "sw_sockets w a = Some so" "so_tag so = Tag_of f" "sw_frames w f = Some b"
  shows "snd (socket_destructor_body a w) = Done" "destroyed f (fst (socket_destructor_body a w))"
  using assms by (simp_all add: socket_destructor_body_def destroyed_def)

text \<open>A failed read leaves zeros in the buffer.\<close>

lemma failed_read_leaves_zeros:
  "read_process_receive strerror (Inr (int n)) (Inl err) fd buffer =
     (buffer @ replicate n 0, Threw (''unable to read file descriptor \"'' @ show_int fd @ ''\", error: '' @
        errno_to_text strerror err))"
  by (simp add: read_process_receive_def socket_avail_for_read_def read_exactly_def read_some_def)

end
