(* ===== verification/Scoped_Objects.thy ===== *)
theory Scoped_Objects
  imports Initd_Prelude
begin

text \<open>
  The contract of C++ objects that hold something: a constructor that either throws and leaves
  nothing behind, or succeeds and is undone by the destructor. Members of a class are constructed
  in the order of their declaration; when one throws, the members before it are destroyed.
\<close>

text \<open>What happens when \<open>r\<close> throws while an object exists that \<open>cleanup\<close> destroys.\<close>

definition unwinding :: "('s \<Rightarrow> 's \<times> outcome) \<Rightarrow> 's \<times> outcome \<Rightarrow> 's \<times> outcome" where
  "unwinding cleanup r =
     (case r of (w, Threw msg) \<Rightarrow> and_then (cleanup w) (\<lambda>w. (w, Threw msg)) | _ \<Rightarrow> r)"

lemma unwinding_simps [simp]:
  "unwinding cleanup (w, Done) = (w, Done)"
  "unwinding cleanup (w, Aborted msg) = (w, Aborted msg)"
  "unwinding cleanup (w, Threw msg) = and_then (cleanup w) (\<lambda>w. (w, Threw msg))"
  by (simp_all add: unwinding_def)

text \<open>
  \<open>same\<close> says that two states hold the same. The constructor \<open>c\<close> and the destructor \<open>d\<close> are a
  pair on the states of \<open>P\<close>.
\<close>

definition undone_by ::
    "('s \<Rightarrow> 's \<Rightarrow> bool) \<Rightarrow> ('s \<Rightarrow> bool) \<Rightarrow> ('s \<Rightarrow> 's \<times> outcome) \<Rightarrow> ('s \<Rightarrow> 's \<times> outcome) \<Rightarrow> bool" where
  "undone_by same P c d \<longleftrightarrow>
     (\<forall>s. P s \<longrightarrow>
        (case c s of
           (s1, Done) \<Rightarrow> \<forall>s2. same s2 s1 \<longrightarrow> snd (d s2) = Done \<and> same (fst (d s2)) s
         | (s1, Threw msg) \<Rightarrow> same s1 s
         | (s1, Aborted msg) \<Rightarrow> False))"

locale holding =
  fixes same :: "'s \<Rightarrow> 's \<Rightarrow> bool"
  assumes same_refl: "same s s"
    and same_trans: "same s t \<Longrightarrow> same t u \<Longrightarrow> same s u"
begin

lemma undone_byI:
  assumes "\<And>s. P s \<Longrightarrow> \<not> aborted (c s)"
    and "\<And>s msg. P s \<Longrightarrow> snd (c s) = Threw msg \<Longrightarrow> same (fst (c s)) s"
    and "\<And>s s2. P s \<Longrightarrow> snd (c s) = Done \<Longrightarrow> same s2 (fst (c s)) \<Longrightarrow> snd (d s2) = Done \<and> same (fst (d s2)) s"
  shows "undone_by same P c d"
  unfolding undone_by_def
proof (intro allI impI)
  fix s
  assume s: "P s"
  obtain s1 r where c: "c s = (s1, r)" by force
  show "case c s of
      (s1, Done) \<Rightarrow> \<forall>s2. same s2 s1 \<longrightarrow> snd (d s2) = Done \<and> same (fst (d s2)) s
    | (s1, Threw msg) \<Rightarrow> same s1 s
    | (s1, Aborted msg) \<Rightarrow> False"
    using assms [OF s] c by (cases r) (auto simp: aborted_def)
qed

lemma undone_byD:
  assumes "undone_by same P c d" "P s"
  shows "\<not> aborted (c s)" "snd (c s) = Threw msg \<Longrightarrow> same (fst (c s)) s"
    "snd (c s) = Done \<Longrightarrow> same s2 (fst (c s)) \<Longrightarrow> snd (d s2) = Done"
    "snd (c s) = Done \<Longrightarrow> same s2 (fst (c s)) \<Longrightarrow> same (fst (d s2)) s"
proof -
  obtain s1 r where c: "c s = (s1, r)" by force
  have u: "case (s1, r) of
      (s1, Done) \<Rightarrow> \<forall>s2. same s2 s1 \<longrightarrow> snd (d s2) = Done \<and> same (fst (d s2)) s
    | (s1, Threw msg) \<Rightarrow> same s1 s
    | (s1, Aborted msg) \<Rightarrow> False"
    using assms(1) [unfolded undone_by_def, rule_format, OF assms(2)] unfolding c .
  show "\<not> aborted (c s)" "snd (c s) = Threw msg \<Longrightarrow> same (fst (c s)) s"
    "snd (c s) = Done \<Longrightarrow> same s2 (fst (c s)) \<Longrightarrow> snd (d s2) = Done"
    "snd (c s) = Done \<Longrightarrow> same s2 (fst (c s)) \<Longrightarrow> same (fst (d s2)) s"
    using u by (cases r; simp add: c aborted_def)+
qed

text \<open>Two members, one after the other.\<close>

lemma undone_by_seq:
  assumes c1: "undone_by same P c1 d1" and c2: "undone_by same Q c2 d2"
    and between: "\<And>s. P s \<Longrightarrow> snd (c1 s) = Done \<Longrightarrow> Q (fst (c1 s))"
  shows "undone_by same P (\<lambda>s. and_then (c1 s) (\<lambda>s. unwinding d1 (c2 s))) (\<lambda>s. and_then (d2 s) d1)"
proof (rule undone_byI)
  fix s
  assume s: "P s"
  note 1 = undone_byD [OF c1 s]
  obtain s1 r1 where e1: "c1 s = (s1, r1)" by force
  obtain s2 r2 where e2: "c2 s1 = (s2, r2)" by force
  note 2 = undone_byD [OF c2, of s1]
  have Q: "Q s1" if "r1 = Done" using between [OF s] e1 that by simp
  show "\<not> aborted (and_then (c1 s) (\<lambda>s. unwinding d1 (c2 s)))"
  proof (cases r1)
    case Done
    note 2 = 2 [OF Q [OF Done]]
    show ?thesis
    proof (cases r2)
      case (Threw msg)
      then have "same s2 s1" using 2(2) e2 by simp
      then have "snd (d1 s2) = Done" using 1(3) e1 Done by simp
      then show ?thesis using e1 e2 Done Threw by (simp add: and_then_fst aborted_def)
    qed (use 2(1) e1 e2 Done in \<open>simp_all add: aborted_def\<close>)
  qed (use 1(1) e1 in \<open>simp_all add: aborted_def\<close>)
  fix msg
  assume t: "snd (and_then (c1 s) (\<lambda>s. unwinding d1 (c2 s))) = Threw msg"
  show "same (fst (and_then (c1 s) (\<lambda>s. unwinding d1 (c2 s)))) s"
  proof (cases r1)
    case Done
    note 2 = 2 [OF Q [OF Done]]
    obtain m where r2: "r2 = Threw m" using t e1 e2 Done by (cases r2) auto
    then have "same s2 s1" using 2(2) e2 by simp
    then have "snd (d1 s2) = Done" "same (fst (d1 s2)) s" using 1(3,4) e1 Done by simp_all
    then show ?thesis using e1 e2 Done r2 by (simp add: and_then_fst)
  qed (use 1(2) e1 t in auto)
next
  fix s t
  assume s: "P s" and dn: "snd (and_then (c1 s) (\<lambda>s. unwinding d1 (c2 s))) = Done"
    and t: "same t (fst (and_then (c1 s) (\<lambda>s. unwinding d1 (c2 s))))"
  obtain s1 where e1: "c1 s = (s1, Done)" using and_then_DoneE(1) [OF dn] by (cases "c1 s") simp
  obtain s2 r2 where e2: "c2 s1 = (s2, r2)" by force
  have r2: "r2 = Done"
  proof (cases r2)
    case (Threw m)
    then have "snd (and_then (d1 s2) (\<lambda>w. (w, Threw m))) = Done" using dn e1 e2 by simp
    from and_then_DoneE(2) [OF this] show ?thesis by simp
  qed (use dn e1 e2 in simp_all)
  have Q: "Q s1" using between [OF s] e1 by simp
  have "snd (d2 t) = Done" "same (fst (d2 t)) s1"
    using undone_byD(3,4) [OF c2 Q] t e1 e2 r2 by simp_all
  moreover from this(2) have "snd (d1 (fst (d2 t))) = Done" "same (fst (d1 (fst (d2 t)))) s"
    using undone_byD(3,4) [OF c1 s] e1 by simp_all
  ultimately show "snd (and_then (d2 t) d1) = Done \<and> same (fst (and_then (d2 t) d1)) s"
    by (simp add: and_then_fst)
qed

lemma undone_by_mono:
  assumes "undone_by same P c d" "\<And>s. Q s \<Longrightarrow> P s"
  shows "undone_by same Q c d"
  unfolding undone_by_def
  by (intro allI impI, rule assms(1) [unfolded undone_by_def, rule_format]) (rule assms(2))

end

end
