(* ===== verification/Control_Connection.thy ===== *)
theory Control_Connection
  imports Stream_Socket Scoped_Objects
begin

text \<open>
  The connections of the control task as objects: \<^verbatim>\<open>read_process\<close>, the class \<^verbatim>\<open>connection\<close> and
  the map of connections of \<^verbatim>\<open>control_task.cpp\<close>, over the sockets of \<^verbatim>\<open>stream_socket.cpp\<close>. What
  a connection does with the bytes it receives is modelled with the control protocol; here is
  how connections come to be and end.
\<close>

section \<open>read_process\<close>

text \<open>Members are at the address of the socket. An exception that leaves a destructor ends the program.\<close>

definition read_process_construct ::
    "(errno \<Rightarrow> string) \<Rightarrow> errno option \<Rightarrow> nat \<Rightarrow> addr \<Rightarrow> addr \<Rightarrow> socket_world \<Rightarrow> socket_world \<times> outcome" where
  "read_process_construct strerror add cb tmp a w = set_on_read strerror add (Some cb) tmp a w"

definition no_throw :: "'s \<times> outcome \<Rightarrow> 's \<times> outcome" where
  "no_throw r = (case r of (w, Threw msg) \<Rightarrow> (w, Aborted (''terminate: '' @ msg)) | _ \<Rightarrow> r)"

definition read_process_destroy ::
    "(errno \<Rightarrow> string) \<Rightarrow> errno option \<Rightarrow> addr \<Rightarrow> addr \<Rightarrow> socket_world \<Rightarrow> socket_world \<times> outcome" where
  "read_process_destroy strerror add tmp a w = no_throw (set_on_read strerror add None tmp a w)"

section \<open>connection\<close>

definition log_line :: "string \<Rightarrow> socket_world \<Rightarrow> socket_world" where
  "log_line msg w = w\<lparr>sw_res := log_error msg (sw_res w)\<rparr>"

text \<open>
  What \<open>epoll_ctl\<close> and \<open>close\<close> answer to a constructor or destructor, in order: the changes for
  reading and for hanging up, and the close of the descriptor.
\<close>

record answers =
  an_read :: "errno option"
  an_hang_up :: "errno option"
  an_close :: "errno option"

text \<open>The members that were constructed are destroyed when a later step throws.\<close>

definition connection_construct ::
    "(errno \<Rightarrow> string) \<Rightarrow> answers \<Rightarrow> answers \<Rightarrow> nat \<Rightarrow> nat \<Rightarrow> addr \<Rightarrow> addr \<Rightarrow> addr \<Rightarrow> socket_world \<Rightarrow>
     socket_world \<times> outcome" where
  "connection_construct strerror an cl on_ready on_disconnect tmp a fd w =
     and_then (stream_socket_construct a fd w) (\<lambda>w.
       unwinding (stream_socket_destroy strerror (an_close cl) a)
         (and_then (read_process_construct strerror (an_read an) on_ready tmp a w) (\<lambda>w.
            unwinding (read_process_destroy strerror (an_read cl) tmp a)
              (and_then (set_on_disconnect strerror (an_hang_up an) (Some on_disconnect) tmp a w)
                (\<lambda>w. (log_line ''connection created'' w, Done))))))"

definition connection_destroy ::
    "(errno \<Rightarrow> string) \<Rightarrow> answers \<Rightarrow> addr \<Rightarrow> addr \<Rightarrow> socket_world \<Rightarrow> socket_world \<times> outcome" where
  "connection_destroy strerror an tmp a w =
     and_then (no_throw (set_on_disconnect strerror (an_hang_up an) None tmp a w)) (\<lambda>w.
       and_then (read_process_destroy strerror (an_read an) tmp a (log_line ''connection destroyed'' w))
         (stream_socket_destroy strerror (an_close an) a))"

section \<open>The control task\<close>

text \<open>
  \<^verbatim>\<open>control_task_handle\<close> with its map from numbers to connections, in the order of the numbers;
  a connection is named by the address of its socket. \<^verbatim>\<open>next_id\<close> wraps around.
\<close>

record control_world =
  cw_connections :: "(64 word \<times> addr) list"
  cw_next_id :: "64 word"
  cw_world :: socket_world

definition on_world ::
    "(socket_world \<Rightarrow> socket_world \<times> outcome) \<Rightarrow> control_world \<Rightarrow> control_world \<times> outcome" where
  "on_world f c = (case f (cw_world c) of (w, r) \<Rightarrow> (c\<lparr>cw_world := w\<rparr>, r))"

text \<open>
  \<^verbatim>\<open>std::map::insert\<close> keeps an element that is there; the connection that was not inserted is
  destroyed again.
\<close>

definition control_accept ::
    "(errno \<Rightarrow> string) \<Rightarrow> answers \<Rightarrow> answers \<Rightarrow> nat \<Rightarrow> nat \<Rightarrow> addr \<Rightarrow> addr \<Rightarrow> addr \<Rightarrow> control_world \<Rightarrow>
     control_world \<times> outcome" where
  "control_accept strerror an cl on_ready on_disconnect tmp a fd c =
     (let i = cw_next_id c in
      and_then (on_world (connection_construct strerror an cl on_ready on_disconnect tmp a fd)
          (c\<lparr>cw_next_id := i + 1\<rparr>))
        (\<lambda>c. if map_of (cw_connections c) i = None
             then (c\<lparr>cw_connections := insort_key fst (i, a) (cw_connections c)\<rparr>, Done)
             else on_world (connection_destroy strerror cl tmp a) c))"

definition control_disconnect ::
    "(errno \<Rightarrow> string) \<Rightarrow> answers \<Rightarrow> 64 word \<Rightarrow> addr \<Rightarrow> control_world \<Rightarrow> control_world \<times> outcome" where
  "control_disconnect strerror an i tmp c =
     (case map_of (cw_connections c) i of
        None \<Rightarrow> (c, Aborted ''assert(i != connections.end())'')
      | Some a \<Rightarrow>
          on_world (connection_destroy strerror an tmp a)
            (c\<lparr>cw_connections := filter (\<lambda>p. fst p \<noteq> i) (cw_connections c)\<rparr>))"

text \<open>
  The callback of the server: the new descriptor is a local object at \<open>new\<close>, moved into the
  parameter of \<open>on_accept\<close> at \<open>arg\<close>. Both are destroyed afterwards, the parameter first, also when
  \<open>on_accept\<close> throws. An aborted connection is dropped silently.
\<close>

definition destroying ::
    "(errno \<Rightarrow> string) \<Rightarrow> errno option \<Rightarrow> addr \<Rightarrow> control_world \<times> outcome \<Rightarrow> control_world \<times> outcome" where
  "destroying strerror cl a r =
     (case r of
        (c, Aborted msg) \<Rightarrow> (c, Aborted msg)
      | (c, x) \<Rightarrow> and_then (on_world (on_resources (fd_destroy strerror cl a)) c) (\<lambda>c. (c, x)))"

definition server_event ::
    "(errno \<Rightarrow> string) \<Rightarrow> errno + int \<Rightarrow> errno option \<Rightarrow>
     (addr \<Rightarrow> control_world \<Rightarrow> control_world \<times> outcome) \<Rightarrow> uint32 \<Rightarrow> addr \<Rightarrow> addr \<Rightarrow> control_world \<Rightarrow>
     control_world \<times> outcome" where
  "server_event strerror ans cl on_accept events new arg c =
     (if events \<noteq> epollin then (c, Aborted ''assert(event == EPOLLIN)'')
      else and_then (on_world (on_resources (accept_socket strerror ans new)) c)
        (\<lambda>c. destroying strerror cl new
           (if getfd new (sw_res (cw_world c)) = -1 then (c, Done)
            else and_then (on_world (on_resources (fd_move arg new)) c)
              (\<lambda>c. destroying strerror cl arg (on_accept arg c)))))"

text \<open>
  The destructor: its body, then the members in the reverse order of their declaration, the
  connections before the server at \<open>srv\<close>. An error of \<^verbatim>\<open>unlink\<close> is logged.
\<close>

definition control_stop ::
    "(errno \<Rightarrow> string) \<Rightarrow> errno option \<Rightarrow> answers \<Rightarrow> string \<Rightarrow> addr \<Rightarrow> addr \<Rightarrow> control_world \<Rightarrow>
     control_world \<times> outcome" where
  "control_stop strerror unlink an filename srv tmp c =
     (let c1 = (case unlink of
          None \<Rightarrow> c
        | Some err \<Rightarrow> c\<lparr>cw_world := log_line (''unable to unlink \"'' @ filename @ ''\", error: '' @
            errno_to_text strerror err) (cw_world c)\<rparr>)
      in and_then (for_each (\<lambda>p. on_world (connection_destroy strerror an tmp (snd p)))
            (cw_connections c1) (c1\<lparr>cw_connections := []\<rparr>))
          (on_world (on_resources (watched_destroy strerror (an_close an) srv))))"

section \<open>A socket that watches\<close>

text \<open>
  The socket at \<open>a\<close> has the descriptor \<open>fd\<close>, and there is room for a temporary registration.
\<close>

definition socket_ready :: "int set \<Rightarrow> addr \<Rightarrow> addr \<Rightarrow> int \<Rightarrow> resources \<Rightarrow> bool" where
  "socket_ready base tmp a fd s \<longleftrightarrow>
     resources_ok base s \<and> res_fds s a = Some fd \<and> fd \<noteq> -1 \<and> res_regs s a \<noteq> None \<and> vacant tmp s"

lemma socket_readyD:
  assumes "socket_ready base tmp a fd s"
  shows "resources_ok base s" "res_fds s a = Some fd" "fd \<noteq> -1" "\<exists>r. res_regs s a = Some r" "vacant tmp s"
    "tmp \<noteq> a" "getfd a s = fd"
  using assms by (auto simp: socket_ready_def vacant_def getfd_def)

declare log_error_simps [simp]

lemma socket_ready_log [simp]: "socket_ready base tmp a fd (log_error msg s) = socket_ready base tmp a fd s"
  unfolding socket_ready_def log_ok by (simp add: log_error_def vacant_def)

text \<open>Between two states only the registration of \<open>a\<close> and the interest list differ.\<close>

definition only_registers :: "addr \<Rightarrow> resources \<Rightarrow> resources \<Rightarrow> bool" where
  "only_registers a s s' \<longleftrightarrow> res_open s' = res_open s \<and> res_fds s' = res_fds s \<and>
     (\<forall>x. x \<noteq> a \<longrightarrow> res_regs s' x = res_regs s x)"

lemma only_registers_trans: "only_registers a s s' \<Longrightarrow> only_registers a s' s'' \<Longrightarrow> only_registers a s s''"
  by (simp add: only_registers_def)

lemma only_registers_log [simp]:
  "only_registers a s (log_error msg s') = only_registers a s s'"
  "only_registers a (log_error msg s) s' = only_registers a s s'"
  by (simp_all add: only_registers_def)

lemma only_registers_open: "only_registers a s s' \<Longrightarrow> res_open s' = res_open s"
  by (simp add: only_registers_def)

text \<open>An update succeeds if nothing is to be watched or the kernel can add the registration.\<close>

lemma socket_update_keeps:
  assumes ready: "socket_ready base tmp a fd s" and add: "add = None \<or> \<not> r \<and> \<not> d"
  shows "snd (socket_update e add r d tmp a s) = Done"
    "socket_ready base tmp a fd (fst (socket_update e add r d tmp a s))"
    "only_registers a s (fst (socket_update e add r d tmp a s))"
    "r \<or> d \<Longrightarrow> res_interest (fst (socket_update e add r d tmp a s)) fd = Some (socket_events r d, a)"
proof -
  note R = socket_readyD [OF ready]
  obtain reg where reg: "res_regs s a = Some reg" using R(4) by blast
  note clear = reg_clear_ok [OF R(1) reg, of e]
  obtain s1 where c: "reg_clear e a s = (s1, Done)" using clear(2) by (cases "reg_clear e a s") simp
  note C = clear [unfolded c fst_conv snd_conv]
  obtain q where q: "res_regs s1 = (res_regs s)(a \<mapsto> q)" "\<not> rg_ep q" using C(3) by blast
  have fd: "fd \<in> res_open s1" "res_interest s1 fd = None"
    using fds_okD(2) [OF resources_okD(1) [OF C(1)] R(3), of a] unwatched_interest [OF C(1) _ R(3) C(6)] R(2) C(4)
    by simp_all
  have qa: "res_regs s1 a = Some q" and tmp: "res_regs s1 tmp = None" "res_fds s1 tmp = None"
    using q R(5,6) C(4) by (simp_all add: vacant_def)
  have g: "getfd a s1 = fd" using R(2) C(4) by (simp add: getfd_def)
  have ev: "socket_events r d = 0 \<longleftrightarrow> \<not> r \<and> \<not> d" by (simp add: socket_events_def epollin_def epollhup_def)
  have "snd (socket_update e add r d tmp a s) = Done \<and>
    socket_ready base tmp a fd (fst (socket_update e add r d tmp a s)) \<and>
    only_registers a s (fst (socket_update e add r d tmp a s)) \<and>
    (r \<or> d \<longrightarrow> res_interest (fst (socket_update e add r d tmp a s)) fd = Some (socket_events r d, a))"
  proof (cases "r \<or> d")
    case True
    then have "add = None" using add by blast
    then have u: "socket_update e add r d tmp a s = reg_assign_new e None fd (socket_events r d) (Some a) tmp a s1"
      using True by (simp add: socket_update_def Let_def c g ev)
    have "res_fds s1 a = Some fd" using R(2) C(4) by simp
    note ok = reg_assign_new_ok(1) [OF C(1) this R(3) qa q(2) tmp(1), of e None "socket_events r d"]
    note eq = reg_assign_new_eq [OF qa q(2) R(6) fd, of e "socket_events r d" "Some a"]
    have "socket_ready base tmp a fd (fst (socket_update e add r d tmp a s))"
      using ok R(2,3,6) C(4) tmp unfolding u socket_ready_def vacant_def by (simp add: eq)
    moreover have "only_registers a s (fst (socket_update e add r d tmp a s))"
      using C(4,5) q(1) R(5) unfolding u only_registers_def by (simp add: eq vacant_def)
    ultimately show ?thesis unfolding u by (simp add: eq)
  next
    case False
    then have "socket_events r d = 0" using ev by blast
    then have "socket_update e add r d tmp a s = (s1, Done)"
      by (simp add: socket_update_def Let_def c)
    then show ?thesis using False C(1,4,5) R(2,3) qa tmp q(1) by (simp add: socket_ready_def vacant_def only_registers_def)
  qed
  then show "snd (socket_update e add r d tmp a s) = Done"
    "socket_ready base tmp a fd (fst (socket_update e add r d tmp a s))"
    "only_registers a s (fst (socket_update e add r d tmp a s))"
    "r \<or> d \<Longrightarrow> res_interest (fst (socket_update e add r d tmp a s)) fd = Some (socket_events r d, a)"
    by blast+
qed

lemma set_on_read_keeps:
  assumes ready: "socket_ready base tmp a fd (sw_res w)" and so: "sw_sockets w a = Some so"
    and add: "add = None \<or> cb = None \<and> so_on_disconnect so = None"
  shows "\<exists>s. set_on_read e add cb tmp a w =
      (w\<lparr>sw_sockets := (sw_sockets w)(a \<mapsto> so\<lparr>so_on_read := cb\<rparr>), sw_res := s\<rparr>, Done) \<and>
    socket_ready base tmp a fd s \<and> only_registers a (sw_res w) s \<and>
    (cb \<noteq> None \<or> so_on_disconnect so \<noteq> None \<longrightarrow>
       res_interest s fd = Some (socket_events (cb \<noteq> None) (so_on_disconnect so \<noteq> None), a))"
proof -
  have "add = None \<or> \<not> cb \<noteq> None \<and> \<not> so_on_disconnect so \<noteq> None" using add by auto
  from socket_update_keeps [OF ready this, of e] show ?thesis
    using so by (cases "socket_update e add (cb \<noteq> None) (so_on_disconnect so \<noteq> None) tmp a (sw_res w)")
      (auto simp: set_on_read_def update_socket_def put_socket_def on_resources_def)
qed

lemma set_on_disconnect_keeps:
  assumes ready: "socket_ready base tmp a fd (sw_res w)" and so: "sw_sockets w a = Some so"
    and add: "add = None \<or> cb = None \<and> so_on_read so = None"
  shows "\<exists>s. set_on_disconnect e add cb tmp a w =
      (w\<lparr>sw_sockets := (sw_sockets w)(a \<mapsto> so\<lparr>so_on_disconnect := cb\<rparr>), sw_res := s\<rparr>, Done) \<and>
    socket_ready base tmp a fd s \<and> only_registers a (sw_res w) s \<and>
    (cb \<noteq> None \<or> so_on_read so \<noteq> None \<longrightarrow>
       res_interest s fd = Some (socket_events (so_on_read so \<noteq> None) (cb \<noteq> None), a))"
proof -
  have "add = None \<or> \<not> so_on_read so \<noteq> None \<and> \<not> cb \<noteq> None" using add by auto
  from socket_update_keeps [OF ready this, of e] show ?thesis
    using so by (cases "socket_update e add (so_on_read so \<noteq> None) (cb \<noteq> None) tmp a (sw_res w)")
      (auto simp: set_on_disconnect_def update_socket_def put_socket_def on_resources_def)
qed

section \<open>Connections come and go\<close>

lemma stream_socket_construct_ready:
  assumes ok: "resources_ok base (sw_res w)" and b: "res_fds (sw_res w) b = Some fd" "fd \<noteq> -1" "unwatched b (sw_res w)"
    and a: "vacant a (sw_res w)" and tmp: "vacant tmp (sw_res w)" "tmp \<noteq> a"
  shows "\<exists>s. stream_socket_construct a b w =
      (w\<lparr>sw_sockets := (sw_sockets w)(a \<mapsto> fresh_socket), sw_res := s\<rparr>, Done) \<and>
    socket_ready base tmp a fd s \<and>
    only_registers a ((sw_res w)\<lparr>res_fds := (res_fds (sw_res w))(a \<mapsto> fd, b \<mapsto> -1)\<rparr>) s"
proof -
  have b': "res_fds (sw_res w) b \<noteq> None" using b(1) by simp
  have ab: "a \<noteq> b" and tb: "tmp \<noteq> b" using a tmp b(1) by (auto simp: vacant_def)
  let ?s = "reg_default a ((sw_res w)\<lparr>res_fds := (res_fds (sw_res w))(a \<mapsto> fd, b \<mapsto> -1)\<rparr>)"
  have c: "socket_construct a b (sw_res w) = (?s, Done)" by (simp add: socket_construct_def fd_move_def b(1))
  have "resources_ok base ?s" using socket_construct_ok(1) [OF ok b' b(3) a] c by simp
  then have "socket_ready base tmp a fd ?s"
    using b(2) ab tb tmp by (simp add: socket_ready_def reg_default_def put_reg_def vacant_def)
  then show ?thesis
    using c b
    by (intro exI [of _ ?s])
       (simp add: stream_socket_construct_def on_resources_def put_socket_def reg_default_def put_reg_def ab only_registers_def)
qed

text \<open>A new connection watches its descriptor for both events.\<close>

lemma connection_construct_ready:
  assumes ok: "resources_ok base (sw_res w)" and b: "res_fds (sw_res w) b = Some fd" "fd \<noteq> -1" "unwatched b (sw_res w)"
    and a: "vacant a (sw_res w)" and tmp: "vacant tmp (sw_res w)" "tmp \<noteq> a"
    and an: "an_read an = None" "an_hang_up an = None"
  shows "\<exists>s. connection_construct e an cl cr cd tmp a b w =
      (w\<lparr>sw_sockets := (sw_sockets w)(a \<mapsto>
         \<lparr>so_on_read = Some cr, so_on_disconnect = Some cd, so_tag = Indeterminate\<rparr>), sw_res := s\<rparr>, Done) \<and>
    socket_ready base tmp a fd s \<and>
    only_registers a ((sw_res w)\<lparr>res_fds := (res_fds (sw_res w))(a \<mapsto> fd, b \<mapsto> -1)\<rparr>) s \<and>
    res_interest s fd = Some (epollin + epollhup, a)"
proof -
  obtain s1 where 1: "stream_socket_construct a b w =
      (w\<lparr>sw_sockets := (sw_sockets w)(a \<mapsto> fresh_socket), sw_res := s1\<rparr>, Done)"
    "socket_ready base tmp a fd s1"
    "only_registers a ((sw_res w)\<lparr>res_fds := (res_fds (sw_res w))(a \<mapsto> fd, b \<mapsto> -1)\<rparr>) s1"
    using stream_socket_construct_ready [OF ok b a tmp] by blast
  let ?w1 = "w\<lparr>sw_sockets := (sw_sockets w)(a \<mapsto> fresh_socket), sw_res := s1\<rparr>"
  have r1: "socket_ready base tmp a fd (sw_res ?w1)" "sw_sockets ?w1 a = Some fresh_socket" using 1 by simp_all
  obtain s2 where 2: "set_on_read e None (Some cr) tmp a ?w1 =
      (?w1\<lparr>sw_sockets := (sw_sockets ?w1)(a \<mapsto> fresh_socket\<lparr>so_on_read := Some cr\<rparr>), sw_res := s2\<rparr>, Done)"
    "socket_ready base tmp a fd s2" "only_registers a s1 s2"
    using set_on_read_keeps [OF r1, of None "Some cr" e] by auto
  let ?w2 = "?w1\<lparr>sw_sockets := (sw_sockets ?w1)(a \<mapsto> fresh_socket\<lparr>so_on_read := Some cr\<rparr>), sw_res := s2\<rparr>"
  have r2: "socket_ready base tmp a fd (sw_res ?w2)"
    "sw_sockets ?w2 a = Some (fresh_socket\<lparr>so_on_read := Some cr\<rparr>)" using 2 by simp_all
  obtain s3 where 3: "set_on_disconnect e None (Some cd) tmp a ?w2 =
      (?w2\<lparr>sw_sockets := (sw_sockets ?w2)(a \<mapsto> fresh_socket\<lparr>so_on_read := Some cr, so_on_disconnect := Some cd\<rparr>),
         sw_res := s3\<rparr>, Done)"
    "socket_ready base tmp a fd s3" "only_registers a s2 s3"
    "res_interest s3 fd = Some (socket_events True True, a)"
    using set_on_disconnect_keeps [OF r2, of None "Some cd" e] by auto
  have "only_registers a ((sw_res w)\<lparr>res_fds := (res_fds (sw_res w))(a \<mapsto> fd, b \<mapsto> -1)\<rparr>) s3"
    using 1(3) 2(3) 3(3) only_registers_trans by blast
  then show ?thesis
    using 1 2 3 an
    by (intro exI [of _ "log_error ''connection created'' s3"])
       (simp add: connection_construct_def read_process_construct_def unwinding_def log_line_def
         fresh_socket_def socket_events_def)
qed

text \<open>
  A connection that is destroyed by one of its callbacks closes its descriptor and leaves
  nothing behind, and the callback notices; the only call that may not fail is the one that
  registers the socket again for reading.
\<close>

lemma stream_socket_destroy_ready:
  assumes ready: "socket_ready base tmp a fd (sw_res w)"
    and so: "sw_sockets w a = Some so" "so_tag so = Tag_of f" "sw_frames w f \<noteq> None"
  shows "\<exists>s. stream_socket_destroy e cl a w =
      (w\<lparr>sw_frames := (sw_frames w)(f \<mapsto> True), sw_sockets := (sw_sockets w)(a := None), sw_res := s\<rparr>, Done) \<and>
    resources_ok base s \<and> vacant a s \<and> res_open s = res_open (sw_res w) - {fd}"
proof -
  note R = socket_readyD [OF ready]
  have "res_fds (sw_res w) a \<noteq> None" "res_regs (sw_res w) a \<noteq> None" using R by simp_all
  from watched_destroy_ok [OF R(1) this, of e cl] obtain s where
    s: "watched_destroy e cl a (sw_res w) = (s, Done)" "resources_ok base s" "vacant a s"
      "res_open s = res_open (sw_res w) - {fd}"
    using R(7) by (cases "watched_destroy e cl a (sw_res w)") simp
  then show ?thesis
    using so by (auto simp: stream_socket_destroy_def socket_destructor_body_def on_resources_def)
qed

lemma connection_destroy_ready:
  assumes ready: "socket_ready base tmp a fd (sw_res w)"
    and so: "sw_sockets w a = Some so" "so_tag so = Tag_of f" "sw_frames w f \<noteq> None"
    and an: "an_hang_up an = None \<or> so_on_read so = None"
  shows "\<exists>s. connection_destroy e an tmp a w =
      (w\<lparr>sw_frames := (sw_frames w)(f \<mapsto> True), sw_sockets := (sw_sockets w)(a := None), sw_res := s\<rparr>, Done) \<and>
    resources_ok base s \<and> vacant a s \<and> res_open s = res_open (sw_res w) - {fd}"
proof -
  have "an_hang_up an = None \<or> None = (None :: nat option) \<and> so_on_read so = None" using an by blast
  from set_on_disconnect_keeps [OF ready so(1) this, of e] obtain s1 where
    1: "set_on_disconnect e (an_hang_up an) None tmp a w =
      (w\<lparr>sw_sockets := (sw_sockets w)(a \<mapsto> so\<lparr>so_on_disconnect := None\<rparr>), sw_res := s1\<rparr>, Done)"
      "socket_ready base tmp a fd s1" "only_registers a (sw_res w) s1" by blast
  let ?w1 = "w\<lparr>sw_sockets := (sw_sockets w)(a \<mapsto> so\<lparr>so_on_disconnect := None\<rparr>),
    sw_res := log_error ''connection destroyed'' s1\<rparr>"
  have r1: "socket_ready base tmp a fd (sw_res ?w1)" "sw_sockets ?w1 a = Some (so\<lparr>so_on_disconnect := None\<rparr>)"
    using 1 by simp_all
  obtain s2 where 2: "set_on_read e (an_read an) None tmp a ?w1 =
      (?w1\<lparr>sw_sockets := (sw_sockets ?w1)(a \<mapsto> so\<lparr>so_on_disconnect := None, so_on_read := None\<rparr>), sw_res := s2\<rparr>, Done)"
    "socket_ready base tmp a fd s2" "only_registers a s1 s2"
    using set_on_read_keeps [OF r1, of "an_read an" None e] by auto
  let ?w2 = "?w1\<lparr>sw_sockets := (sw_sockets ?w1)(a \<mapsto> so\<lparr>so_on_disconnect := None, so_on_read := None\<rparr>), sw_res := s2\<rparr>"
  have r2: "socket_ready base tmp a fd (sw_res ?w2)"
    "sw_sockets ?w2 a = Some (so\<lparr>so_on_disconnect := None, so_on_read := None\<rparr>)" using 2 by simp_all
  have t: "so_tag (so\<lparr>so_on_disconnect := None, so_on_read := None\<rparr>) = Tag_of f" "sw_frames ?w2 f \<noteq> None"
    using so by simp_all
  from stream_socket_destroy_ready [OF r2 t, of e "an_close an"] obtain s3 where
    3: "stream_socket_destroy e (an_close an) a ?w2 =
      (?w2\<lparr>sw_frames := (sw_frames ?w2)(f \<mapsto> True), sw_sockets := (sw_sockets ?w2)(a := None), sw_res := s3\<rparr>, Done)"
      "resources_ok base s3" "vacant a s3" "res_open s3 = res_open s2 - {fd}" by auto
  show ?thesis
    using 1 2 3 only_registers_open [OF 1(3)] only_registers_open [OF 2(3)]
    by (intro exI [of _ s3])
       (simp add: connection_destroy_def read_process_destroy_def no_throw_def log_line_def)
qed

text \<open>So a peer that hangs up is cleaned up without a trace.\<close>

lemma hang_up_cleans_up:
  assumes ready: "socket_ready base tmp a fd (sw_res w)"
    and so: "sw_sockets w a = Some so" "so_on_disconnect so = Some cd" and f: "sw_frames w f = None"
    and ev: "ev AND epollin = 0" "ev AND epollhup \<noteq> 0"
    and run: "run cd = connection_destroy e an tmp a" and an: "an_hang_up an = None"
  shows "\<exists>s. socket_event run f a ev w =
      (w\<lparr>sw_sockets := (sw_sockets w)(a := None), sw_res := s\<rparr>, Done) \<and>
    resources_ok base s \<and> vacant a s \<and> res_open s = res_open (sw_res w) - {fd}"
proof -
  let ?enter = "set_tag a (Tag_of f) (w\<lparr>sw_frames := (sw_frames w)(f \<mapsto> False)\<rparr>)"
  have e: "?enter = w\<lparr>sw_frames := (sw_frames w)(f \<mapsto> False), sw_sockets := (sw_sockets w)(a \<mapsto> so\<lparr>so_tag := Tag_of f\<rparr>)\<rparr>"
    using so(1) by (simp add: set_tag_def put_socket_def)
  have r: "socket_ready base tmp a fd (sw_res ?enter)" "sw_sockets ?enter a = Some (so\<lparr>so_tag := Tag_of f\<rparr>)"
    "so_tag (so\<lparr>so_tag := Tag_of f\<rparr>) = Tag_of f" "sw_frames ?enter f \<noteq> None"
    using ready by (simp_all add: e)
  from connection_destroy_ready [OF r, of an e] an obtain s where
    s: "connection_destroy e an tmp a ?enter =
      (?enter\<lparr>sw_frames := (sw_frames ?enter)(f \<mapsto> True), sw_sockets := (sw_sockets ?enter)(a := None), sw_res := s\<rparr>, Done)"
      "resources_ok base s" "vacant a s" "res_open s = res_open (sw_res w) - {fd}" by (auto simp: e)
  have "(sw_frames w)(f := None) = sw_frames w" using f by (simp add: fun_upd_idem)
  then show ?thesis
    using s ev so(2) r(2) run
    by (intro exI [of _ s])
       (simp add: socket_event_def event_body_def handle_event_def Let_def destroyed_def e)
qed

text \<open>
  The whole way of a connection that is accepted: the two objects that carry the new descriptor
  are gone, the connection owns it and is in the map under the next number.
\<close>

lemma fd_destroy_moved:
  assumes "res_fds s a = Some (-1)"
  shows "fd_destroy e cl a s = (s\<lparr>res_fds := (res_fds s)(a := None)\<rparr>, Done)"
  using assms by (simp add: fd_destroy_def)

lemma server_event_accepts:
  assumes ok: "resources_ok base (sw_res (cw_world c))" and fd: "0 \<le> fd" "fd \<notin> res_open (sw_res (cw_world c))"
    and vac: "vacant new (sw_res (cw_world c))" "vacant arg (sw_res (cw_world c))"
      "vacant a (sw_res (cw_world c))" "vacant tmp (sw_res (cw_world c))"
    and dist: "distinct [new, arg, a, tmp]"
    and an: "an_read an = None" "an_hang_up an = None"
    and next_id: "map_of (cw_connections c) (cw_next_id c) = None"
  shows "\<exists>s. server_event e (Inr fd) cl (\<lambda>arg. control_accept e an cls cr cd tmp a arg) epollin new arg c =
      (c\<lparr>cw_connections := insort_key fst (cw_next_id c, a) (cw_connections c), cw_next_id := cw_next_id c + 1,
         cw_world := (cw_world c)\<lparr>sw_sockets := (sw_sockets (cw_world c))(a \<mapsto>
           \<lparr>so_on_read = Some cr, so_on_disconnect = Some cd, so_tag = Indeterminate\<rparr>), sw_res := s\<rparr>\<rparr>, Done) \<and>
    res_open s = insert fd (res_open (sw_res (cw_world c))) \<and> res_fds s = (res_fds (sw_res (cw_world c)))(a \<mapsto> fd) \<and>
    res_interest s fd = Some (epollin + epollhup, a)"
proof -
  let ?w = "cw_world c" and ?s = "sw_res (cw_world c)"
  define s1 where "s1 = fd_construct new fd (?s\<lparr>res_open := insert fd (res_open ?s)\<rparr>)"
  define s2 where "s2 = s1\<lparr>res_fds := (res_fds s1)(arg \<mapsto> fd, new \<mapsto> -1)\<rparr>"
  have new1: "res_fds s1 new = Some fd" by (simp add: s1_def fd_construct_def)
  have ok1: "resources_ok base s1" using construct_ok [OF ok _ fd] vac(1) by (simp add: s1_def vacant_def)
  have vac1: "unwatched new s1" "vacant arg s1" "vacant a s1" "vacant tmp s1"
    using vac dist by (simp_all add: s1_def fd_construct_def vacant_def unwatched_def)
  have acc: "accept_socket e (Inr fd) new ?s = (s1, Done)"
    by (simp add: accept_socket_def fd_receive_def s1_def)
  have mv: "fd_move arg new s1 = (s2, Done)" and ok2: "resources_ok base s2"
    using fd_move_ok [OF ok1 new1 vac1(1)] vac1(2) by (simp_all add: vacant_def s2_def)
  have fd2: "res_fds s2 arg = Some fd" "fd \<noteq> -1" "unwatched arg s2" "vacant a s2" "vacant tmp s2" "tmp \<noteq> a"
    using vac1 dist fd by (auto simp: s2_def vacant_def unwatched_def)
  let ?w2 = "?w\<lparr>sw_res := s2\<rparr>"
  obtain s3 where 3: "connection_construct e an cls cr cd tmp a arg ?w2 =
      (?w2\<lparr>sw_sockets := (sw_sockets ?w2)(a \<mapsto>
         \<lparr>so_on_read = Some cr, so_on_disconnect = Some cd, so_tag = Indeterminate\<rparr>), sw_res := s3\<rparr>, Done)"
      "only_registers a (s2\<lparr>res_fds := (res_fds s2)(a \<mapsto> fd, arg \<mapsto> -1)\<rparr>) s3"
      "res_interest s3 fd = Some (epollin + epollhup, a)"
    using connection_construct_ready [of base ?w2 arg fd a tmp an e cls cr cd] ok2 fd2 an by auto
  let ?s4 = "s3\<lparr>res_fds := (res_fds s3)(arg := None, new := None)\<rparr>"
  have fds3: "res_fds s3 = (res_fds ?s)(new \<mapsto> -1, a \<mapsto> fd, arg \<mapsto> -1)" "res_open s3 = insert fd (res_open ?s)"
    using 3(2) dist by (auto simp: only_registers_def s2_def s1_def fd_construct_def)
  then have fds4: "res_fds ?s4 = (res_fds ?s)(a \<mapsto> fd)"
    using vac(1,2) dist by (auto simp: vacant_def fun_eq_iff)
  have "res_fds s3 arg = Some (-1)" "(res_fds s3) new = Some (-1)" using fds3(1) dist by auto
  then show ?thesis
    using 3 fds3(2) fds4 fd(1) dist next_id new1
    by (intro exI [of _ ?s4])
       (simp add: server_event_def on_world_def on_resources_def acc mv destroying_def control_accept_def Let_def
         getfd_def fd_destroy_moved s2_def [symmetric])
qed

section \<open>What goes wrong\<close>

text \<open>
  The socket of a connection that cannot be registered is destroyed at once, with a tag that has
  no value.
\<close>

lemma failed_connection_undefined:
  assumes ok: "resources_ok base (sw_res w)" and b: "res_fds (sw_res w) b = Some fd" "fd \<noteq> -1" "unwatched b (sw_res w)"
    and a: "vacant a (sw_res w)" and tmp: "vacant tmp (sw_res w)" "tmp \<noteq> a"
    and an: "an_read an = Some err"
  shows "aborted (connection_construct e an cl cr cd tmp a b w)"
proof -
  obtain s1 where 1: "stream_socket_construct a b w =
      (w\<lparr>sw_sockets := (sw_sockets w)(a \<mapsto> fresh_socket), sw_res := s1\<rparr>, Done)"
    "socket_ready base tmp a fd s1"
    using stream_socket_construct_ready [OF ok b a tmp] by blast
  let ?w1 = "w\<lparr>sw_sockets := (sw_sockets w)(a \<mapsto> fresh_socket), sw_res := s1\<rparr>"
  note R = socket_readyD [OF 1(2)]
  obtain r where r: "res_regs s1 a = Some r" using R(4) by blast
  note clear = reg_clear_ok [OF R(1) r, of e]
  obtain s2 where c: "reg_clear e a s1 = (s2, Done)" using clear(2) by (cases "reg_clear e a s1") simp
  note C = clear [unfolded c fst_conv snd_conv]
  obtain x where x: "set_on_read e (Some err) (Some cr) tmp a ?w1 =
      (?w1\<lparr>sw_sockets := (sw_sockets ?w1)(a \<mapsto> fresh_socket\<lparr>so_on_read := Some cr\<rparr>), sw_res := s2\<rparr>, Threw x)"
  proof -
    have "\<exists>x. reg_assign_new e (Some err) (getfd a s2) epollin (Some a) tmp a s2 = (s2, Threw x)"
      by (simp add: reg_assign_new_def reg_construct_def epoll_add_def sys_epoll_add_def throw_error_def)
    then show ?thesis
      using that
      by (auto simp: set_on_read_def update_socket_def put_socket_def fresh_socket_def on_resources_def
          socket_update_def socket_events_def epollin_def c)
  qed
  then show ?thesis
    by (simp add: connection_construct_def 1(1) read_process_construct_def an unwinding_def
        stream_socket_destroy_def socket_destructor_body_def fresh_socket_def aborted_def)
qed

text \<open>A destructor of a connection that cannot register the socket again throws: the program ends.\<close>

lemma destroying_may_terminate:
  assumes ready: "socket_ready base tmp a fd (sw_res w)" and so: "sw_sockets w a = Some so" "so_on_read so \<noteq> None"
    and an: "an_hang_up an = Some err"
  shows "aborted (connection_destroy e an tmp a w)"
proof -
  note R = socket_readyD [OF ready]
  obtain r where r: "res_regs (sw_res w) a = Some r" using R(4) by blast
  obtain s2 where c: "reg_clear e a (sw_res w) = (s2, Done)"
    using reg_clear_ok(2) [OF R(1) r, of e] by (cases "reg_clear e a (sw_res w)") simp
  have "\<exists>x. reg_assign_new e (Some err) (getfd a s2) epollin (Some a) tmp a s2 = (s2, Threw x)"
    by (simp add: reg_assign_new_def reg_construct_def epoll_add_def sys_epoll_add_def throw_error_def)
  then obtain x where "set_on_disconnect e (Some err) None tmp a w =
      (w\<lparr>sw_sockets := (sw_sockets w)(a \<mapsto> so\<lparr>so_on_disconnect := None\<rparr>), sw_res := s2\<rparr>, Threw x)"
    using so
    by (auto simp: set_on_disconnect_def update_socket_def put_socket_def on_resources_def
        socket_update_def socket_events_def epollin_def c)
  then show ?thesis by (simp add: connection_destroy_def an no_throw_def aborted_def)
qed

text \<open>
  Connections that nothing happens to when the control task ends: no callback is running, and the
  last one did not throw.
\<close>

definition idle_connection :: "addr \<Rightarrow> socket_world \<Rightarrow> bool" where
  "idle_connection a w \<longleftrightarrow> sw_frames w = Map.empty \<and> (\<exists>so. sw_sockets w a = Some so \<and> so_tag so \<noteq> Null_tag)"

lemma idle_on_resources [simp]: "idle_connection a (fst (on_resources f w)) = idle_connection a w"
  by (cases "f (sw_res w)") (simp add: idle_connection_def on_resources_def)

lemma idle_put_socket:
  "sw_sockets w b = Some so \<Longrightarrow> so_tag so' = so_tag so \<Longrightarrow>
     idle_connection a (put_socket b so' w) = idle_connection a w"
  by (auto simp: idle_connection_def put_socket_def)

lemma put_socket_same [simp]: "sw_sockets (put_socket b so w) b = Some so"
  by (simp add: put_socket_def)

lemma idle_set_callbacks:
  "idle_connection a (fst (set_on_read e add cb tmp b w)) = idle_connection a w"
  "idle_connection a (fst (set_on_disconnect e add cb tmp b w)) = idle_connection a w"
  by (cases "sw_sockets w b";
      simp add: set_on_read_def set_on_disconnect_def update_socket_def idle_put_socket)+

lemma idle_log_line [simp]: "idle_connection a (log_line msg w) = idle_connection a w"
  by (simp add: idle_connection_def log_line_def)

lemma and_then_done_or_aborted:
  assumes "aborted r \<or> snd r = Done \<and> P (fst r)" and "\<And>w. P w \<Longrightarrow> aborted (f w) \<or> snd (f w) = Done \<and> Q (fst (f w))"
  shows "aborted (and_then r f) \<or> snd (and_then r f) = Done \<and> Q (fst (and_then r f))"
  using assms(1) assms(2) [of "fst r"] by (cases r) (auto simp: and_then_def aborted_def split: outcome.splits)

lemma no_throw_done_or_aborted: "aborted (no_throw r) \<or> no_throw r = r \<and> snd r = Done"
  by (cases r; cases "snd r") (auto simp: no_throw_def aborted_def)

lemma watched_destroy_done_or_aborted: "aborted (watched_destroy e cl a s) \<or> snd (watched_destroy e cl a s) = Done"
proof -
  have "aborted (reg_destroy e a s) \<or> snd (reg_destroy e a s) = Done \<and> True"
    by (auto simp: reg_destroy_def aborted_def split: prod.splits outcome.splits)
  moreover have "aborted (fd_destroy e cl a s) \<or> snd (fd_destroy e cl a s) = Done \<and> True" for s
    by (auto simp: fd_destroy_def aborted_def Let_def split: prod.splits option.splits)
  ultimately show ?thesis using and_then_done_or_aborted [of _ "\<lambda>_. True" _ "\<lambda>_. True"]
    unfolding watched_destroy_def by blast
qed

lemma on_resources_snd [simp]: "snd (on_resources f w) = snd (f (sw_res w))"
  by (simp add: on_resources_def split: prod.splits)

text \<open>Destroying such a connection goes wrong, and destroying others does not help.\<close>

lemma idle_stream_socket_destroy:
  assumes "idle_connection a w"
  shows "aborted (stream_socket_destroy e cl b w) \<or>
    snd (stream_socket_destroy e cl b w) = Done \<and> b \<noteq> a \<and> idle_connection a (fst (stream_socket_destroy e cl b w))"
proof (cases "snd (socket_destructor_body b w) = Done")
  case True
  then obtain so where so: "sw_sockets w b = Some so" "so_tag so = Null_tag" "socket_destructor_body b w = (w, Done)"
    using assms by (auto simp: socket_destructor_body_def idle_connection_def split: option.splits tag.splits if_splits)
  then have "b \<noteq> a" using assms by (auto simp: idle_connection_def)
  let ?w = "w\<lparr>sw_sockets := (sw_sockets w)(b := None)\<rparr>"
  have "stream_socket_destroy e cl b w = on_resources (watched_destroy e cl b) ?w"
    by (simp add: stream_socket_destroy_def so(3))
  moreover have "idle_connection a ?w" using assms \<open>b \<noteq> a\<close> by (simp add: idle_connection_def)
  ultimately show ?thesis
    using watched_destroy_done_or_aborted [of e cl b "sw_res w"] \<open>b \<noteq> a\<close> by (simp add: aborted_def)
next
  case False
  then have "aborted (socket_destructor_body b w)"
    by (auto simp: socket_destructor_body_def aborted_def split: option.splits tag.splits if_splits)
  then show ?thesis by (simp add: stream_socket_destroy_def aborted_and_then)
qed

lemma idle_connection_destroy:
  assumes "idle_connection a w"
  shows "aborted (connection_destroy e an tmp b w) \<or>
    snd (connection_destroy e an tmp b w) = Done \<and> b \<noteq> a \<and> idle_connection a (fst (connection_destroy e an tmp b w))"
  unfolding connection_destroy_def read_process_destroy_def
proof (rule and_then_done_or_aborted)
  show "aborted (no_throw (set_on_disconnect e (an_hang_up an) None tmp b w)) \<or>
      snd (no_throw (set_on_disconnect e (an_hang_up an) None tmp b w)) = Done \<and>
      idle_connection a (fst (no_throw (set_on_disconnect e (an_hang_up an) None tmp b w)))"
    using no_throw_done_or_aborted [of "set_on_disconnect e (an_hang_up an) None tmp b w"] assms
    by (auto simp: idle_set_callbacks)
next
  fix w
  let ?r = "set_on_read e (an_read an) None tmp b (log_line ''connection destroyed'' w)"
  assume "idle_connection a w"
  then have "aborted (no_throw ?r) \<or> snd (no_throw ?r) = Done \<and> idle_connection a (fst (no_throw ?r))"
    using no_throw_done_or_aborted [of ?r] by (auto simp: idle_set_callbacks)
  then show "aborted (and_then (no_throw ?r) (stream_socket_destroy e (an_close an) b)) \<or>
      snd (and_then (no_throw ?r) (stream_socket_destroy e (an_close an) b)) = Done \<and>
      b \<noteq> a \<and> idle_connection a (fst (and_then (no_throw ?r) (stream_socket_destroy e (an_close an) b)))"
    by (rule and_then_done_or_aborted) (rule idle_stream_socket_destroy)
qed

lemma idle_destroy_all:
  assumes "idle_connection a (cw_world c)" "a \<in> snd ` set ps"
  shows "aborted (for_each (\<lambda>p. on_world (connection_destroy e an tmp (snd p))) ps c)"
  using assms
proof (induction ps arbitrary: c)
  case (Cons p ps)
  let ?d = "connection_destroy e an tmp (snd p) (cw_world c)"
  obtain w r where d: "?d = (w, r)" by force
  then have ow: "on_world (connection_destroy e an tmp (snd p)) c = (c\<lparr>cw_world := w\<rparr>, r)"
    by (simp add: on_world_def)
  show ?case
  proof (cases "aborted ?d")
    case True
    then have "aborted (on_world (connection_destroy e an tmp (snd p)) c)" using ow d by (simp add: aborted_def)
    then show ?thesis by (simp add: aborted_and_then)
  next
    case False
    then have "r = Done" "snd p \<noteq> a" "idle_connection a w"
      using idle_connection_destroy [OF Cons.prems(1), of e an tmp "snd p"] d by auto
    then show ?thesis using Cons.IH [of "c\<lparr>cw_world := w\<rparr>"] Cons.prems(2) ow by auto
  qed
qed simp

lemma control_stop_undefined:
  assumes "idle_connection a (cw_world c)" "a \<in> snd ` set (cw_connections c)"
  shows "aborted (control_stop e unlink an filename srv tmp c)"
proof -
  define c1 where "c1 = (case unlink of None \<Rightarrow> c
    | Some err \<Rightarrow> c\<lparr>cw_world := log_line (''unable to unlink \"'' @ filename @ ''\", error: '' @
        errno_to_text e err) (cw_world c)\<rparr>)"
  have "idle_connection a (cw_world (c1\<lparr>cw_connections := []\<rparr>))" "a \<in> snd ` set (cw_connections c1)"
    using assms by (simp_all add: c1_def split: option.splits)
  from idle_destroy_all [OF this] show ?thesis
    unfolding control_stop_def Let_def c1_def [symmetric] by (rule aborted_and_then)
qed

end
