(* ===== verification/Context_Members.thy ===== *)
theory Context_Members
  imports Config_File Sysapi_Calls Scoped_Objects
begin

text \<open>
  The members of \<^verbatim>\<open>context\<close> of \<^verbatim>\<open>initd-main.cpp\<close> in the order in which they are constructed: the
  epoll instance, the blocked signals, the descriptor of the termination signals, the handler of
  exited children (\<^verbatim>\<open>sigchild_handler.cpp\<close>), and the callback queues of the tasks. Each can throw
  when a system call fails; then the members before it are destroyed.
\<close>

section \<open>The process\<close>

text \<open>
  Beside the descriptors: the signal mask, the old masks that the two guards keep while they
  exist, and the pointer \<^verbatim>\<open>sigchild_handler::instance\<close>, as the address of the handler's descriptor.
\<close>

record process =
  pr_res :: resources
  pr_mask :: sigset
  pr_term_guard :: "sigset option"
  pr_child_guard :: "sigset option"
  pr_instance :: "addr option"

text \<open>What the system calls of the members answer, and where the members are.\<close>

record member_answers =
  ma_epoll :: "errno + int"
  ma_term_mask :: "errno option"
  ma_term :: "errno + int"
  ma_term_add :: "errno option"
  ma_child_mask :: "errno option"
  ma_child :: "errno + int"
  ma_child_add :: "errno option"
  ma_queue :: "nat \<Rightarrow> errno + int"
  ma_queue_add :: "nat \<Rightarrow> errno option"
  ma_close :: "errno option"
  ma_unmask :: "errno option"

record member_addresses =
  la_epoll :: addr
  la_term :: addr
  la_child :: addr
  la_queue :: "nat \<Rightarrow> addr"

definition on_process :: "(resources \<Rightarrow> resources \<times> outcome) \<Rightarrow> process \<Rightarrow> process \<times> outcome" where
  "on_process f p = (case f (pr_res p) of (s, r) \<Rightarrow> (p\<lparr>pr_res := s\<rparr>, r))"

section \<open>Blocked signals\<close>

text \<open>The two guards of the program, each with its own field.\<close>

definition block ::
    "(errno \<Rightarrow> string) \<Rightarrow> errno option \<Rightarrow> sigset \<Rightarrow> (sigset option \<Rightarrow> process \<Rightarrow> process) \<Rightarrow> process \<Rightarrow>
     process \<times> outcome" where
  "block strerror ans sigs store p =
     (case block_signals_construct strerror ans sigs (pr_mask p) of
        Inl msg \<Rightarrow> (p, Threw msg)
      | Inr (old, new) \<Rightarrow> (store (Some old) (p\<lparr>pr_mask := new\<rparr>), Done))"

definition unblock ::
    "(errno \<Rightarrow> string) \<Rightarrow> errno option \<Rightarrow> (process \<Rightarrow> sigset option) \<Rightarrow>
     (sigset option \<Rightarrow> process \<Rightarrow> process) \<Rightarrow> process \<Rightarrow> process \<times> outcome" where
  "unblock strerror ans kept store p =
     (case kept p of
        None \<Rightarrow> (p, Aborted ''destructor without an object'')
      | Some old \<Rightarrow>
          (case block_signals_destroy strerror ans old (pr_mask p) of
             (mask', errs) \<Rightarrow>
               (store None (p\<lparr>pr_mask := mask', pr_res := fold log_error errs (pr_res p)\<rparr>), Done)))"

abbreviation store_term :: "sigset option \<Rightarrow> process \<Rightarrow> process" where
  "store_term g \<equiv> pr_term_guard_update (\<lambda>_. g)"

abbreviation store_child :: "sigset option \<Rightarrow> process \<Rightarrow> process" where
  "store_child g \<equiv> pr_child_guard_update (\<lambda>_. g)"

section \<open>The handler of exited children\<close>

definition sigchild_handler_construct ::
    "(errno \<Rightarrow> string) \<Rightarrow> member_answers \<Rightarrow> addr \<Rightarrow> process \<Rightarrow> process \<times> outcome" where
  "sigchild_handler_construct strerror an a p =
     and_then (block strerror (ma_child_mask an) (make_sigset [SIGCHLD]) store_child p)
       (\<lambda>p. unwinding (unblock strerror (ma_unmask an) pr_child_guard store_child)
          (on_process (signalfd_construct strerror (ma_child an) (ma_child_add an) (ma_close an) a) p))"

definition sigchild_handler_destroy ::
    "(errno \<Rightarrow> string) \<Rightarrow> member_answers \<Rightarrow> addr \<Rightarrow> process \<Rightarrow> process \<times> outcome" where
  "sigchild_handler_destroy strerror an a p =
     and_then (on_process (watched_destroy strerror (ma_close an) a) p)
       (unblock strerror (ma_unmask an) pr_child_guard store_child)"

text \<open>There is at most one handler, and the pointer to it is set as long as it exists.\<close>

definition install_construct ::
    "(errno \<Rightarrow> string) \<Rightarrow> member_answers \<Rightarrow> addr \<Rightarrow> process \<Rightarrow> process \<times> outcome" where
  "install_construct strerror an a p =
     (if pr_instance p \<noteq> None then (p, Aborted ''assert(!sigchild_handler::instance)'')
      else and_then (sigchild_handler_construct strerror an a p)
        (\<lambda>p. (p\<lparr>pr_instance := Some a\<rparr>, Done)))"

definition install_destroy ::
    "(errno \<Rightarrow> string) \<Rightarrow> member_answers \<Rightarrow> addr \<Rightarrow> process \<Rightarrow> process \<times> outcome" where
  "install_destroy strerror an a p =
     (if pr_instance p \<noteq> Some a then (p, Aborted ''assert(sigchild_handler::instance == handler.get())'')
      else sigchild_handler_destroy strerror an a (p\<lparr>pr_instance := None\<rparr>))"

text \<open>An object that waits for a child needs the handler at both ends of its life.\<close>

definition wait_child_construct ::
    "process \<Rightarrow> nat \<Rightarrow> nat \<Rightarrow> 'w env \<Rightarrow> 'w env \<times> outcome" where
  "wait_child_construct p pid i e =
     (if pr_instance p = None then (e, Aborted ''assert(sigchild_handler::instance)'')
      else sigchild_add pid i e)"

definition wait_child_destroy :: "process \<Rightarrow> nat \<Rightarrow> 'w env \<Rightarrow> 'w env \<times> outcome" where
  "wait_child_destroy p pid e =
     (if pr_instance p = None then (e, Aborted ''assert(sigchild_handler::instance)'')
      else sigchild_remove pid e)"

section \<open>The callback queues of the tasks\<close>

text \<open>The tasks that have a queue: those with a synchronous task behind them.\<close>

definition queued_tasks :: "task_descriptions \<Rightarrow> nat list" where
  "queued_tasks tds =
     filter (\<lambda>i. case create_async_task_handle (td_data (all_tasks tds ! i)) of
               Sync_handle h \<Rightarrow> True | Start_stop_handle h \<Rightarrow> False) [0..<length (all_tasks tds)]"

definition destroy_queues ::
    "(errno \<Rightarrow> string) \<Rightarrow> member_answers \<Rightarrow> member_addresses \<Rightarrow> nat list \<Rightarrow> resources \<Rightarrow> resources \<times> outcome" where
  "destroy_queues strerror an la qs =
     for_each (\<lambda>i. watched_destroy strerror (ma_close an) (la_queue la i)) qs"

text \<open>
  The tasks of the vector are constructed one after the other; \<open>made\<close> are those that exist. The
  vector destroys its elements in their order.
\<close>

fun construct_queues ::
    "(errno \<Rightarrow> string) \<Rightarrow> member_answers \<Rightarrow> member_addresses \<Rightarrow> nat list \<Rightarrow> nat list \<Rightarrow> resources \<Rightarrow>
     resources \<times> outcome" where
  "construct_queues strerror an la made [] s = (s, Done)"
| "construct_queues strerror an la made (i # qs) s =
     (case eventfd_construct strerror (ma_queue an i) (ma_queue_add an i) (ma_close an) (la_queue la i) s of
        (s1, Done) \<Rightarrow> construct_queues strerror an la (made @ [i]) qs s1
      | (s1, x) \<Rightarrow> unwinding (destroy_queues strerror an la made) (s1, x))"

section \<open>The context\<close>

definition members_construct ::
    "(errno \<Rightarrow> string) \<Rightarrow> member_answers \<Rightarrow> member_addresses \<Rightarrow> nat list \<Rightarrow> process \<Rightarrow> process \<times> outcome" where
  "members_construct strerror an la qs p =
     and_then (on_process (epoll_construct strerror (ma_epoll an) (la_epoll la)) p) (\<lambda>p.
     unwinding (on_process (fd_destroy strerror (ma_close an) (la_epoll la)))
     (and_then (block strerror (ma_term_mask an) (make_sigset [SIGINT, SIGTERM]) store_term p) (\<lambda>p.
     unwinding (unblock strerror (ma_unmask an) pr_term_guard store_term)
     (and_then (on_process (signalfd_construct strerror (ma_term an) (ma_term_add an) (ma_close an) (la_term la)) p) (\<lambda>p.
     unwinding (on_process (watched_destroy strerror (ma_close an) (la_term la)))
     (and_then (install_construct strerror an (la_child la) p) (\<lambda>p.
     unwinding (install_destroy strerror an (la_child la))
     (on_process (construct_queues strerror an la [] qs) p))))))))"

definition members_destroy ::
    "(errno \<Rightarrow> string) \<Rightarrow> member_answers \<Rightarrow> member_addresses \<Rightarrow> nat list \<Rightarrow> process \<Rightarrow> process \<times> outcome" where
  "members_destroy strerror an la qs p =
     and_then (and_then (and_then (and_then
       (on_process (destroy_queues strerror an la qs) p)
       (install_destroy strerror an (la_child la)))
       (on_process (watched_destroy strerror (ma_close an) (la_term la))))
       (unblock strerror (ma_unmask an) pr_term_guard store_term))
       (on_process (fd_destroy strerror (ma_close an) (la_epoll la)))"

end
