(* ===== verification/Context_Members_Facts.thy ===== *)
theory Context_Members_Facts
  imports Context_Members
begin

text \<open>
  Each member of \<^verbatim>\<open>context\<close> is a pair of \<open>Scoped_Objects\<close>: its constructor leaves nothing behind
  when it throws, and its destructor undoes it. The members together are such a pair, and when no
  call fails the interest list and the signal mask are the ones of a program that has started.
\<close>

section \<open>Processes that hold the same\<close>

definition same_process :: "process \<Rightarrow> process \<Rightarrow> bool" where
  "same_process p q \<longleftrightarrow> same_resources (pr_res p) (pr_res q) \<and> pr_mask p = pr_mask q \<and>
     pr_term_guard p = pr_term_guard q \<and> pr_child_guard p = pr_child_guard q \<and> pr_instance p = pr_instance q"

interpretation res: holding same_resources
  by unfold_locales (simp, erule same_resources_trans)

interpretation proc: holding same_process
  by unfold_locales (simp add: same_process_def, auto simp: same_process_def intro: same_resources_trans)

section \<open>Objects that watch a descriptor\<close>

text \<open>What such a constructor does when it succeeds, and that it does nothing when it throws.\<close>

lemma watch_cases:
  fixes strerror add cl ev a s
  assumes ok: "resources_ok base s" and a: "res_fds s a = Some fd" "res_regs s a = None"
  defines "r \<equiv> watch strerror add cl ev a s"
  shows "snd r = Threw msg \<Longrightarrow> res_fds (fst r) = (res_fds s)(a := None) \<and> res_regs (fst r) = res_regs s"
    "snd r = Done \<Longrightarrow> res_open (fst r) = res_open s \<and> res_fds (fst r) = res_fds s \<and>
       res_regs (fst r) = (res_regs s)(a \<mapsto> \<lparr>rg_ep = True, rg_fd = fd, rg_events = ev, rg_callback = Some a\<rparr>)"
proof -
  have g: "getfd a s = fd" using a by (simp add: getfd_def)
  have "res_fds s a \<noteq> None" "unwatched a s" using a by (simp_all add: unwatched_def)
  note D = fd_destroy_ok [OF ok this, where strerror = strerror and ans = cl]
  have "(\<exists>m. snd r = Threw m) \<and> res_fds (fst r) = (res_fds s)(a := None) \<and> res_regs (fst r) = res_regs s \<or>
      snd r = Done \<and> res_open (fst r) = res_open s \<and> res_fds (fst r) = res_fds s \<and>
       res_regs (fst r) = (res_regs s)(a \<mapsto> \<lparr>rg_ep = True, rg_fd = fd, rg_events = ev, rg_callback = Some a\<rparr>)"
  proof (rule epoll_add_cases [of strerror add fd ev a s])
    assume "epoll_add strerror add fd ev a s = (s\<lparr>res_interest := (res_interest s)(fd \<mapsto> (ev, a))\<rparr>, Done)"
    then show ?thesis by (simp add: r_def watch_def g reg_construct_def put_reg_def)
  next
    fix m
    assume "epoll_add strerror add fd ev a s = (s, Threw m)"
    then have "r = and_then (fd_destroy strerror cl a s) (\<lambda>s. (s, Threw m))"
      by (simp add: r_def watch_def g reg_construct_def)
    then show ?thesis using D by (simp add: and_then_fst)
  qed
  then show "snd r = Threw msg \<Longrightarrow> res_fds (fst r) = (res_fds s)(a := None) \<and> res_regs (fst r) = res_regs s"
    "snd r = Done \<Longrightarrow> res_open (fst r) = res_open s \<and> res_fds (fst r) = res_fds s \<and>
       res_regs (fst r) = (res_regs s)(a \<mapsto> \<lparr>rg_ep = True, rg_fd = fd, rg_events = ev, rg_callback = Some a\<rparr>)"
    by auto
qed

lemma receive_watch_cases:
  fixes strerror what add cl ev
  assumes ok: "resources_ok base s" and a: "vacant a s" and fresh: "fresh_answer ans s"
  defines "r \<equiv> and_then (fd_receive strerror what ans a s) (watch strerror add cl ev a)"
  shows "snd r = Threw msg \<Longrightarrow> same_resources (fst r) s"
    "snd r = Done \<Longrightarrow> \<exists>fd. ans = Inr fd \<and> res_open (fst r) = insert fd (res_open s) \<and>
       res_fds (fst r) = (res_fds s)(a \<mapsto> fd) \<and>
       res_regs (fst r) = (res_regs s)(a \<mapsto> \<lparr>rg_ep = True, rg_fd = fd, rg_events = ev, rg_callback = Some a\<rparr>)"
proof -
  have rok: "resources_ok base (fst r)"
    using receive_watch_ok [OF ok a fresh] by (simp add: r_def)
  let ?s1 = "\<lambda>fd. fd_construct a fd (s\<lparr>res_open := insert fd (res_open s)\<rparr>)"
  have r: "r = watch strerror add cl ev a (?s1 fd)" if "ans = Inr fd" for fd
    by (simp add: r_def that fd_receive_def)
  have ok1: "resources_ok base (?s1 fd)" if "ans = Inr fd" for fd
    using construct_ok [OF ok, of a fd] a fresh that by (simp add: vacant_def fresh_answer_def)
  have s1: "res_fds (?s1 fd) a = Some fd" "res_regs (?s1 fd) a = None" "(res_fds (?s1 fd))(a := None) = res_fds s"
    "res_regs (?s1 fd) = res_regs s" for fd
    using a by (simp_all add: fd_construct_def vacant_def fun_upd_idem)
  note W = watch_cases [OF ok1 s1(1,2), where strerror = strerror and add = add and cl = cl and ev = ev]
  show "same_resources (fst r) s" if t: "snd r = Threw msg"
  proof (cases ans)
    case (Inr fd)
    from W(1) [OF Inr t [unfolded r [OF Inr]]] show ?thesis
      by (intro same_resourcesI [OF rok ok]) (simp_all only: r [OF Inr] s1)
  qed (simp add: r_def fd_receive_def)
  assume d: "snd r = Done"
  then obtain fd where fd: "ans = Inr fd" by (cases ans) (simp_all add: r_def fd_receive_def)
  from W(2) [OF fd d [unfolded r [OF fd]]]
  show "\<exists>fd. ans = Inr fd \<and> res_open (fst r) = insert fd (res_open s) \<and>
       res_fds (fst r) = (res_fds s)(a \<mapsto> fd) \<and>
       res_regs (fst r) = (res_regs s)(a \<mapsto> \<lparr>rg_ep = True, rg_fd = fd, rg_events = ev, rg_callback = Some a\<rparr>)"
    unfolding r [OF fd] using fd by (simp add: fd_construct_def)
qed

lemma watched_destroy_maps:
  assumes ok: "resources_ok base s" and a: "res_fds s a \<noteq> None" "res_regs s a \<noteq> None"
  shows "res_fds (fst (watched_destroy e cl a s)) = (res_fds s)(a := None)"
    "res_regs (fst (watched_destroy e cl a s)) = (res_regs s)(a := None)"
proof -
  note R = reg_destroy_ok [OF ok a(2), of e]
  let ?s = "fst (reg_destroy e a s)"
  have "watched_destroy e cl a s = fd_destroy e cl a ?s"
    by (simp add: watched_destroy_def and_then_fst R)
  moreover have "res_fds ?s a \<noteq> None" "unwatched a ?s" using a R by (simp_all add: unwatched_def)
  ultimately show "res_fds (fst (watched_destroy e cl a s)) = (res_fds s)(a := None)"
    "res_regs (fst (watched_destroy e cl a s)) = (res_regs s)(a := None)"
    using fd_destroy_ok(3,4) [OF R(1), where a = a and strerror = e and ans = cl] R by simp_all
qed

definition ready_for :: "int set \<Rightarrow> addr \<Rightarrow> errno + int \<Rightarrow> resources \<Rightarrow> bool" where
  "ready_for base a ans s \<longleftrightarrow> resources_ok base s \<and> vacant a s \<and> fresh_answer ans s"

lemma watched_undone:
  "undone_by same_resources (ready_for base a ans)
     (\<lambda>s. and_then (fd_receive strerror what ans a s) (watch strerror add cl ev a)) (watched_destroy strerror cl' a)"
proof (rule res.undone_byI)
  fix s s2
  let ?r = "and_then (fd_receive strerror what ans a s) (watch strerror add cl ev a)"
  assume s: "ready_for base a ans s"
  note S = s [unfolded ready_for_def, THEN conjunct1] s [unfolded ready_for_def, THEN conjunct2, THEN conjunct1]
    s [unfolded ready_for_def, THEN conjunct2, THEN conjunct2]
  note C = receive_watch_cases [OF S, where strerror = strerror and what = what and add = add and cl = cl and ev = ev]
  show "\<not> aborted ?r" using receive_watch_ok [OF S] by blast
  show "same_resources (fst ?r) s" if "snd ?r = Threw msg" for msg using C(1) that by blast
  assume d: "snd ?r = Done" and same: "same_resources s2 (fst ?r)"
  obtain fd where fd: "res_fds (fst ?r) = (res_fds s)(a \<mapsto> fd)"
    "res_regs (fst ?r) = (res_regs s)(a \<mapsto> \<lparr>rg_ep = True, rg_fd = fd, rg_events = ev, rg_callback = Some a\<rparr>)"
    using C(2) [OF d] by blast
  have ok: "resources_ok base s2"
    using receive_watch_ok [OF S, where strerror = strerror and what = what and add = add and cl = cl and ev = ev] same_resources_ok [OF same] by blast
  have a: "res_fds s2 a \<noteq> None" "res_regs s2 a \<noteq> None" using same fd by (simp_all add: same_resources_def)
  note D = watched_destroy_ok [OF ok a, of strerror cl'] watched_destroy_maps [OF ok a, of strerror cl']
  have "same_resources (fst (watched_destroy strerror cl' a s2)) s"
    by (rule same_resourcesI [OF D(1) S(1)])
       (use D(5,6) same fd S(2) in \<open>simp_all add: same_resources_def vacant_def fun_upd_idem\<close>)
  then show "snd (watched_destroy strerror cl' a s2) = Done \<and> same_resources (fst (watched_destroy strerror cl' a s2)) s"
    using D(2) by blast
qed

text \<open>The epoll instance is a descriptor that nothing watches.\<close>

lemma epoll_undone:
  "undone_by same_resources (ready_for base a ans) (epoll_construct strerror ans a) (fd_destroy strerror cl a)"
proof (rule res.undone_byI)
  fix s s2
  assume s: "ready_for base a ans s"
  then have S: "resources_ok base s" "vacant a s" "fresh_answer ans s" by (simp_all add: ready_for_def)
  have a: "res_fds s a = None" using S(2) by (simp add: vacant_def)
  note R = fd_receive_ok [OF S(1) a S(3)]
  show "\<not> aborted (epoll_construct strerror ans a s)" using R(2) by (simp add: epoll_construct_def)
  show "same_resources (fst (epoll_construct strerror ans a s)) s" if "snd (epoll_construct strerror ans a s) = Threw msg" for msg
    using that by (cases ans) (simp_all add: epoll_construct_def fd_receive_def)
  assume d: "snd (epoll_construct strerror ans a s) = Done" and same: "same_resources s2 (fst (epoll_construct strerror ans a s))"
  obtain fd where fd: "ans = Inr fd" using d by (cases ans) (simp_all add: epoll_construct_def fd_receive_def)
  have f: "res_fds s2 = (res_fds s)(a \<mapsto> fd)" "res_regs s2 = res_regs s"
    using same by (simp_all add: same_resources_def epoll_construct_def fd_receive_def fd fd_construct_def)
  have ok: "resources_ok base s2"
    using same_resources_ok [OF same] R(1) by (simp add: epoll_construct_def)
  have "res_fds s2 a \<noteq> None" "unwatched a s2" using f S(2) by (simp_all add: unwatched_def vacant_def)
  note D = fd_destroy_ok [OF ok this, where strerror = strerror and ans = cl]
  have "same_resources (fst (fd_destroy strerror cl a s2)) s"
    by (rule same_resourcesI [OF D(1) S(1)]) (use D(3,4) f a in \<open>simp_all add: fun_upd_idem\<close>)
  then show "snd (fd_destroy strerror cl a s2) = Done \<and> same_resources (fst (fd_destroy strerror cl a s2)) s"
    using D(2) by blast
qed

section \<open>Pairs of the process\<close>

lemma on_process_simps:
  "snd (on_process f p) = snd (f (pr_res p))" "pr_res (fst (on_process f p)) = fst (f (pr_res p))"
  "pr_mask (fst (on_process f p)) = pr_mask p" "pr_term_guard (fst (on_process f p)) = pr_term_guard p"
  "pr_child_guard (fst (on_process f p)) = pr_child_guard p" "pr_instance (fst (on_process f p)) = pr_instance p"
  by (simp_all add: on_process_def split: prod.splits)

lemma on_process_undone:
  assumes u: "undone_by same_resources P c d" and P: "\<And>p. Q p \<Longrightarrow> P (pr_res p)"
  shows "undone_by same_process Q (on_process c) (on_process d)"
proof (rule proc.undone_byI)
  fix p p2
  assume "Q p"
  note U = res.undone_byD [OF u P [OF this]]
  show "\<not> aborted (on_process c p)" using U(1) by (simp add: aborted_def on_process_simps)
  show "same_process (fst (on_process c p)) p" if "snd (on_process c p) = Threw msg" for msg
    using U(2) that by (simp add: same_process_def on_process_simps)
  assume "snd (on_process c p) = Done" "same_process p2 (fst (on_process c p))"
  then show "snd (on_process d p2) = Done \<and> same_process (fst (on_process d p2)) p"
    using U(3,4) [of "pr_res p2"] by (simp add: same_process_def on_process_simps)
qed

lemma block_undone:
  "undone_by same_process (\<lambda>p. pr_term_guard p = None) (block e ans sigs store_term) (unblock e None pr_term_guard store_term)"
  "undone_by same_process (\<lambda>p. pr_child_guard p = None) (block e ans sigs store_child) (unblock e None pr_child_guard store_child)"
  by (rule proc.undone_byI;
      cases ans;
      auto simp: block_def unblock_def block_signals_construct_def block_signals_destroy_def throw_text_def
        same_process_def aborted_def)+

text \<open>The handler: its two members, with the pointer set last and reset first.\<close>

lemma sigchild_handler_undone:
  assumes "ma_unmask an = None"
  shows "undone_by same_process (\<lambda>p. pr_child_guard p = None \<and> ready_for base a (ma_child an) (pr_res p))
    (sigchild_handler_construct e an a) (sigchild_handler_destroy e an a)"
proof -
  have "undone_by same_process (\<lambda>p. ready_for base a (ma_child an) (pr_res p))
      (on_process (signalfd_construct e (ma_child an) (ma_child_add an) (ma_close an) a))
      (on_process (watched_destroy e (ma_close an) a))"
    unfolding signalfd_construct_def [abs_def] open_signalfd_def
    by (rule on_process_undone [OF watched_undone])
  note seq = proc.undone_by_seq [OF proc.undone_by_mono [OF block_undone(2)] this,
      where P = "\<lambda>p. pr_child_guard p = None \<and> ready_for base a (ma_child an) (pr_res p)"]
  show ?thesis
    unfolding sigchild_handler_construct_def [abs_def] sigchild_handler_destroy_def [abs_def] assms
    by (rule seq) (auto simp: block_def split: sum.splits prod.splits)
qed

lemma install_undone:
  assumes "ma_unmask an = None"
  shows "undone_by same_process
    (\<lambda>p :: process. pr_instance p = None \<and> pr_child_guard p = None \<and> ready_for base a (ma_child an) (pr_res p))
    (install_construct e an a) (install_destroy e an a)"
proof (rule proc.undone_byI)
  fix p p2 :: process
  assume p: "pr_instance p = None \<and> pr_child_guard p = None \<and> ready_for base a (ma_child an) (pr_res p)"
  then have "pr_child_guard p = None \<and> ready_for base a (ma_child an) (pr_res p)" by blast
  note U = proc.undone_byD [OF sigchild_handler_undone [OF assms, where e = e] this]
  let ?h = "sigchild_handler_construct e an a p"
  have c: "install_construct e an a p = and_then ?h (\<lambda>p. (p\<lparr>pr_instance := Some a\<rparr>, Done))"
    using p by (simp add: install_construct_def)
  show "\<not> aborted (install_construct e an a p)"
    using U(1) unfolding c by (intro and_then_not_aborted) (simp_all add: aborted_def)
  show "same_process (fst (install_construct e an a p)) p" if "snd (install_construct e an a p) = Threw msg" for msg
    using that U(2) unfolding c by (cases ?h) (auto simp: and_then_def split: if_splits)
  assume d: "snd (install_construct e an a p) = Done" and same: "same_process p2 (fst (install_construct e an a p))"
  have h: "snd ?h = Done" using and_then_DoneE(1) [OF d [unfolded c]] .
  then have i: "fst (install_construct e an a p) = (fst ?h)\<lparr>pr_instance := Some a\<rparr>" by (simp add: c and_then_fst)
  have "pr_instance (fst ?h) = None"
    using p h by (auto simp: sigchild_handler_construct_def block_def and_then_def on_process_def unwinding_def
        split: sum.splits prod.splits if_splits outcome.splits)
  then have "same_process (p2\<lparr>pr_instance := None\<rparr>) (fst ?h)" using same by (simp add: i same_process_def)
  then show "snd (install_destroy e an a p2) = Done \<and> same_process (fst (install_destroy e an a p2)) p"
    using U(3,4) [OF h] same by (simp add: i same_process_def install_destroy_def)
qed

section \<open>The queues\<close>

text \<open>Answers that open different descriptors, for objects at different addresses.\<close>

definition prepared :: "int set \<Rightarrow> (addr \<times> (errno + int)) list \<Rightarrow> resources \<Rightarrow> bool" where
  "prepared base xs s \<longleftrightarrow>
     resources_ok base s \<and> distinct (map fst xs) \<and>
     distinct (concat (map (\<lambda>x. case snd x of Inl err \<Rightarrow> [] | Inr fd \<Rightarrow> [fd]) xs)) \<and>
     (\<forall>x \<in> set xs. vacant (fst x) s \<and> fresh_answer (snd x) s)"

lemma prepared_ready: "prepared base ((a, ans) # xs) s \<Longrightarrow> ready_for base a ans s"
  by (simp add: prepared_def ready_for_def)

text \<open>An object of the list exists now; the others are still prepared.\<close>

definition adds :: "addr \<Rightarrow> errno + int \<Rightarrow> resources \<Rightarrow> resources \<Rightarrow> bool" where
  "adds a ans s s' \<longleftrightarrow>
     (\<exists>fd. ans = Inr fd \<and> res_open s' = insert fd (res_open s) \<and> res_fds s' = (res_fds s)(a \<mapsto> fd) \<and>
        (\<forall>b. b \<noteq> a \<longrightarrow> res_regs s' b = res_regs s b))"

lemma prepared_next:
  assumes p: "prepared base ((a, ans) # xs) s" and s': "adds a ans s s'" "resources_ok base s'"
  shows "prepared base xs s'"
proof -
  obtain fd where fd: "ans = Inr fd" "res_open s' = insert fd (res_open s)" "res_fds s' = (res_fds s)(a \<mapsto> fd)"
    "\<And>b. b \<noteq> a \<Longrightarrow> res_regs s' b = res_regs s b"
    using s'(1) unfolding adds_def by blast
  have "vacant b s' \<and> fresh_answer ans' s'" if x: "(b, ans') \<in> set xs" for b ans'
  proof
    have "b \<noteq> a" using p x by (force simp: prepared_def)
    then show "vacant b s'" using p x fd by (force simp: prepared_def vacant_def)
    have "fd' \<noteq> fd" if "ans' = Inr fd'" for fd'
      using p x fd(1) that by (force simp: prepared_def)
    then show "fresh_answer ans' s'" using p x fd(2) by (force simp: prepared_def fresh_answer_def)
  qed
  then show ?thesis using p s'(2) by (auto simp: prepared_def)
qed

text \<open>The objects at the addresses of \<open>is\<close> exist; the rest is as in \<open>s0\<close>.\<close>

definition exist :: "(nat \<Rightarrow> addr) \<Rightarrow> (nat \<Rightarrow> errno + int) \<Rightarrow> nat list \<Rightarrow> resources \<Rightarrow> resources \<Rightarrow> bool" where
  "exist la an js s0 s \<longleftrightarrow>
     (\<forall>j \<in> set js. \<exists>fd. an j = Inr fd \<and> res_fds s (la j) = Some fd \<and>
        res_regs s (la j) = Some \<lparr>rg_ep = True, rg_fd = fd, rg_events = epollin, rg_callback = Some (la j)\<rparr>) \<and>
     (\<forall>a. a \<notin> la ` set js \<longrightarrow> res_fds s a = res_fds s0 a \<and> res_regs s a = res_regs s0 a)"

lemma exist_snoc:
  assumes "exist la an js s0 s" "la j \<notin> la ` set js" "an j = Inr fd"
    and "res_fds s' = (res_fds s)(la j \<mapsto> fd)"
    and "res_regs s' = (res_regs s)(la j \<mapsto> \<lparr>rg_ep = True, rg_fd = fd, rg_events = epollin, rg_callback = Some (la j)\<rparr>)"
  shows "exist la an (js @ [j]) s0 s'"
  unfolding exist_def
proof (intro conjI ballI allI impI)
  fix i
  assume i: "i \<in> set (js @ [j])"
  show "\<exists>fd. an i = Inr fd \<and> res_fds s' (la i) = Some fd \<and>
      res_regs s' (la i) = Some \<lparr>rg_ep = True, rg_fd = fd, rg_events = epollin, rg_callback = Some (la i)\<rparr>"
  proof (cases "i = j")
    case False
    then have "i \<in> set js" "la i \<noteq> la j" using i assms(2) by (auto simp: image_iff)
    then show ?thesis using assms(1,4,5) by (simp add: exist_def)
  qed (use assms in simp)
next
  fix a
  assume "a \<notin> la ` set (js @ [j])"
  then show "res_fds s' a = res_fds s0 a" "res_regs s' a = res_regs s0 a"
    using assms(1,4,5) by (auto simp: exist_def)
qed

lemma destroy_queues_maps:
  assumes "resources_ok base s" "distinct (map (la_queue la) js)"
    and "\<forall>j \<in> set js. res_fds s (la_queue la j) \<noteq> None \<and> res_regs s (la_queue la j) \<noteq> None"
  shows "resources_ok base (fst (destroy_queues e an la js s)) \<and> snd (destroy_queues e an la js s) = Done \<and>
    (\<forall>a. res_fds (fst (destroy_queues e an la js s)) a = (if a \<in> la_queue la ` set js then None else res_fds s a) \<and>
         res_regs (fst (destroy_queues e an la js s)) a = (if a \<in> la_queue la ` set js then None else res_regs s a))"
  using assms
proof (induction js arbitrary: s)
  case Nil
  then show ?case by (simp add: destroy_queues_def)
next
  case (Cons j js)
  have a: "res_fds s (la_queue la j) \<noteq> None" "res_regs s (la_queue la j) \<noteq> None" using Cons.prems(3) by simp_all
  note D = watched_destroy_ok [OF Cons.prems(1) a, of e "ma_close an"]
    watched_destroy_maps [OF Cons.prems(1) a, of e "ma_close an"]
  let ?s = "fst (watched_destroy e (ma_close an) (la_queue la j) s)"
  have eq: "destroy_queues e an la (j # js) s = destroy_queues e an la js ?s"
    by (simp add: destroy_queues_def and_then_fst D(2))
  have "\<forall>i \<in> set js. res_fds ?s (la_queue la i) \<noteq> None \<and> res_regs ?s (la_queue la i) \<noteq> None"
    using Cons.prems(2,3) D(5,6) by (auto simp: image_iff)
  from Cons.IH [OF D(1) _ this] show ?case
    using Cons.prems(2) unfolding eq by (simp add: D(5,6))
qed

lemma destroy_exist:
  assumes s0: "resources_ok base s0" "\<forall>j \<in> set js. vacant (la_queue la j) s0" "distinct (map (la_queue la) js)"
    and s: "resources_ok base s" "exist (la_queue la) x js s0 s"
  shows "snd (destroy_queues e an la js s) = Done \<and> same_resources (fst (destroy_queues e an la js s)) s0"
proof -
  have "\<forall>j \<in> set js. res_fds s (la_queue la j) \<noteq> None \<and> res_regs s (la_queue la j) \<noteq> None"
    using s(2) by (force simp: exist_def)
  note D = destroy_queues_maps [OF s(1) s0(3) this, where e = e and an = an]
  have "res_fds (fst (destroy_queues e an la js s)) a = res_fds s0 a \<and>
      res_regs (fst (destroy_queues e an la js s)) a = res_regs s0 a" for a
    using D s(2) s0(2) by (auto simp: exist_def vacant_def)
  then show ?thesis using D by (intro conjI same_resourcesI [OF _ s0(1)]) (auto intro!: ext)
qed

lemma construct_queues_spec:
  fixes e
  assumes "resources_ok base s0" "\<forall>j \<in> set (made @ qs). vacant (la_queue la j) s0"
    and "distinct (map (la_queue la) (made @ qs))"
    and "prepared base (map (\<lambda>j. (la_queue la j, ma_queue an j)) qs) s"
    and "exist (la_queue la) (ma_queue an) made s0 s"
  defines "r \<equiv> construct_queues e an la made qs s"
  shows "\<not> aborted r \<and> (\<forall>msg. snd r = Threw msg \<longrightarrow> same_resources (fst r) s0) \<and>
    (snd r = Done \<longrightarrow> resources_ok base (fst r) \<and> exist (la_queue la) (ma_queue an) (made @ qs) s0 (fst r))"
  unfolding r_def using assms(2-5)
proof (induction qs arbitrary: made s)
  case Nil
  then show ?case by (simp add: aborted_def prepared_def)
next
  case (Cons q qs)
  let ?a = "la_queue la q"
  have p: "prepared base ((?a, ma_queue an q) # map (\<lambda>j. (la_queue la j, ma_queue an j)) qs) s"
    using Cons.prems(3) by simp
  have S: "resources_ok base s" "vacant ?a s" "fresh_answer (ma_queue an q) s"
    using prepared_ready [OF p] by (simp_all add: ready_for_def)
  let ?c = "eventfd_construct e (ma_queue an q) (ma_queue_add an q) (ma_close an) ?a s"
  note C = receive_watch_cases [OF S, where strerror = e and add = "ma_queue_add an q" and cl = "ma_close an" and ev = epollin
      and what = "''unable to create eventfd, error: ''", folded open_eventfd_def, folded eventfd_construct_def]
  have K: "resources_ok base (fst ?c)" "\<not> aborted ?c"
    using receive_watch_ok [OF S] by (simp_all add: eventfd_construct_def open_eventfd_def)
  obtain s1 x where c: "?c = (s1, x)" by force
  show ?case
  proof (cases x)
    case Done
    obtain fd where fd: "ma_queue an q = Inr fd" "res_open s1 = insert fd (res_open s)" "res_fds s1 = (res_fds s)(?a \<mapsto> fd)"
      "res_regs s1 = (res_regs s)(?a \<mapsto> \<lparr>rg_ep = True, rg_fd = fd, rg_events = epollin, rg_callback = Some ?a\<rparr>)"
      using C(2) c Done by auto
    have ok1: "resources_ok base s1" using K(1) c by simp
    have p': "prepared base (map (\<lambda>j. (la_queue la j, ma_queue an j)) qs) s1"
      by (rule prepared_next [OF p _ ok1]) (simp add: adds_def fd)
    have d: "distinct (map (la_queue la) ((made @ [q]) @ qs))" using Cons.prems(2) by simp
    have ex: "exist (la_queue la) (ma_queue an) (made @ [q]) s0 s1"
      by (rule exist_snoc [where fd = fd]) (use Cons.prems(2,4) fd in \<open>auto simp: fun_upd_def\<close>)
    have v: "\<forall>j \<in> set ((made @ [q]) @ qs). vacant (la_queue la j) s0" using Cons.prems(1) by simp
    show ?thesis using Cons.IH [OF v d p' ex] c Done by simp
  next
    case (Threw msg)
    have same: "same_resources s1 s" using C(1) c Threw by simp
    have ex: "exist (la_queue la) (ma_queue an) made s0 s1"
      using Cons.prems(4) same by (simp add: exist_def same_resources_def)
    have ok1: "resources_ok base s1" using K(1) c by simp
    have "snd (destroy_queues e an la made s1) = Done \<and> same_resources (fst (destroy_queues e an la made s1)) s0"
      by (rule destroy_exist [OF assms(1) _ _ ok1 ex]) (use Cons.prems in auto)
    then show ?thesis using c Threw by (simp add: and_then_fst aborted_def)
  next
    case (Aborted msg)
    then show ?thesis using K(2) c by simp
  qed
qed

lemma queues_start:
  fixes e
  assumes p: "prepared base (map (\<lambda>j. (la_queue la j, ma_queue an j)) qs) s"
  defines "r \<equiv> construct_queues e an la [] qs s"
  shows "\<not> aborted r" "snd r = Threw msg \<Longrightarrow> same_resources (fst r) s"
    "snd r = Done \<Longrightarrow> resources_ok base (fst r)" "snd r = Done \<Longrightarrow> exist (la_queue la) (ma_queue an) qs s (fst r)"
proof -
  have S: "resources_ok base s" "\<forall>j \<in> set qs. vacant (la_queue la j) s" "distinct (map (la_queue la) qs)"
    using p by (auto simp: prepared_def comp_def)
  have ex: "exist (la_queue la) (ma_queue an) [] s s" by (simp add: exist_def)
  show "\<not> aborted r" "snd r = Threw msg \<Longrightarrow> same_resources (fst r) s"
    "snd r = Done \<Longrightarrow> resources_ok base (fst r)" "snd r = Done \<Longrightarrow> exist (la_queue la) (ma_queue an) qs s (fst r)"
    using construct_queues_spec [OF S(1) _ _ p ex, unfolded append_Nil, OF S(2,3), where e = e] by (simp_all add: r_def)
qed

lemma queues_undone:
  "undone_by same_resources (\<lambda>s. prepared base (map (\<lambda>j. (la_queue la j, ma_queue an j)) qs) s)
     (construct_queues e an la [] qs) (destroy_queues e an la qs)"
proof (rule res.undone_byI)
  fix s s2
  assume p: "prepared base (map (\<lambda>j. (la_queue la j, ma_queue an j)) qs) s"
  then have S: "resources_ok base s" "\<forall>j \<in> set qs. vacant (la_queue la j) s" "distinct (map (la_queue la) qs)"
    by (auto simp: prepared_def comp_def)
  note C = queues_start [OF p, where e = e]
  show "\<not> aborted (construct_queues e an la [] qs s)" by (rule C(1))
  show "same_resources (fst (construct_queues e an la [] qs s)) s"
    if "snd (construct_queues e an la [] qs s) = Threw msg" for msg using C(2) that by blast
  assume d: "snd (construct_queues e an la [] qs s) = Done" and same: "same_resources s2 (fst (construct_queues e an la [] qs s))"
  then have "resources_ok base s2" "exist (la_queue la) (ma_queue an) qs s s2"
    using C(3,4) [OF d] same_resources_ok [OF same] by (auto simp: exist_def same_resources_def)
  then show "snd (destroy_queues e an la qs s2) = Done \<and> same_resources (fst (destroy_queues e an la qs s2)) s"
    by (rule destroy_exist [OF S])
qed

section \<open>When they succeed\<close>

abbreviation succeeds :: "errno + 'a \<Rightarrow> bool" where
  "succeeds ans \<equiv> \<exists>x. ans = Inr x"

lemma receive_watch_Done:
  assumes "ready_for base a ans s"
  shows "snd (and_then (fd_receive e what ans a s) (watch e add cl ev a)) = Done \<longleftrightarrow> succeeds ans \<and> add = None"
proof (cases ans)
  case (Inr fd)
  have ok: "resources_ok base s" and fd: "fd \<notin> res_open s"
    using assms Inr by (simp_all add: ready_for_def fresh_answer_def)
  have "res_interest s fd = None"
  proof (rule ccontr)
    assume "res_interest s fd \<noteq> None"
    then obtain ev b where "res_interest s fd = Some (ev, b)" by auto
    from resources_okD(8) [OF ok this] show False using registered_open [OF ok] fd by blast
  qed
  then show ?thesis
    by (cases add; auto simp: Inr fd_receive_def watch_def reg_construct_def getfd_def fd_construct_def epoll_add_def
        sys_epoll_add_def throw_error_def and_then_fst split: outcome.splits prod.splits dest!: and_then_DoneE(2))
qed (simp add: fd_receive_def)

lemma construct_queues_Done:
  assumes "prepared base (map (\<lambda>j. (la_queue la j, ma_queue an j)) qs) s"
  shows "snd (construct_queues e an la made qs s) = Done \<longleftrightarrow>
    (\<forall>j \<in> set qs. succeeds (ma_queue an j) \<and> ma_queue_add an j = None)"
  using assms
proof (induction qs arbitrary: made s)
  case (Cons q qs)
  let ?a = "la_queue la q"
  have p: "prepared base ((?a, ma_queue an q) # map (\<lambda>j. (la_queue la j, ma_queue an j)) qs) s"
    using Cons.prems by simp
  note R = prepared_ready [OF p]
  have S: "resources_ok base s" "vacant ?a s" "fresh_answer (ma_queue an q) s"
    using R by (simp_all add: ready_for_def)
  obtain s1 x where c: "eventfd_construct e (ma_queue an q) (ma_queue_add an q) (ma_close an) ?a s = (s1, x)" by force
  note c' = c [unfolded eventfd_construct_def open_eventfd_def]
  have x: "x = Done \<longleftrightarrow> succeeds (ma_queue an q) \<and> ma_queue_add an q = None"
    using receive_watch_Done [OF R, where e = e] c' by (metis snd_conv)
  show ?case
  proof (cases x)
    case Done
    have ok1: "resources_ok base s1" using receive_watch_ok [OF S] c' by (metis fst_conv)
    have "adds ?a (ma_queue an q) s s1"
      using receive_watch_cases(2) [OF S, where strerror = e and add = "ma_queue_add an q" and cl = "ma_close an"
          and ev = epollin and what = "''unable to create eventfd, error: ''"] c' Done
      by (auto simp: adds_def)
    from Cons.IH [OF prepared_next [OF p this ok1]] show ?thesis using c x Done by simp
  next
    case (Threw msg)
    have "snd (and_then (destroy_queues e an la made s1) (\<lambda>w. (w, Threw msg))) \<noteq> Done"
      by (auto dest: and_then_DoneE(2))
    then show ?thesis using c x Threw by auto
  qed (use c x in auto)
qed simp
section \<open>All members\<close>

definition queue_answers :: "member_answers \<Rightarrow> member_addresses \<Rightarrow> nat list \<Rightarrow> (addr \<times> (errno + int)) list" where
  "queue_answers an la qs = map (\<lambda>j. (la_queue la j, ma_queue an j)) qs"

text \<open>
  Before the program starts: no guard and no handler exist, the addresses of the members are free,
  and the descriptors that the kernel answers are new and different.
\<close>

definition startable :: "int set \<Rightarrow> member_answers \<Rightarrow> member_addresses \<Rightarrow> nat list \<Rightarrow> process \<Rightarrow> bool" where
  "startable base an la qs p \<longleftrightarrow>
     pr_term_guard p = None \<and> pr_child_guard p = None \<and> pr_instance p = None \<and>
     prepared base ((la_epoll la, ma_epoll an) # (la_term la, ma_term an) # (la_child la, ma_child an) #
       queue_answers an la qs) (pr_res p)"

definition calls_succeed :: "member_answers \<Rightarrow> nat list \<Rightarrow> bool" where
  "calls_succeed an qs \<longleftrightarrow>
     succeeds (ma_epoll an) \<and> ma_term_mask an = None \<and> succeeds (ma_term an) \<and> ma_term_add an = None \<and>
     ma_child_mask an = None \<and> succeeds (ma_child an) \<and> ma_child_add an = None \<and>
     (\<forall>j \<in> set qs. succeeds (ma_queue an j) \<and> ma_queue_add an j = None)"

text \<open>What must hold before each member, the last first.\<close>

definition before_queues :: "int set \<Rightarrow> member_answers \<Rightarrow> member_addresses \<Rightarrow> nat list \<Rightarrow> process \<Rightarrow> bool" where
  "before_queues base an la qs p \<longleftrightarrow> prepared base (queue_answers an la qs) (pr_res p)"

definition before_child :: "int set \<Rightarrow> member_answers \<Rightarrow> member_addresses \<Rightarrow> nat list \<Rightarrow> process \<Rightarrow> bool" where
  "before_child base an la qs p \<longleftrightarrow> pr_instance p = None \<and> pr_child_guard p = None \<and>
     prepared base ((la_child la, ma_child an) # queue_answers an la qs) (pr_res p)"

definition before_term :: "int set \<Rightarrow> member_answers \<Rightarrow> member_addresses \<Rightarrow> nat list \<Rightarrow> process \<Rightarrow> bool" where
  "before_term base an la qs p \<longleftrightarrow> pr_instance p = None \<and> pr_child_guard p = None \<and>
     prepared base ((la_term la, ma_term an) # (la_child la, ma_child an) # queue_answers an la qs) (pr_res p)"

definition before_guard :: "int set \<Rightarrow> member_answers \<Rightarrow> member_addresses \<Rightarrow> nat list \<Rightarrow> process \<Rightarrow> bool" where
  "before_guard base an la qs p \<longleftrightarrow> pr_term_guard p = None \<and> before_term base an la qs p"

lemmas before_defs = before_queues_def before_child_def before_term_def before_guard_def

text \<open>The steps from one to the next.\<close>

lemma watched_adds:
  assumes "ready_for base a ans s" "snd (signalfd_construct e ans add cl a s) = Done"
  shows "adds a ans s (fst (signalfd_construct e ans add cl a s))"
    "resources_ok base (fst (signalfd_construct e ans add cl a s))"
    "\<exists>fd. ans = Inr fd \<and> res_fds (fst (signalfd_construct e ans add cl a s)) = (res_fds s)(a \<mapsto> fd) \<and>
       res_regs (fst (signalfd_construct e ans add cl a s)) =
         (res_regs s)(a \<mapsto> \<lparr>rg_ep = True, rg_fd = fd, rg_events = epollin, rg_callback = Some a\<rparr>)"
proof -
  have S: "resources_ok base s" "vacant a s" "fresh_answer ans s" using assms(1) by (simp_all add: ready_for_def)
  note C = receive_watch_cases(2) [OF S, where strerror = e and add = add and cl = cl and ev = epollin
      and what = "''unable to create signalfd, error: ''", folded open_signalfd_def, folded signalfd_construct_def, OF assms(2)]
  show "adds a ans s (fst (signalfd_construct e ans add cl a s))" using C by (auto simp: adds_def)
  show "resources_ok base (fst (signalfd_construct e ans add cl a s))"
    using receive_watch_ok [OF S] by (simp add: signalfd_construct_def open_signalfd_def)
  show "\<exists>fd. ans = Inr fd \<and> res_fds (fst (signalfd_construct e ans add cl a s)) = (res_fds s)(a \<mapsto> fd) \<and>
       res_regs (fst (signalfd_construct e ans add cl a s)) =
         (res_regs s)(a \<mapsto> \<lparr>rg_ep = True, rg_fd = fd, rg_events = epollin, rg_callback = Some a\<rparr>)"
    using C by blast
qed

lemma epoll_adds:
  assumes "ready_for base a ans s" "snd (epoll_construct e ans a s) = Done"
  shows "adds a ans s (fst (epoll_construct e ans a s))" "resources_ok base (fst (epoll_construct e ans a s))"
    "res_regs (fst (epoll_construct e ans a s)) = res_regs s"
proof -
  have S: "resources_ok base s" "vacant a s" "fresh_answer ans s" using assms(1) by (simp_all add: ready_for_def)
  show "adds a ans s (fst (epoll_construct e ans a s))" "res_regs (fst (epoll_construct e ans a s)) = res_regs s"
    using assms(2) by (cases ans; simp add: epoll_construct_def fd_receive_def adds_def fd_construct_def)+
  show "resources_ok base (fst (epoll_construct e ans a s))"
    using fd_receive_ok(1) [OF S(1) _ S(3)] S(2) by (simp add: epoll_construct_def vacant_def)
qed

lemma epoll_next:
  assumes "startable base an la qs p" "snd (on_process (epoll_construct e (ma_epoll an) (la_epoll la)) p) = Done"
  shows "before_guard base an la qs (fst (on_process (epoll_construct e (ma_epoll an) (la_epoll la)) p))"
  using assms epoll_adds [OF prepared_ready, of base _ _ _ "pr_res p"] prepared_next
  by (fastforce simp: startable_def before_defs on_process_simps)

lemma block_Done:
  assumes "snd (block e ans sigs store p) = Done"
  shows "ans = None" "fst (block e ans sigs store p) = store (Some (pr_mask p)) (p\<lparr>pr_mask := pr_mask p \<union> sigs\<rparr>)"
  using assms by (cases ans; simp add: block_def block_signals_construct_def throw_text_def)+

lemma guard_next:
  assumes "before_guard base an la qs p" "snd (block e ans sigs store_term p) = Done"
  shows "before_term base an la qs (fst (block e ans sigs store_term p))"
  using assms block_Done(2) [OF assms(2)] by (simp add: before_defs)

lemma term_next:
  assumes "before_term base an la qs p"
    and "snd (on_process (signalfd_construct e (ma_term an) (ma_term_add an) (ma_close an) (la_term la)) p) = Done"
  shows "before_child base an la qs (fst (on_process (signalfd_construct e (ma_term an) (ma_term_add an) (ma_close an) (la_term la)) p))"
  using assms watched_adds(1,2) [OF prepared_ready, of base _ _ _ "pr_res p"] prepared_next
  by (fastforce simp: before_defs on_process_simps)

lemma install_Done:
  assumes d: "snd (install_construct e an a p) = Done" and p: "pr_instance p = None"
  shows "ma_child_mask an = None"
    "snd (signalfd_construct e (ma_child an) (ma_child_add an) (ma_close an) a (pr_res p)) = Done"
    "fst (install_construct e an a p) =
       p\<lparr>pr_res := fst (signalfd_construct e (ma_child an) (ma_child_add an) (ma_close an) a (pr_res p)),
         pr_mask := pr_mask p \<union> make_sigset [SIGCHLD], pr_child_guard := Some (pr_mask p), pr_instance := Some a\<rparr>"
proof -
  let ?h = "sigchild_handler_construct e an a p"
  let ?b = "block e (ma_child_mask an) (make_sigset [SIGCHLD]) store_child p"
  let ?f = "signalfd_construct e (ma_child an) (ma_child_add an) (ma_close an) a"
  have d': "snd (and_then ?h (\<lambda>p. (p\<lparr>pr_instance := Some a\<rparr>, Done))) = Done"
    using d p by (simp add: install_construct_def)
  note H = and_then_DoneE [OF d']
  note B = and_then_DoneE [OF H(1) [unfolded sigchild_handler_construct_def]]
  note K = block_Done [OF B(1)]
  show "ma_child_mask an = None" by (rule K(1))
  obtain s x where f: "?f (pr_res p) = (s, x)" by force
  have x: "x = Done"
  proof (cases x)
    case (Threw msg)
    then show ?thesis using B(2) K(2) f by (auto simp: on_process_def dest: and_then_DoneE(2))
  qed (use B(2) K(2) f in \<open>auto simp: on_process_def\<close>)
  then show "snd (?f (pr_res p)) = Done" using f by simp
  show "fst (install_construct e an a p) =
       p\<lparr>pr_res := fst (?f (pr_res p)), pr_mask := pr_mask p \<union> make_sigset [SIGCHLD],
         pr_child_guard := Some (pr_mask p), pr_instance := Some a\<rparr>"
    using p H(3) B(3) K(2) f x by (simp add: install_construct_def sigchild_handler_construct_def on_process_def)
qed

lemma child_next:
  assumes "before_child base an la qs p" "snd (install_construct e an (la_child la) p) = Done"
  shows "before_queues base an la qs (fst (install_construct e an (la_child la) p))"
proof -
  have "pr_instance p = None" using assms(1) by (simp add: before_defs)
  note I = install_Done [OF assms(2) this]
  have pr: "prepared base ((la_child la, ma_child an) # queue_answers an la qs) (pr_res p)"
    using assms(1) by (simp add: before_defs)
  note A = watched_adds(1,2) [OF prepared_ready [OF pr] I(2)]
  show ?thesis using prepared_next [OF pr A] by (simp add: before_defs I(3))
qed

lemma members_undone:
  assumes "ma_unmask an = None"
  shows "undone_by same_process (startable base an la qs) (members_construct e an la qs) (members_destroy e an la qs)"
proof -
  have u5: "undone_by same_process (before_queues base an la qs)
      (on_process (construct_queues e an la [] qs)) (on_process (destroy_queues e an la qs))"
    by (rule on_process_undone [OF queues_undone]) (simp add: before_defs queue_answers_def)
  have u4: "undone_by same_process (before_child base an la qs) (install_construct e an (la_child la)) (install_destroy e an (la_child la))"
    by (rule proc.undone_by_mono [OF install_undone [OF assms, where base = base]]) (auto simp: before_defs intro: prepared_ready)
  have u3: "undone_by same_process (before_term base an la qs)
      (on_process (signalfd_construct e (ma_term an) (ma_term_add an) (ma_close an) (la_term la)))
      (on_process (watched_destroy e (ma_close an) (la_term la)))"
    unfolding signalfd_construct_def [abs_def] open_signalfd_def
    by (rule on_process_undone [OF watched_undone [where base = base]]) (auto simp: before_defs intro: prepared_ready)
  have u2: "undone_by same_process (before_guard base an la qs)
      (block e (ma_term_mask an) (make_sigset [SIGINT, SIGTERM]) store_term) (unblock e (ma_unmask an) pr_term_guard store_term)"
    unfolding assms by (rule proc.undone_by_mono [OF block_undone(1)]) (simp add: before_defs)
  have u1: "undone_by same_process (startable base an la qs)
      (on_process (epoll_construct e (ma_epoll an) (la_epoll la))) (on_process (fd_destroy e (ma_close an) (la_epoll la)))"
    by (rule on_process_undone [OF epoll_undone [where base = base]]) (auto simp: startable_def intro: prepared_ready)
  note 4 = proc.undone_by_seq [OF u4 u5 child_next]
  note 3 = proc.undone_by_seq [OF u3 4 term_next]
  note 2 = proc.undone_by_seq [OF u2 3 guard_next]
  note 1 = proc.undone_by_seq [OF u1 2 epoll_next]
  show ?thesis
    unfolding members_construct_def [abs_def] members_destroy_def [abs_def] by (rule 1)
qed

text \<open>They all exist exactly when no call failed.\<close>

lemma seq_Done:
  "snd (and_then r (\<lambda>s. unwinding d (f s))) = Done \<longleftrightarrow> snd r = Done \<and> snd (f (fst r)) = Done"
  "snd r = Done \<Longrightarrow> snd (f (fst r)) = Done \<Longrightarrow> fst (and_then r (\<lambda>s. unwinding d (f s))) = fst (f (fst r))"
proof -
  obtain s1 x where r: "r = (s1, x)" by force
  obtain s2 y where f: "f s1 = (s2, y)" by force
  show "snd (and_then r (\<lambda>s. unwinding d (f s))) = Done \<longleftrightarrow> snd r = Done \<and> snd (f (fst r)) = Done"
    using r f by (cases x; cases y; auto dest: and_then_DoneE(2))
  show "snd r = Done \<Longrightarrow> snd (f (fst r)) = Done \<Longrightarrow> fst (and_then r (\<lambda>s. unwinding d (f s))) = fst (f (fst r))"
    using r f by simp
qed

lemma install_Done_iff:
  assumes p: "before_child base an la qs p"
  shows "snd (install_construct e an (la_child la) p) = Done \<longleftrightarrow>
    ma_child_mask an = None \<and> succeeds (ma_child an) \<and> ma_child_add an = None"
proof -
  let ?f = "signalfd_construct e (ma_child an) (ma_child_add an) (ma_close an) (la_child la)"
  have i: "pr_instance p = None" and r: "ready_for base (la_child la) (ma_child an) (pr_res p)"
    using p by (auto simp: before_defs intro: prepared_ready)
  have f: "snd (?f (pr_res p)) = Done \<longleftrightarrow> succeeds (ma_child an) \<and> ma_child_add an = None"
    using receive_watch_Done [OF r] by (simp add: signalfd_construct_def open_signalfd_def)
  show ?thesis
  proof
    assume "snd (install_construct e an (la_child la) p) = Done"
    from install_Done [OF this i] f show "ma_child_mask an = None \<and> succeeds (ma_child an) \<and> ma_child_add an = None" by blast
  next
    assume s: "ma_child_mask an = None \<and> succeeds (ma_child an) \<and> ma_child_add an = None"
    then have d: "snd (?f (pr_res p)) = Done" using f by blast
    then show "snd (install_construct e an (la_child la) p) = Done"
      using s i by (cases "?f (pr_res p)")
        (simp add: install_construct_def sigchild_handler_construct_def block_def block_signals_construct_def throw_text_def
          on_process_def)
  qed
qed

text \<open>The interest list and the signal mask of a program that has started.\<close>

definition started :: "int set \<Rightarrow> member_answers \<Rightarrow> member_addresses \<Rightarrow> nat list \<Rightarrow> process \<Rightarrow> process \<Rightarrow> bool" where
  "started base an la qs p p' \<longleftrightarrow>
     resources_ok base (pr_res p') \<and> pr_instance p' = Some (la_child la) \<and>
     pr_mask p' = pr_mask p \<union> {SIGINT, SIGTERM, SIGCHLD} \<and>
     (\<forall>fd w. res_interest (pr_res p') fd = Some w \<longleftrightarrow>
        res_interest (pr_res p) fd = Some w \<or>
        ma_term an = Inr fd \<and> w = (epollin, la_term la) \<or>
        ma_child an = Inr fd \<and> w = (epollin, la_child la) \<or>
        (\<exists>j \<in> set qs. ma_queue an j = Inr fd \<and> w = (epollin, la_queue la j)))"

lemma interest_iff:
  assumes "resources_ok base s"
  shows "res_interest s fd = Some (ev, a) \<longleftrightarrow>
    (\<exists>r. res_regs s a = Some r \<and> rg_ep r \<and> rg_fd r = fd \<and> rg_events r = ev)"
  using resources_okD(7,8) [OF assms] by blast
text \<open>The run of the constructor, member by member.\<close>

lemma members_steps:
  fixes e an la p
  defines "p1 \<equiv> fst (on_process (epoll_construct e (ma_epoll an) (la_epoll la)) p)"
  defines "p2 \<equiv> fst (block e (ma_term_mask an) (make_sigset [SIGINT, SIGTERM]) store_term p1)"
  defines "p3 \<equiv> fst (on_process (signalfd_construct e (ma_term an) (ma_term_add an) (ma_close an) (la_term la)) p2)"
  defines "p4 \<equiv> fst (install_construct e an (la_child la) p3)"
  shows "snd (members_construct e an la qs p) = Done \<longleftrightarrow>
      snd (epoll_construct e (ma_epoll an) (la_epoll la) (pr_res p)) = Done \<and>
      snd (block e (ma_term_mask an) (make_sigset [SIGINT, SIGTERM]) store_term p1) = Done \<and>
      snd (signalfd_construct e (ma_term an) (ma_term_add an) (ma_close an) (la_term la) (pr_res p2)) = Done \<and>
      snd (install_construct e an (la_child la) p3) = Done \<and> snd (construct_queues e an la [] qs (pr_res p4)) = Done"
    "snd (members_construct e an la qs p) = Done \<Longrightarrow>
      fst (members_construct e an la qs p) = p4\<lparr>pr_res := fst (construct_queues e an la [] qs (pr_res p4))\<rparr>"
proof -
  show iff: "snd (members_construct e an la qs p) = Done \<longleftrightarrow>
      snd (epoll_construct e (ma_epoll an) (la_epoll la) (pr_res p)) = Done \<and>
      snd (block e (ma_term_mask an) (make_sigset [SIGINT, SIGTERM]) store_term p1) = Done \<and>
      snd (signalfd_construct e (ma_term an) (ma_term_add an) (ma_close an) (la_term la) (pr_res p2)) = Done \<and>
      snd (install_construct e an (la_child la) p3) = Done \<and> snd (construct_queues e an la [] qs (pr_res p4)) = Done"
    unfolding members_construct_def seq_Done(1) p1_def [symmetric] p2_def [symmetric] p3_def [symmetric] p4_def [symmetric]
    by (simp add: on_process_simps)
  assume d: "snd (members_construct e an la qs p) = Done"
  have "fst (members_construct e an la qs p) = fst (on_process (construct_queues e an la [] qs) p4)"
    unfolding members_construct_def
    by (subst seq_Done(2) | simp add: seq_Done(1) on_process_simps(1) p1_def [symmetric] p2_def [symmetric]
        p3_def [symmetric] p4_def [symmetric] d [unfolded iff])+
  then show "fst (members_construct e an la qs p) = p4\<lparr>pr_res := fst (construct_queues e an la [] qs (pr_res p4))\<rparr>"
    by (simp add: on_process_def split: prod.splits)
qed

lemma sigsets: "make_sigset [SIGINT, SIGTERM] = {SIGINT, SIGTERM}" "make_sigset [SIGCHLD] = {SIGCHLD}"
  by (auto simp: make_sigset_eq SIGINT_def SIGTERM_def SIGCHLD_def)

lemma members_interest:
  assumes st: "startable base an la qs p" and s5: "resources_ok base s"
    and ft: "ma_term an = Inr ft" and fc: "ma_child an = Inr fc"
    and regs: "res_regs s4 = (res_regs (pr_res p))
      (la_term la \<mapsto> \<lparr>rg_ep = True, rg_fd = ft, rg_events = epollin, rg_callback = Some (la_term la)\<rparr>,
       la_child la \<mapsto> \<lparr>rg_ep = True, rg_fd = fc, rg_events = epollin, rg_callback = Some (la_child la)\<rparr>)"
    and ex: "exist (la_queue la) (ma_queue an) qs s4 s"
  shows "res_interest s fd = Some (ev, a) \<longleftrightarrow> res_interest (pr_res p) fd = Some (ev, a) \<or>
    ma_term an = Inr fd \<and> (ev, a) = (epollin, la_term la) \<or>
    ma_child an = Inr fd \<and> (ev, a) = (epollin, la_child la) \<or>
    (\<exists>j \<in> set qs. ma_queue an j = Inr fd \<and> (ev, a) = (epollin, la_queue la j))"
proof (cases "a \<in> la_queue la ` set qs")
  case True
  then obtain j where j: "j \<in> set qs" "a = la_queue la j" by blast
  have ok: "resources_ok base (pr_res p)" and old: "res_regs (pr_res p) (la_queue la j) = None"
    and ne: "la_term la \<notin> la_queue la ` set qs" "la_child la \<notin> la_queue la ` set qs"
    and dist: "distinct (map (la_queue la) qs)"
    using st j by (auto simp: startable_def prepared_def queue_answers_def vacant_def image_iff comp_def)
  obtain fj where fj: "ma_queue an j = Inr fj"
    "res_regs s a = Some \<lparr>rg_ep = True, rg_fd = fj, rg_events = epollin, rg_callback = Some a\<rparr>"
    using ex j unfolding exist_def by blast
  have "i = j" if "i \<in> set qs" "la_queue la i = a" for i
    using dist that j by (auto simp: distinct_map inj_on_def)
  then have R: "(\<exists>i \<in> set qs. ma_queue an i = Inr fd \<and> (ev, a) = (epollin, la_queue la i)) \<longleftrightarrow> fd = fj \<and> ev = epollin"
    using j fj(1) by auto
  have L: "res_interest s fd = Some (ev, a) \<longleftrightarrow> fd = fj \<and> ev = epollin"
    unfolding interest_iff [OF s5] by (auto simp: fj(2))
  have "res_interest (pr_res p) fd \<noteq> Some (ev, a)" "a \<noteq> la_term la" "a \<noteq> la_child la"
    using old ne True unfolding interest_iff [OF ok] j(2) by auto
  then show ?thesis unfolding R L by simp
next
  case False
  have ok: "resources_ok base (pr_res p)" and old: "res_regs (pr_res p) (la_term la) = None"
    "res_regs (pr_res p) (la_child la) = None" and ne: "la_term la \<noteq> la_child la"
    using st by (auto simp: startable_def prepared_def vacant_def)
  have "res_regs s a = res_regs s4 a" using ex False by (simp add: exist_def)
  then show ?thesis
    using False ft fc regs old ne unfolding interest_iff [OF s5] interest_iff [OF ok] by auto
qed

lemma members_exist:
  assumes st: "startable base an la qs p"
  shows "snd (members_construct e an la qs p) = Done \<longleftrightarrow> calls_succeed an qs"
proof -
  let ?p1 = "fst (on_process (epoll_construct e (ma_epoll an) (la_epoll la)) p)"
  let ?p2 = "fst (block e (ma_term_mask an) (make_sigset [SIGINT, SIGTERM]) store_term ?p1)"
  let ?t = "signalfd_construct e (ma_term an) (ma_term_add an) (ma_close an) (la_term la)"
  let ?p3 = "fst (on_process ?t ?p2)"
  let ?p4 = "fst (install_construct e an (la_child la) ?p3)"
  note steps = members_steps [where e = e and an = an and la = la and p = p and qs = qs]
  have 1: "snd (epoll_construct e (ma_epoll an) (la_epoll la) (pr_res p)) = Done \<longleftrightarrow> succeeds (ma_epoll an)"
    by (cases "ma_epoll an") (simp_all add: epoll_construct_def fd_receive_def)
  have b1: "before_guard base an la qs ?p1" if "snd (epoll_construct e (ma_epoll an) (la_epoll la) (pr_res p)) = Done"
    by (rule epoll_next [OF st]) (use that in \<open>simp add: on_process_simps\<close>)
  have 2: "snd (block e (ma_term_mask an) (make_sigset [SIGINT, SIGTERM]) store_term ?p1) = Done \<longleftrightarrow> ma_term_mask an = None"
    by (cases "ma_term_mask an") (simp_all add: block_def block_signals_construct_def throw_text_def)
  have 3: "snd (?t (pr_res ?p2)) = Done \<longleftrightarrow> succeeds (ma_term an) \<and> ma_term_add an = None" if "before_term base an la qs ?p2"
    unfolding signalfd_construct_def open_signalfd_def
    by (rule receive_watch_Done [where base = base], rule prepared_ready [where xs = "(la_child la, ma_child an) # queue_answers an la qs"])
       (use that in \<open>simp add: before_defs\<close>)
  have 5: "snd (construct_queues e an la [] qs (pr_res ?p4)) = Done \<longleftrightarrow>
      (\<forall>j \<in> set qs. succeeds (ma_queue an j) \<and> ma_queue_add an j = None)" if "before_queues base an la qs ?p4"
    by (rule construct_queues_Done) (use that in \<open>simp add: before_defs queue_answers_def\<close>)
  have n2: "before_term base an la qs ?p2" if "before_guard base an la qs ?p1" "ma_term_mask an = None"
    using guard_next [OF that(1)] 2 that(2) by blast
  have n3: "before_child base an la qs ?p3" if "before_term base an la qs ?p2" "snd (?t (pr_res ?p2)) = Done"
    by (rule term_next [OF that(1)]) (use that(2) in \<open>simp add: on_process_simps\<close>)
  have n4: "before_queues base an la qs ?p4" if "before_child base an la qs ?p3" "snd (install_construct e an (la_child la) ?p3) = Done"
    by (rule child_next [OF that])
  show "snd (members_construct e an la qs p) = Done \<longleftrightarrow> calls_succeed an qs"
    unfolding steps(1) calls_succeed_def using 1 b1 2 3 n2 n3 n4 5 install_Done_iff by blast
qed

lemma members_started:
  assumes st: "startable base an la qs p" and d: "snd (members_construct e an la qs p) = Done"
  shows "started base an la qs p (fst (members_construct e an la qs p))"
proof -
  let ?p1 = "fst (on_process (epoll_construct e (ma_epoll an) (la_epoll la)) p)"
  let ?p2 = "fst (block e (ma_term_mask an) (make_sigset [SIGINT, SIGTERM]) store_term ?p1)"
  let ?t = "signalfd_construct e (ma_term an) (ma_term_add an) (ma_close an) (la_term la)"
  let ?p3 = "fst (on_process ?t ?p2)"
  let ?p4 = "fst (install_construct e an (la_child la) ?p3)"
  note steps = members_steps [where e = e and an = an and la = la and p = p and qs = qs]
  note D = d [unfolded steps(1)]
  have B: "before_guard base an la qs ?p1" "before_term base an la qs ?p2" "before_child base an la qs ?p3"
    "before_queues base an la qs ?p4"
    using D epoll_next [OF st, of e] guard_next [of base an la qs ?p1 e] term_next [of base an la qs ?p2 e]
      child_next [of base an la qs ?p3 e] by (simp_all only: on_process_simps(1))
  let ?s5 = "fst (construct_queues e an la [] qs (pr_res ?p4))"
  let ?reg = "\<lambda>fd a. \<lparr>rg_ep = True, rg_fd = fd, rg_events = epollin, rg_callback = Some a\<rparr>"
  have r2: "ready_for base (la_term la) (ma_term an) (pr_res ?p2)"
    and r3: "ready_for base (la_child la) (ma_child an) (pr_res ?p3)"
    and p4: "prepared base (map (\<lambda>j. (la_queue la j, ma_queue an j)) qs) (pr_res ?p4)"
    using B(2-4) by (auto simp: before_defs queue_answers_def intro: prepared_ready)
  have i3: "pr_instance ?p3 = None" using B(3) by (simp add: before_defs)
  note I = install_Done [OF D [THEN conjunct2, THEN conjunct2, THEN conjunct2, THEN conjunct1] i3]
  note b2 = block_Done(2) [OF D [THEN conjunct2, THEN conjunct1]]
  have regs2: "res_regs (pr_res ?p2) = res_regs (pr_res p)"
  proof -
    have "prepared base ((la_epoll la, ma_epoll an) # (la_term la, ma_term an) # (la_child la, ma_child an) #
        queue_answers an la qs) (pr_res p)"
      using st by (simp add: startable_def)
    from epoll_adds(3) [OF prepared_ready [OF this] D [THEN conjunct1]] show ?thesis
      by (simp add: b2 on_process_simps)
  qed
  obtain ft where ft: "ma_term an = Inr ft" "res_regs (pr_res ?p3) = (res_regs (pr_res p))(la_term la \<mapsto> ?reg ft (la_term la))"
    using watched_adds(3) [OF r2 D [THEN conjunct2, THEN conjunct2, THEN conjunct1]] by (auto simp: on_process_simps regs2)
  obtain fc where fc: "ma_child an = Inr fc" "res_regs (pr_res ?p4) = (res_regs (pr_res ?p3))(la_child la \<mapsto> ?reg fc (la_child la))"
    using watched_adds(3) [OF r3 I(2)] by (auto simp: I(3))
  note f = steps(2) [OF d]
  have "pr_mask ?p4 = pr_mask ?p3 \<union> make_sigset [SIGCHLD]" "pr_instance ?p4 = Some (la_child la)" by (subst I(3), simp)+
  moreover have "pr_mask ?p3 = pr_mask ?p2" by (simp only: on_process_simps)
  moreover have "pr_mask ?p2 = pr_mask p \<union> make_sigset [SIGINT, SIGTERM]" by (subst b2) (simp add: on_process_simps)
  ultimately have mask: "pr_mask ?p4 = pr_mask p \<union> {SIGINT, SIGTERM, SIGCHLD}" "pr_instance ?p4 = Some (la_child la)"
    by (simp_all only: sigsets Un_assoc Un_insert_left Un_empty_left)
  have "snd (construct_queues e an la [] qs (pr_res ?p4)) = Done" using D by blast
  note s5 = queues_start(3,4) [OF p4 this]
  have "res_regs (pr_res ?p4) = (res_regs (pr_res p))(la_term la \<mapsto> ?reg ft (la_term la), la_child la \<mapsto> ?reg fc (la_child la))"
    by (simp only: fc(2) ft(2))
  from members_interest [OF st s5(1) ft(1) fc(1) this s5(2)]
  show ?thesis unfolding started_def f using mask s5(1) by simp
qed

text \<open>
  Once the program has started, an object that waits for a child finds the handler at both ends of
  its life: what remains of its constructor and destructor is the registry of children, as the task
  handles use it.
\<close>

lemma started_wait_child:
  assumes "started base an la qs p p'"
  shows "wait_child_construct p' pid i e = sigchild_add pid i e" "wait_child_destroy p' pid e = sigchild_remove pid e"
  using assms by (simp_all add: started_def wait_child_construct_def wait_child_destroy_def)

end
