(* ===== verification/System_Views.thy ===== *)
theory System_Views
  imports Context_Members_Facts
begin

text \<open>
  The two views of the system meet at the control socket: the task makes system calls of the record
  \<open>os\<close>, the class behind it has objects in \<open>resources\<close>. Here the calls of \<open>os\<close> are those of the kernel
  that \<open>resources\<close> contains.
\<close>

text \<open>What the kernel knows: the open descriptors and the interest list.\<close>

definition kernel_part :: "resources \<Rightarrow> int set \<times> (int \<rightharpoonup> uint32 \<times> addr)" where
  "kernel_part s = (res_open s, res_interest s)"

definition kernel_os ::
    "resources os \<Rightarrow> errno + int \<Rightarrow> errno option \<Rightarrow> errno option \<Rightarrow> errno option \<Rightarrow> errno option \<Rightarrow> addr \<Rightarrow>
     resources os" where
  "kernel_os os ans bound listening add cl a =
     os\<lparr>os_socket := (\<lambda>s. case ans of Inl err \<Rightarrow> (Inl err, s)
          | Inr fd \<Rightarrow> (Inr (nat fd), s\<lparr>res_open := insert fd (res_open s)\<rparr>)),
        os_bind := (\<lambda>fd p s. (bound, s)),
        os_listen := (\<lambda>fd s. (listening, s)),
        os_epoll_add := (\<lambda>fd s. sys_epoll_add add (int fd) epollin a s),
        os_epoll_del := (\<lambda>fd s. snd (sys_epoll_del (int fd) s)),
        os_close := (\<lambda>fd s. snd (sys_close cl (int fd) s)),
        os_unlink := (\<lambda>p s. (None, s))\<rparr>"

lemma server_views:
  fixes os ans bound listening add cl a tmp s path
  assumes ok: "resources_ok base s" and a: "vacant a s" and tmp: "vacant tmp s" "tmp \<noteq> a" and fresh: "fresh_answer ans s"
    and fits: "length path \<le> os_sun_path_size os - 1"
  defines "k \<equiv> kernel_os os ans bound listening add cl a"
    and "c \<equiv> stream_server_socket_construct (os_strerror os) ans bound listening add cl tmp a s"
  shows "(case fst (server_socket_create k path s) of
      Inl msg \<Rightarrow> snd c = Threw msg
    | Inr fd \<Rightarrow> snd c = Done \<and> res_fds (fst c) a = Some (int fd)) \<and>
    kernel_part (snd (server_socket_create k path s)) = kernel_part (fst c)"
proof (cases ans)
  case (Inl err)
  then show ?thesis using fits
    by (simp add: k_def c_def kernel_os_def server_socket_create_def stream_server_socket_construct_def prepare_server_socket_def
        create_socket_def fd_receive_def sys_error_def)
next
  case (Inr fd)
  have fd: "0 \<le> fd" "fd \<notin> res_open s" using fresh Inr by (simp_all add: fresh_answer_def)
  note i = closed_interest [OF ok fd(2)]
  have v: "res_fds s a = None" "res_regs s a = None" "res_fds s tmp = None" using a tmp by (simp_all add: vacant_def)
  show ?thesis
    using fits fd i v tmp(2)
    by (cases bound; cases listening; cases add; cases cl;
      simp add: k_def c_def kernel_os_def server_socket_create_def stream_server_socket_construct_def prepare_server_socket_def
        create_socket_def fd_receive_Inr sys_error_def Inr with_local_def bind_socket_def listen_socket_def throw_error_def
        fd_construct_def fd_move_def fd_destroy_def sys_close_def watch_def reg_construct_def epoll_add_def sys_epoll_add_def
        getfd_def put_reg_def kernel_part_def log_error_def and_then_def)
qed

text \<open>What the construction leaves when it succeeds.\<close>

lemma server_Done:
  fixes strerror ans bound listening add cl a tmp s
  assumes ok: "resources_ok base s" and a: "vacant a s" and tmp: "vacant tmp s" "tmp \<noteq> a" and fresh: "fresh_answer ans s"
  defines "c \<equiv> stream_server_socket_construct strerror ans bound listening add cl tmp a s"
  assumes d: "snd c = Done"
  shows "\<exists>fd. ans = Inr fd \<and> resources_ok base (fst c) \<and> res_open (fst c) = insert fd (res_open s) \<and>
    res_interest (fst c) = (res_interest s)(fd \<mapsto> (epollin, a)) \<and>
    res_fds (fst c) = (res_fds s)(a \<mapsto> fd) \<and>
    res_regs (fst c) = (res_regs s)(a \<mapsto> \<lparr>rg_ep = True, rg_fd = fd, rg_events = epollin, rg_callback = Some a\<rparr>)"
proof (cases ans)
  case (Inl err)
  then show ?thesis using d
    by (simp add: c_def stream_server_socket_construct_def prepare_server_socket_def create_socket_def fd_receive_def)
next
  case (Inr fd)
  have fd: "0 \<le> fd" "fd \<notin> res_open s" using fresh Inr by (simp_all add: fresh_answer_def)
  note i = closed_interest [OF ok fd(2)]
  have v: "res_fds s a = None" "res_regs s a = None" "res_fds s tmp = None" using a tmp by (simp_all add: vacant_def)
  have "resources_ok base (fst c)"
    unfolding c_def stream_server_socket_construct_def prepare_server_socket_def
    by (rule local_socket_ok [THEN conjunct1, OF ok a tmp fresh])
      (auto simp: bind_socket_def listen_socket_def throw_error_def and_then_def aborted_def split: option.splits)
  moreover have "res_open (fst c) = insert fd (res_open s) \<and> res_interest (fst c) = (res_interest s)(fd \<mapsto> (epollin, a)) \<and>
    res_fds (fst c) = (res_fds s)(a \<mapsto> fd) \<and>
    res_regs (fst c) = (res_regs s)(a \<mapsto> \<lparr>rg_ep = True, rg_fd = fd, rg_events = epollin, rg_callback = Some a\<rparr>)"
    using d fd i v tmp(2)
    by (cases bound; cases listening; cases add; cases cl;
      simp add: c_def stream_server_socket_construct_def prepare_server_socket_def fun_upd_twist fun_upd_idem
        create_socket_def fd_receive_Inr Inr with_local_def bind_socket_def listen_socket_def throw_error_def
        fd_construct_def fd_move_def fd_destroy_def sys_close_def watch_def reg_construct_def epoll_add_def sys_epoll_add_def
        getfd_def put_reg_def log_error_def and_then_def)
  ultimately show ?thesis using Inr by blast
qed

text \<open>Both destructors take back what was opened.\<close>

lemma kernel_destroy:
  assumes "kernel_part w = (insert (int fd) opened, interest(int fd \<mapsto> x))" "int fd \<notin> opened" "interest (int fd) = None"
  shows "kernel_part (control_task_destroy (kernel_os os ans bound listening add cl a) (path, fd) w) = (opened, interest)"
proof -
  have "int fd \<in> res_open w" "res_interest w (int fd) \<noteq> None" using assms(1) by (auto simp: kernel_part_def)
  then show ?thesis using assms
    by (auto simp: control_task_destroy_def kernel_os_def sys_epoll_del_def sys_close_def kernel_part_def Let_def fun_upd_idem)
qed

lemma server_views_end:
  fixes os ans bound listening add cl a tmp s path
  assumes ok: "resources_ok base s" and a: "vacant a s" and tmp: "vacant tmp s" "tmp \<noteq> a" and fresh: "fresh_answer ans s"
    and fits: "length path \<le> os_sun_path_size os - 1"
  defines "k \<equiv> kernel_os os ans bound listening add cl a"
    and "c \<equiv> stream_server_socket_construct (os_strerror os) ans bound listening add cl tmp a s"
  assumes r: "fst (server_socket_create k path s) = Inr fd"
  shows "kernel_part (control_task_destroy k (path, fd) (snd (server_socket_create k path s))) = kernel_part s"
    "same_resources (fst (watched_destroy (os_strerror os) cl a (fst c))) s"
    "snd (watched_destroy (os_strerror os) cl a (fst c)) = Done"
proof -
  note V = server_views [OF ok a tmp fresh fits, of bound listening add cl, folded k_def c_def]
  have d: "snd c = Done" and f: "res_fds (fst c) a = Some (int fd)" using V r by simp_all
  obtain fd' where "ans = Inr fd'" and C: "resources_ok base (fst c)" "res_open (fst c) = insert fd' (res_open s)"
    "res_interest (fst c) = (res_interest s)(fd' \<mapsto> (epollin, a))" "res_fds (fst c) = (res_fds s)(a \<mapsto> fd')"
    "res_regs (fst c) = (res_regs s)(a \<mapsto> \<lparr>rg_ep = True, rg_fd = fd', rg_events = epollin, rg_callback = Some a\<rparr>)"
    using server_Done [OF ok a tmp fresh, of "os_strerror os" bound listening add cl, folded c_def, OF d] by blast
  then have fd: "fd' = int fd" "ans = Inr (int fd)" using f by simp_all
  have new: "int fd \<notin> res_open s" using fresh fd by (simp add: fresh_answer_def)
  note i = closed_interest [OF ok new]
  have w: "res_fds (fst c) a \<noteq> None" "res_regs (fst c) a \<noteq> None" by (simp_all add: C)
  note D = watched_destroy_ok [OF C(1) w, of "os_strerror os" cl] watched_destroy_maps [OF C(1) w, of "os_strerror os" cl]
  show "snd (watched_destroy (os_strerror os) cl a (fst c)) = Done" by (rule D(2))
  show "same_resources (fst (watched_destroy (os_strerror os) cl a (fst c))) s"
    by (rule same_resourcesI [OF D(1) ok]) (use D(5,6) C a in \<open>simp_all add: vacant_def fun_upd_idem\<close>)
  show "kernel_part (control_task_destroy k (path, fd) (snd (server_socket_create k path s))) = kernel_part s"
    using kernel_destroy [of "snd (server_socket_create k path s)" fd "res_open s" "res_interest s"] V C(2,3) fd(1) new i
    by (simp add: kernel_part_def k_def)
qed

end
