(* ===== verification/Config_Test.thy ===== *)
theory Config_Test
  imports Config_File Sysapi_Calls
begin

text \<open>
  The test program \<^verbatim>\<open>test-config/main.cpp\<close>: it finds the test files, and for each of them compares
  the dump of what is read with a stored file.
\<close>

section \<open>Files\<close>

definition read_entire_file_if_exists ::
    "(errno \<Rightarrow> string) \<Rightarrow> file_answers \<Rightarrow> string \<Rightarrow> addr \<Rightarrow> resources \<Rightarrow>
     (string + string option) \<times> resources" where
  "read_entire_file_if_exists strerror fa filename a s =
     (case fd_open_if_exists strerror (fa_open fa) filename a s of
        (s1, Done) \<Rightarrow>
          (if getfd a s1 = -1 then Inr None else map_sum id Some (read_sized strerror fa (getfd a s1)),
           fst (fd_destroy strerror (fa_close fa) a s1))
      | (s1, Threw msg) \<Rightarrow> (Inl msg, s1)
      | (s1, Aborted msg) \<Rightarrow> (Inl msg, s1))"

definition write_entire_file ::
    "(errno \<Rightarrow> string) \<Rightarrow> errno + int \<Rightarrow> errno + nat \<Rightarrow> errno option \<Rightarrow> string \<Rightarrow> string \<Rightarrow> addr \<Rightarrow>
     resources \<Rightarrow> (string + unit) \<times> resources" where
  "write_entire_file strerror opened written cl filename data a s =
     (case fd_open strerror opened filename a s of
        (s1, Done) \<Rightarrow>
          (write_exactly strerror written (getfd a s1) (length data), fst (fd_destroy strerror cl a s1))
      | (s1, Threw msg) \<Rightarrow> (Inl msg, s1)
      | (s1, Aborted msg) \<Rightarrow> (Inl msg, s1))"

text \<open>
  The functions of \<^verbatim>\<open>boost::filesystem\<close> on paths, and what the system calls of one test answer. A
  path that is printed is quoted.
\<close>

record path_functions =
  pf_extension :: "string \<Rightarrow> string"
  pf_replace_extension :: "string \<Rightarrow> string \<Rightarrow> string"
  pf_filename :: "string \<Rightarrow> string"
  pf_quoted :: "string \<Rightarrow> string"

record test_answers =
  ta_config :: file_answers
  ta_gold :: file_answers
  ta_open :: "errno + int"
  ta_write :: "errno + nat"
  ta_close :: "errno option"

section \<open>One test\<close>

definition squoted :: "string \<Rightarrow> string" where
  "squoted p = [CHR 0x27] @ p @ [CHR 0x27]"

text \<open>The message of a failed check. Without a stored output only an empty output passes.\<close>

definition compare_with_gold ::
    "path_functions \<Rightarrow> string \<Rightarrow> string \<Rightarrow> string \<Rightarrow> string option \<Rightarrow> string option" where
  "compare_with_gold pf gold_filename out_filename output gold_data =
     (case gold_data of
        None \<Rightarrow>
          (if output \<noteq> [] then Some (''missing gold file \"'' @ pf_quoted pf gold_filename @ ''\"'') else None)
      | Some bytes \<Rightarrow>
          (if output \<noteq> bytes
           then Some (''gold/output mismatch'' @ newline @
             ''    diff '' @ squoted (pf_filename pf gold_filename) @ '' '' @
               squoted (pf_filename pf out_filename) @ '' | colordiff'' @ newline @
             ''    mv '' @ squoted (pf_filename pf out_filename) @ '' '' @ squoted (pf_filename pf gold_filename))
           else None))"

text \<open>
  The result of a test: the messages of the failed checks, which the framework collects while the
  test goes on, the file that was written with its contents, and how the test ended.
\<close>

datatype test_end = Test_returns | Test_throws string | Test_faults fault

record test_result =
  tr_failed :: "string list"
  tr_written :: "(string \<times> string) option"
  tr_end :: test_end

definition fail_check ::
    "(errno \<Rightarrow> string) \<Rightarrow> test_answers \<Rightarrow> string \<Rightarrow> string \<Rightarrow> string \<Rightarrow> addr \<Rightarrow> resources \<Rightarrow>
     test_result \<times> resources" where
  "fail_check strerror ta message out_filename output a s =
     (case write_entire_file strerror (ta_open ta) (ta_write ta) (ta_close ta) out_filename output a s of
        (Inl msg, s1) \<Rightarrow> (\<lparr>tr_failed = [message], tr_written = None, tr_end = Test_throws msg\<rparr>, s1)
      | (Inr u, s1) \<Rightarrow>
          (\<lparr>tr_failed = [message], tr_written = Some (out_filename, output), tr_end = Test_returns\<rparr>, s1))"

definition run_test_on_file ::
    "(errno \<Rightarrow> string) \<Rightarrow> path_functions \<Rightarrow> test_answers \<Rightarrow> string \<Rightarrow> addr \<Rightarrow> resources \<Rightarrow>
     test_result \<times> resources" where
  "run_test_on_file strerror pf ta filename a s =
     (case read_descriptions_file strerror (ta_config ta) filename a s of
        (Inl msg, s1) \<Rightarrow> (\<lparr>tr_failed = [], tr_written = None, tr_end = Test_throws msg\<rparr>, s1)
      | (Inr (Inl f), s1) \<Rightarrow> (\<lparr>tr_failed = [], tr_written = None, tr_end = Test_faults f\<rparr>, s1)
      | (Inr (Inr (descrs, errors)), s1) \<Rightarrow>
          (let output = errors @ dump_tasks descrs;
               gold_filename = pf_replace_extension pf filename ''.gold'';
               out_filename = pf_replace_extension pf filename ''.out'' in
           case read_entire_file_if_exists strerror (ta_gold ta) gold_filename a s1 of
             (Inl msg, s2) \<Rightarrow> (\<lparr>tr_failed = [], tr_written = None, tr_end = Test_throws msg\<rparr>, s2)
           | (Inr gold_data, s2) \<Rightarrow>
               (case compare_with_gold pf gold_filename out_filename output gold_data of
                  None \<Rightarrow> (\<lparr>tr_failed = [], tr_written = None, tr_end = Test_returns\<rparr>, s2)
                | Some message \<Rightarrow> fail_check strerror ta message out_filename output a s2)))"

text \<open>A test passes when it returns without a failed check.\<close>

definition passes :: "test_result \<Rightarrow> bool" where
  "passes r \<longleftrightarrow> tr_failed r = [] \<and> tr_end r = Test_returns"

section \<open>All tests\<close>

text \<open>
  The entries of the directory are those that the iterator gives, or its exception; a test case is
  added to the suite of the framework with its name.
\<close>

definition init_function ::
    "(errno \<Rightarrow> string) \<Rightarrow> path_functions \<Rightarrow> errno option \<Rightarrow> string \<Rightarrow> (string \<Rightarrow> string + string list) \<Rightarrow>
     string + (string \<times> string) list" where
  "init_function strerror pf chdir tests_directory entries =
     (case set_current_directory strerror chdir tests_directory of
        Some msg \<Rightarrow> Inl msg
      | None \<Rightarrow>
          map_sum id (\<lambda>paths.
             map (\<lambda>p. (p, ''run_test_on_file(\"'' @ p @ ''\")'')) (filter (\<lambda>p. pf_extension pf p = ''.txt'') paths))
            (entries ''./config_tests/''))"

section \<open>What a test does\<close>

lemma read_if_exists_spec:
  assumes ok: "resources_ok base s" and a: "vacant a s" and fresh: "fresh_answer (fa_open fa) s"
  shows "same_resources (snd (read_entire_file_if_exists e fa f a s)) s"
    "fst (read_entire_file_if_exists e fa f a s) = Inr (Some u) \<longleftrightarrow>
       (\<exists>fd. fa_open fa = Inr fd) \<and> fa_stat fa = Inr (length u) \<and> fa_read fa = Inr u"
    "fst (read_entire_file_if_exists e fa f a s) = Inr None \<longleftrightarrow> fa_open fa = Inl ENOENT"
proof -
  have "same_resources (snd (read_entire_file_if_exists e fa f a s)) s \<and>
    (fst (read_entire_file_if_exists e fa f a s) = Inr (Some u) \<longleftrightarrow>
       (\<exists>fd. fa_open fa = Inr fd) \<and> fa_stat fa = Inr (length u) \<and> fa_read fa = Inr u) \<and>
    (fst (read_entire_file_if_exists e fa f a s) = Inr None \<longleftrightarrow> fa_open fa = Inl ENOENT)"
  proof (cases "fa_open fa")
    case (Inl err)
    have "(res_fds s)(a := None) = res_fds s" using a by (simp add: vacant_def fun_upd_idem)
    then show ?thesis
      by (simp add: Inl read_entire_file_if_exists_def fd_open_if_exists_def fd_receive_def fd_construct_def getfd_def
          fd_destroy_def same_resources_def)
  next
    case (Inr fd)
    then have fd: "0 \<le> fd" "fd \<notin> res_open s" using fresh by (simp_all add: fresh_answer_def)
    note D = opened_and_destroyed [OF ok a fd]
    have "(\<exists>v. read_sized e fa fd = Inr v \<and> v = u) \<longleftrightarrow> fa_stat fa = Inr (length u) \<and> fa_read fa = Inr u"
      by (simp add: read_sized_Inr)
    then show ?thesis
      using D fd(1) by (cases "read_sized e fa fd")
        (simp_all add: Inr read_entire_file_if_exists_def fd_open_if_exists_def fd_receive_Inr same_resources_def)
  qed
  then show "same_resources (snd (read_entire_file_if_exists e fa f a s)) s"
    "fst (read_entire_file_if_exists e fa f a s) = Inr (Some u) \<longleftrightarrow>
       (\<exists>fd. fa_open fa = Inr fd) \<and> fa_stat fa = Inr (length u) \<and> fa_read fa = Inr u"
    "fst (read_entire_file_if_exists e fa f a s) = Inr None \<longleftrightarrow> fa_open fa = Inl ENOENT"
    by blast+
qed

lemma write_entire_file_spec:
  assumes ok: "resources_ok base s" and a: "vacant a s" and fresh: "fresh_answer opened s"
  shows "same_resources (snd (write_entire_file e opened written cl f u a s)) s"
    "fst (write_entire_file e opened written cl f u a s) = Inr () \<longleftrightarrow> (\<exists>fd. opened = Inr fd) \<and> written = Inr (length u)"
proof -
  have "same_resources (snd (write_entire_file e opened written cl f u a s)) s \<and>
    (fst (write_entire_file e opened written cl f u a s) = Inr () \<longleftrightarrow> (\<exists>fd. opened = Inr fd) \<and> written = Inr (length u))"
  proof (cases opened)
    case (Inr fd)
    then have fd: "0 \<le> fd" "fd \<notin> res_open s" using fresh by (simp_all add: fresh_answer_def)
    note D = opened_and_destroyed [OF ok a fd]
    show ?thesis
      using D by (cases written)
        (simp_all add: Inr write_entire_file_def fd_open_def fd_receive_Inr same_resources_def write_exactly_def write_some_def)
  qed (simp add: write_entire_file_def fd_open_def fd_receive_def same_resources_def)
  then show "same_resources (snd (write_entire_file e opened written cl f u a s)) s"
    "fst (write_entire_file e opened written cl f u a s) = Inr () \<longleftrightarrow> (\<exists>fd. opened = Inr fd) \<and> written = Inr (length u)"
    by blast+
qed

text \<open>The file exists, and one read gave all of it.\<close>

definition whole_file :: "file_answers \<Rightarrow> string \<Rightarrow> bool" where
  "whole_file fa u \<longleftrightarrow> (\<exists>fd. fa_open fa = Inr fd) \<and> fa_stat fa = Inr (length u) \<and> fa_read fa = Inr u"

definition test_ready :: "int set \<Rightarrow> test_answers \<Rightarrow> addr \<Rightarrow> resources \<Rightarrow> bool" where
  "test_ready base ta a s \<longleftrightarrow> resources_ok base s \<and> vacant a s \<and> fresh_answer (fa_open (ta_config ta)) s \<and>
     fresh_answer (fa_open (ta_gold ta)) s \<and> fresh_answer (ta_open ta) s"

lemma same_resources_ready: "same_resources t s \<Longrightarrow> test_ready base ta a t = test_ready base ta a s"
  by (simp add: test_ready_def same_resources_def resources_ok_def fds_ok_iff listed_def regs_own_def vacant_def
      fresh_answer_def)

lemma read_descriptions_file_spec:
  assumes "test_ready base ta a s"
  shows "same_resources (snd (read_descriptions_file e (ta_config ta) f a s)) s"
    "(\<exists>tds es. fst (read_descriptions_file e (ta_config ta) f a s) = Inr (Inr (tds, es)) \<and> out = es @ dump_tasks tds) \<longleftrightarrow>
       (\<exists>u. whole_file (ta_config ta) u \<and> test_output f u = Inr out)"
proof -
  note R = read_entire_file_spec [of base s a "ta_config ta" e f]
  have R': "same_resources (snd (read_entire_file e (ta_config ta) f a s)) s"
    "fst (read_entire_file e (ta_config ta) f a s) = Inr u \<longleftrightarrow> whole_file (ta_config ta) u" for u
    using R assms by (simp_all add: test_ready_def whole_file_def)
  obtain r s1 where r: "read_entire_file e (ta_config ta) f a s = (r, s1)" by force
  show "same_resources (snd (read_descriptions_file e (ta_config ta) f a s)) s"
    using R'(1) r by (auto simp: read_descriptions_file_def split: sum.splits)
  show "(\<exists>tds es. fst (read_descriptions_file e (ta_config ta) f a s) = Inr (Inr (tds, es)) \<and> out = es @ dump_tasks tds) \<longleftrightarrow>
       (\<exists>u. whole_file (ta_config ta) u \<and> test_output f u = Inr out)"
    unfolding R'(2) [symmetric] r
    by (cases r) (auto simp: r read_descriptions_file_def test_output_def bind_faulty_Inr_iff)
qed

lemma fail_check_simps:
  "tr_failed (fst (fail_check e ta msg f out a s)) = [msg]"
  "tr_written (fst (fail_check e ta msg f out a s)) = Some (g, v) \<Longrightarrow> v = out"
  "snd (fail_check e ta msg f out a s) = snd (write_entire_file e (ta_open ta) (ta_write ta) (ta_close ta) f out a s)"
  by (auto simp: fail_check_def split: prod.splits sum.splits)

text \<open>Whatever happens, a test leaves no descriptor open and nothing watched.\<close>

lemma run_test_same:
  assumes "test_ready base ta a s"
  shows "same_resources (snd (run_test_on_file e pf ta f a s)) s"
proof -
  obtain r s1 where r: "read_descriptions_file e (ta_config ta) f a s = (r, s1)" by force
  have 1: "same_resources s1 s" using read_descriptions_file_spec(1) [OF assms, of e f] r by simp
  then have ready1: "test_ready base ta a s1" using same_resources_ready assms by blast
  let ?g = "pf_replace_extension pf f ''.gold''" and ?o = "pf_replace_extension pf f ''.out''"
  obtain g s2 where g: "read_entire_file_if_exists e (ta_gold ta) ?g a s1 = (g, s2)" by force
  have 2: "same_resources s2 s1"
    using read_if_exists_spec(1) [of base s1 a "ta_gold ta" e ?g] ready1 g by (simp add: test_ready_def)
  then have ready2: "test_ready base ta a s2" using same_resources_ready ready1 by blast
  have 3: "same_resources (snd (fail_check e ta msg ?o u a s2)) s2" for msg u
    unfolding fail_check_simps by (rule write_entire_file_spec(1) [where base = base]) (use ready2 in \<open>simp_all add: test_ready_def\<close>)
  have "snd (run_test_on_file e pf ta f a s) \<in> {s1, s2} \<union> {snd (fail_check e ta msg ?o u a s2) | msg u. True}"
    by (auto simp: run_test_on_file_def Let_def r g split: sum.splits option.splits)
  moreover have "same_resources s2 s" by (rule same_resources_trans [OF 2 1])
  moreover have "same_resources (snd (fail_check e ta msg ?o u a s2)) s" for msg u
    by (rule same_resources_trans [OF 3]) fact
  ultimately show ?thesis using 1 by auto
qed

text \<open>
  A test passes exactly if its file and the stored one were read and the output is what is stored,
  where no stored file stands for the empty output.
\<close>

lemma passes_iff:
  assumes "test_ready base ta a s"
  shows "passes (fst (run_test_on_file e pf ta f a s)) \<longleftrightarrow>
    (\<exists>u out. whole_file (ta_config ta) u \<and> test_output f u = Inr out \<and>
       (whole_file (ta_gold ta) out \<or> fa_open (ta_gold ta) = Inl ENOENT \<and> out = []))"
proof -
  obtain r s1 where r: "read_descriptions_file e (ta_config ta) f a s = (r, s1)" by force
  note R = read_descriptions_file_spec [OF assms, of e f, unfolded r fst_conv snd_conv]
  have ready: "test_ready base ta a s1" using same_resources_ready [OF R(1)] assms by blast
  let ?g = "pf_replace_extension pf f ''.gold''" and ?o = "pf_replace_extension pf f ''.out''"
  obtain g s2 where g: "read_entire_file_if_exists e (ta_gold ta) ?g a s1 = (g, s2)" by force
  have G: "g = Inr (Some v) \<longleftrightarrow> whole_file (ta_gold ta) v" "g = Inr None \<longleftrightarrow> fa_open (ta_gold ta) = Inl ENOENT" for v
    using read_if_exists_spec(2,3) [of base s1 a "ta_gold ta" e ?g, unfolded g fst_conv] ready
    by (simp_all add: test_ready_def whole_file_def)
  have cmp: "compare_with_gold pf ?g ?o out v = None \<longleftrightarrow> v = Some out \<or> v = None \<and> out = []" for out v
    by (auto simp: compare_with_gold_def split: option.splits)
  have "passes (fst (run_test_on_file e pf ta f a s)) \<longleftrightarrow>
      (\<exists>tds es v. r = Inr (Inr (tds, es)) \<and> g = Inr v \<and> compare_with_gold pf ?g ?o (es @ dump_tasks tds) v = None)"
    by (auto simp: passes_def run_test_on_file_def Let_def r g fail_check_simps(1) split: sum.splits option.splits)
  also have "\<dots> \<longleftrightarrow> (\<exists>out. (\<exists>tds es. r = Inr (Inr (tds, es)) \<and> out = es @ dump_tasks tds) \<and>
      (g = Inr (Some out) \<or> g = Inr None \<and> out = []))"
    unfolding cmp by blast
  also have "\<dots> \<longleftrightarrow> (\<exists>out. (\<exists>u. whole_file (ta_config ta) u \<and> test_output f u = Inr out) \<and>
      (whole_file (ta_gold ta) out \<or> fa_open (ta_gold ta) = Inl ENOENT \<and> out = []))"
    unfolding R(2) G ..
  finally show ?thesis by blast
qed

text \<open>
  What the message of a failed test advises: once the output that was written is stored, the test
  passes.
\<close>

lemma stored_output_passes:
  assumes ready: "test_ready base ta a s" and w: "tr_written (fst (run_test_on_file e pf ta f a s)) = Some (g, out)"
    and ready': "test_ready base ta' a s'" and ta': "ta_config ta' = ta_config ta" "whole_file (ta_gold ta') out"
  shows "passes (fst (run_test_on_file e pf ta' f a s'))"
proof -
  obtain r s1 where r: "read_descriptions_file e (ta_config ta) f a s = (r, s1)" by force
  obtain tds es where "r = Inr (Inr (tds, es))" "out = es @ dump_tasks tds"
    using w by (auto simp: run_test_on_file_def Let_def r split: sum.splits prod.splits option.splits dest: fail_check_simps(2))
  then obtain u where "whole_file (ta_config ta) u" "test_output f u = Inr out"
    using read_descriptions_file_spec(2) [OF ready, of e f out, unfolded r fst_conv] by blast
  then show ?thesis using passes_iff [OF ready', of e pf f] ta' by auto
qed

end
