(* ===== verification/Spec2Isabelle.thy ===== *)
theory Spec2Isabelle
  imports Scheduler_Refinement Init_Main Initctl Control_Connection System_Views Config_Test
begin

text \<open>
  A verification development of \<^verbatim>\<open>initd\<close>, an init system that starts and stops tasks in
  the order of their dependencies. Paths are relative to \<^verbatim>\<open>src/\<close>.

  \<^bold>\<open>The program.\<close> A configuration file is read into task descriptions
  (\<^verbatim>\<open>libinitd-readconfig\<close>: lexer, parser, readers of values, line map for errors). The
  process \<^verbatim>\<open>init/initd-main.cpp\<close> builds from them the graph of tasks
  (\<^verbatim>\<open>libinitd\<close>: \<^verbatim>\<open>initd_state\<close>, \<^verbatim>\<open>task\<close>), asks for the run level \<^verbatim>\<open>default\<close>
  and enters the loop of \<^verbatim>\<open>libsysapi/epoll.cpp\<close>. A task owns an \<^verbatim>\<open>async_task_handle\<close>:
  either commands that run as child processes, or an object whose constructor and
  destructor do the work at once and report it through a callback queue. The loop hands
  exited children, wake-ups of the queues, termination signals and messages of
  \<^verbatim>\<open>initctl\<close> (\<^verbatim>\<open>libbinstream\<close>) to callbacks that change the graph.

  \<^bold>\<open>How code becomes definitions.\<close> A function of the code is a definition of the same
  name; a class is a record, an enumeration or a class hierarchy a datatype. A method that
  changes its object takes and returns the state, with an \<^verbatim>\<open>outcome\<close>: \<open>Done\<close>,
  \<open>Threw e\<close> for an exception with its text, \<open>Aborted e\<close> for a failed assertion or
  undefined behaviour. Counters keep the 64 bits of \<^verbatim>\<open>size_t\<close>, lines and columns their 32
  bits, integer literals the bounds of \<^verbatim>\<open>int\<close>. A system call is a field of the record
  \<open>os\<close>, a parameter: any function of the state of the world to a result or an error
  number, so that every failure is a branch. References between tasks are indices. Below the
  tasks, where descriptors and sockets are objects of their own, the answer of each system call
  is an argument, and objects are at addresses of partial maps: a constructor makes an address
  defined, a destructor undefined, a use of what is not there is an \<open>Aborted\<close> outcome.

  \<^bold>\<open>Theories and what they model.\<close>
  \<^item> \<open>Initd_Prelude\<close>: outcomes, sequencing (\<open>and_then\<close>, \<open>for_each\<close>) with the invariant
    rules all later proofs use, decimal output, maps and lists.
  \<^item> \<open>Std_Multimap\<close>: \<^verbatim>\<open>std::multimap\<close> and \<^verbatim>\<open>std::map\<close>, behind the contracts
    \<open>ordered_multimap\<close> and \<open>ordered_map\<close>.
  \<^item> \<open>Config_Data\<close>: \<^verbatim>\<open>libinitd-config\<close>, the descriptions and their construction.
  \<^item> \<open>Sysapi_Errors\<close>, \<open>Sync_Tasks\<close>: error names; host name, mount, loop mount and
    control tasks (\<^verbatim>\<open>libinitd/tasks/synchronous\<close>) with the system calls they make.
  \<^item> \<open>Function_Queue\<close>: \<^verbatim>\<open>function_queue.cpp\<close> with its \<^verbatim>\<open>eventfd\<close> counter, behind the
    contract \<open>callback_queue\<close>.
  \<^item> \<open>Task_Handles\<close>: \<^verbatim>\<open>async_start_stop_task.cpp\<close>, \<^verbatim>\<open>sync_task_adaptor.cpp\<close> and the
    registry of children; the contract \<open>async_handle\<close>, interpreted for both classes and
    for their common base.
  \<^item> \<open>Task_Graph\<close>: \<^verbatim>\<open>task.cpp\<close>, \<^verbatim>\<open>initd_state.cpp\<close>. \<open>Task_Graph_Inv\<close>: what each
    operation changes, exactness of counters. \<open>Task_Graph_Marks\<close>: what a run level marks.
    \<open>Task_Graph_Safety\<close>: the scheduling invariant. \<open>Task_Graph_Init\<close>: the constructor.
    \<open>Task_Graph_Quiet\<close>: progress. \<open>Task_Graph_Processes\<close>: the book-keeping of children.
  \<^item> \<open>Bin_Stream\<close>: \<^verbatim>\<open>libbinstream\<close> and the client \<^verbatim>\<open>initctl/main.cpp\<close>.
  \<^item> \<open>Init_Context\<close>: \<^verbatim>\<open>initd-main.cpp\<close>; the loop as a step relation, \<open>step\<close>, and its
    states, \<open>runs\<close>; the contract \<open>loop_step\<close> of what a round keeps, extended by
    \<open>loop_invariant\<close>. \<open>Init_Loop\<close>: its interpretations on four invariants of the scheduler.
    \<open>Scheduler_Refinement\<close>: the abstract scheduler, phases of tasks with one rule per move, and
    that the loop implements it. \<open>Init_Control\<close>: connections of the control socket.
    \<open>Example_System\<close>: a concrete system for the witnesses.
  \<^item> \<open>Lexer\<close>, \<open>Parser\<close>: \<^verbatim>\<open>lexer/lexer.cpp\<close>, \<^verbatim>\<open>parser/parser.cpp\<close> with the nodes, every
    branch of the error recovery included. \<open>Lexer_Facts\<close>, \<open>Parser_Facts\<close>: termination,
    positions, faults, by the contract \<open>parser_relation\<close>. \<open>Parser_Roundtrip\<close>: the text
    of a tree is parsed back.
  \<^item> \<open>Command_Line\<close>, \<open>Report_Duplicates\<close>, \<open>Read_Values\<close>: the readers of
    \<^verbatim>\<open>read_value_node\<close>. \<open>Reader_Contract\<close>: the contract \<open>value_reader\<close>, interpreted for
    every specialisation. \<open>Read_Descriptions\<close>: \<^verbatim>\<open>read_task_description.cpp\<close>.
  \<^item> \<open>Read_Descriptions_Facts\<close>, \<open>Read_Text_Facts\<close>, \<open>Config_Roundtrip\<close>: the meaning of a
    tree (\<open>denotes_tree\<close>, \<open>read_as\<close>) and that the reader implements it.
    \<open>Configured_Init\<close>: the reader and the scheduler together.
  \<^item> \<open>Line_Map\<close>, \<open>Line_Map_Facts\<close>: \<^verbatim>\<open>line_map.cpp\<close>, \<^verbatim>\<open>print_error.cpp\<close>.
    \<open>Config_Dump\<close>, \<open>Config_Test\<close>: the dump of \<^verbatim>\<open>test-config/main.cpp\<close>; its tests, which compare
    the dump with stored files, and when they pass.
  \<^item> \<open>Sysapi_Descriptors\<close>, \<open>Sysapi_Epoll\<close>, \<open>Sysapi_Watchers\<close>: \<^verbatim>\<open>libsysapi\<close>, that is
    \<^verbatim>\<open>file_descriptor.cpp\<close>, \<^verbatim>\<open>epoll.cpp\<close> with the interest list of the kernel, and the
    classes that own a descriptor and watch it. \<open>Sysapi_Ownership\<close>: the invariant of who owns
    what, kept by every operation.
  \<^item> \<open>Stream_Socket\<close>: the callbacks of \<^verbatim>\<open>stream_socket.cpp\<close> and the pointer by which they notice
    that they have destroyed the socket. \<open>Control_Connection\<close>: how connections of the control
    task come to be and end: accepted, hung up, destroyed with the task.
  \<^item> \<open>Scoped_Objects\<close>: the contract \<open>holding\<close> of a constructor that leaves nothing behind when it
    throws and of the destructor that undoes it, with the rule for two members. \<open>Context_Members\<close>:
    the members of \<^verbatim>\<open>context\<close> with the one handler of \<^verbatim>\<open>sigchild_handler.cpp\<close> and the queues of the
    tasks, each of which may throw. \<open>Context_Members_Facts\<close>: that they all are such pairs.
    \<open>System_Views\<close>: the control socket in the two views of the system.
  \<^item> \<open>Socket_Address\<close>, \<open>Sysapi_Calls\<close>: \<^verbatim>\<open>socket_address.cpp\<close>; signal masks, the child's side
    of a fork, directories, reboot, loop devices. \<open>Config_File\<close>: the configuration read from its
    file. \<open>Initctl\<close>: the whole of
    \<^verbatim>\<open>initctl/main.cpp\<close>. \<open>Init_Main\<close>: the whole of \<^verbatim>\<open>main\<close> of the init process, with the
    destructors of the tasks.

  \<^bold>\<open>Bounds and fuel.\<close> \<open>mark_should_work\<close> recurses over a graph that may have cycles: its
  fuel is the number of tasks plus one, and the function is shown to stop by itself because
  each call marks a new task (C10). The parser has three units of fuel per character that is
  left and one more; C27 shows that they are never used up. The loop over exited children is
  a \<^verbatim>\<open>partial_function\<close>: on a system that reports exited children for ever it has no
  result. Descriptions are bounded by \<open>descriptions_ok\<close>, fewer than $2^{64}$ tasks and
  edges, which C24 derives from the size of the text.

  \<^bold>\<open>Two views of the system.\<close> The tasks use system calls through the record \<open>os\<close>, whose world
  is a parameter, so that C1 to C19 hold for every system; what the wrappers in between do with
  descriptors is shown once, for C26 and C38 to C40, over the state \<open>resources\<close>. C36 shows for the
  control socket that the two agree. The reading side of a
  connection is in \<open>Init_Control\<close>, over the context; its life as an object in
  \<open>Control_Connection\<close>.

  \<^bold>\<open>Not modelled.\<close> What the scheduler and the tasks write to \<^verbatim>\<open>std::cerr\<close>. The move of the one epoll instance,
  which the program never does. In \<^verbatim>\<open>test-config/main.cpp\<close> the test framework and the functions of
  \<^verbatim>\<open>boost::filesystem\<close> are parameters. In \<^verbatim>\<open>libinitd-common\<close>, \<^verbatim>\<open>make_unique.h\<close> is the construction of an object,
  and \<^verbatim>\<open>visit_variant.h\<close> is included nowhere.
\<close>

section \<open>The scheduler and the event loop\<close>

text \<open>C1: In every state the program can reach, however system calls fail, a task that
  is running, starting or stopping has all its dependencies running, none of them on its
  way up or down.\<close>

theorem dependencies_are_up:
  assumes "runs os nature tds rs c" "descriptions_ok tds" "i < length (all_tasks tds)"
    and "is_running i (ctx_state c) \<or> is_in_transition i (ctx_state c)"
    and "d \<in> set (td_dependencies (all_tasks tds ! i))"
  shows "is_running d (ctx_state c) \<and> \<not> is_in_transition d (ctx_state c)"
  using runs_dependencies_up [OF assms] by (simp add: task_views)

theorem dependencies_are_up_witness:
  "is_running 1 (ctx_state example_up) \<and> is_running 0 (ctx_state example_up) \<and>
   \<not> is_in_transition 0 (ctx_state example_up)"
proof -
  obtain rs where rs: "runs simple_os (=) example_descriptions rs example_up"
    using example_up_runs by blast
  have run: "is_running 1 (ctx_state example_up)" by code_simp
  have "0 \<in> set (td_dependencies (all_tasks example_descriptions ! 1))" by code_simp
  then show ?thesis
    using dependencies_are_up [OF rs example_descriptions_ok, of 1 0] run
    by (simp add: example_all_tasks)
qed

text \<open>C2: When the loop of \<^verbatim>\<open>main\<close> ends, every task is stopped and no operation is under
  way, the assertions in the destructors of the tasks hold, and the first process then reboots or
  powers off: the assertion in its switch is not reached.\<close>

theorem clean_shutdown:
  assumes "runs os nature tds rs c" "descriptions_ok tds" "\<not> is_active c"
  shows "(\<forall>i < length (all_tasks tds). \<not> is_running i (ctx_state c) \<and> \<not> is_in_transition i (ctx_state c)) \<and>
    snd (context_destroy os c) = Done \<and>
    main_end 1 (Some (ctx_target c)) \<in> {Reboot_system, Power_off_system}"
proof -
  have "\<not> is_running i (ctx_state c) \<and> \<not> is_in_transition i (ctx_state c)"
    if "i < length (all_tasks tds)" for i
    using down_when_inactive [OF assms that] by (simp add: task_views)
  moreover have "ctx_target c \<noteq> Target_running"
    using assms(3) by (simp add: is_active_def)
  ultimately show ?thesis
    using orderly_destruction [OF assms] by (cases "ctx_target c") (simp_all add: main_end_def)
qed

theorem clean_shutdown_witness:
  "\<not> is_active example_down \<and> \<not> is_running 0 (ctx_state example_down) \<and>
   main_end 1 (Some (ctx_target example_down)) \<in> {Reboot_system, Power_off_system}"
proof -
  obtain rs where rs: "runs simple_os (=) example_descriptions rs example_down"
    using example_down_runs by blast
  have idle: "\<not> is_active example_down" by code_simp
  show ?thesis
    using clean_shutdown [OF rs example_descriptions_ok idle] idle by (simp add: example_all_tasks)
qed

text \<open>C3: There is no deadlock. As long as every round ends normally and the dependencies
  have no cycle, a state in which no child is awaited and no wake-up is pending has every
  task where the run level wants it, and nothing is pending; if the computer is to go
  down, the loop then ends.\<close>

definition description_edges :: "task_descriptions \<Rightarrow> (nat \<times> nat) set" where
  "description_edges tds =
     {(i, d). i < length (all_tasks tds) \<and> d \<in> set (td_dependencies (all_tasks tds ! i))}"

lemma runs_edges:
  assumes "runs os nature tds rs c" "descriptions_ok tds"
  shows "depends_on (st_tasks (ctx_state c)) = description_edges tds"
  using runs_dependencies [OF assms] runs_sched_inv(3) [OF assms]
  by (auto simp: depends_on_def description_edges_def)

theorem no_deadlock:
  assumes "runs os nature tds rs c" "descriptions_ok tds" "all_done rs"
    and "acyclic (description_edges tds)" "quiet (ctx_state c)"
  shows "(\<forall>i < length (all_tasks tds).
      is_running i (ctx_state c) = t_should_work (st_tasks (ctx_state c) ! i)) \<and>
    \<not> has_pending_operations (ctx_state c) \<and>
    (ctx_target c \<noteq> Target_running \<longrightarrow> \<not> is_active c)"
proof -
  let ?s = "ctx_state c" and ?n = "length (all_tasks tds)"
  have prog: "initd_inv ?n ?s" "no_one_forgotten ?s" "noticed ?s"
    using runs_progressing [OF assms(1-3)] by (auto simp: progressing_def full_inv_def)
  have there: "is_running i ?s = t_should_work (st_tasks ?s ! i)" if "i < ?n" for i
    using quiet_reaches_run_level [OF prog assms(5) _ that] assms(4)
    by (simp add: runs_edges [OF assms(1,2)])
  have "\<not> t_counted_in_pending_tasks (st_tasks ?s ! i)" if "i < ?n" for i
    using prog(3) assms(5) there [OF that] that initd_invD(3) [OF prog(1)]
    by (auto simp: noticed_def quiet_def announced_def waiting_def task_views)
  then have "\<not> has_pending_operations ?s"
    using has_pending_operations_iff [OF sched_invD(1,2) [OF initd_invD(1) [OF prog(1)]]]
      initd_invD(3) [OF prog(1)] by (auto simp: in_set_conv_nth)
  with there show ?thesis by (simp add: is_active_def)
qed

theorem no_deadlock_witness:
  "quiet (ctx_state example_up) \<and> is_running 1 (ctx_state example_up) \<and>
   \<not> has_pending_operations (ctx_state example_up)"
proof -
  obtain rs where rs: "runs simple_os (=) example_descriptions rs example_up" "all_done rs"
    using example_up_runs by blast
  have quiet: "quiet (ctx_state example_up)" by code_simp
  have deps: "td_dependencies (all_tasks example_descriptions ! 0) = []"
    "td_dependencies (all_tasks example_descriptions ! 1) = [0]"
    "td_dependencies (all_tasks example_descriptions ! 2) = []" by code_simp+
  have "(i, d) = (1, 0)" if "(i, d) \<in> description_edges example_descriptions" for i d
  proof -
    from that have "i < 3" and d: "d \<in> set (td_dependencies (all_tasks example_descriptions ! i))"
      by (simp_all add: description_edges_def example_all_tasks)
    then consider "i = 0" | "i = 1" | "i = 2" by linarith
    then show ?thesis by cases (use d deps in simp_all)
  qed
  then have "description_edges example_descriptions \<subseteq> {(1, 0)}" by auto
  then have "acyclic (description_edges example_descriptions)"
    by (rule acyclic_subset [rotated]) (simp add: acyclic_insert, simp add: acyclic_def)
  moreover have "t_should_work (st_tasks (ctx_state example_up) ! 1)" by code_simp
  ultimately show ?thesis
    using no_deadlock [OF rs(1) example_descriptions_ok rs(2) _ quiet] quiet
    by (simp add: example_all_tasks)
qed



text \<open>C5: Changing to a run level marks exactly the tasks that a requisite of the level is
  or depends on, directly or indirectly.\<close>

theorem run_level_marks:
  assumes "runs os nature tds rs c" "descriptions_ok tds"
    and "mm_find (st_run_levels (ctx_state c)) name = Some requisites" "j < length (all_tasks tds)"
  shows "t_should_work (st_tasks (ctx_state (fst (set_runlevel os name c))) ! j) \<longleftrightarrow>
    (\<exists>r \<in> set requisites. (r, j) \<in> (description_edges tds)\<^sup>*)"
proof -
  let ?s = "ctx_state c"
  note inv = runs_sched_inv(1) [OF assms(1,2)]
  have len: "length (st_tasks ?s) = length (all_tasks tds)" by (rule runs_sched_inv(3) [OF assms(1,2)])
  have marks: "marks_of (fst (set_run_level os name ?s)) = level_marks requisites ?s"
    by (rule marks_of_level [OF inv assms(3)])
  have "length (marks_of (fst (set_run_level os name ?s))) = length (level_marks requisites ?s)"
    by (rule arg_cong [OF marks])
  then have "length (st_tasks (fst (set_run_level os name ?s))) = length (all_tasks tds)"
    using len by (simp add: level_marks_def)
  then have "t_should_work (st_tasks (fst (set_run_level os name ?s)) ! j) = level_marks requisites ?s ! j"
    using assms(4) by (simp add: marks [symmetric])
  then show ?thesis
    using assms(4) len by (simp add: set_runlevel_def level_marks_def runs_edges [OF assms(1,2)])
qed

theorem run_level_marks_witness:
  "t_should_work (st_tasks (ctx_state (fst (set_runlevel simple_os ''database'' example_up))) ! 0) \<and>
   (\<exists>r \<in> {0}. (r, 0) \<in> (description_edges example_descriptions)\<^sup>*)"
proof -
  obtain rs where rs: "runs simple_os (=) example_descriptions rs example_up"
    using example_up_runs by blast
  have level: "mm_find (st_run_levels (ctx_state example_up)) ''database'' = Some [0]" by code_simp
  show ?thesis
    using run_level_marks [OF rs example_descriptions_ok level, of 0] by (simp add: example_all_tasks)
qed



text \<open>C7: The counters of every task are the numbers they stand for: the dependencies that
  have not announced to be up, the dependants that have announced to be active; and the
  number of pending tasks is that of the tasks that have announced an open change.\<close>

theorem counters_are_exact:
  assumes "runs os nature tds rs c" "descriptions_ok tds" "i < length (all_tasks tds)"
  shows "t_stopped_dependencies (st_tasks (ctx_state c) ! i) =
      of_nat (length (filter (\<lambda>d. \<not> t_counted_in_dependants (st_tasks (ctx_state c) ! d))
        (td_dependencies (all_tasks tds ! i)))) \<and>
    t_running_dependants (st_tasks (ctx_state c) ! i) =
      of_nat (length (filter (\<lambda>u. t_counted_in_dependencies (st_tasks (ctx_state c) ! u))
        (t_dependants (st_tasks (ctx_state c) ! i)))) \<and>
    st_pending_tasks (ctx_state c) =
      of_nat (length (filter t_counted_in_pending_tasks (st_tasks (ctx_state c))))"
proof -
  let ?ts = "st_tasks (ctx_state c)"
  have exact: "counters_exact (ctx_state c)"
    by (rule sched_invD(2) [OF runs_sched_inv(2) [OF assms(1,2)]])
  have "length (filter t_counted_in_pending_tasks ?ts) = length (pending_list ?ts)"
    unfolding pending_list_def by (metis (no_types, lifting) comp_def filter_map length_map map_nth filter_cong)
  then show ?thesis
    using exact runs_dependencies [OF assms] assms(3) runs_sched_inv(3) [OF assms(1,2)]
    by (simp add: counters_exact_def unready_dependencies_def busy_dependants_def)
qed

theorem counters_are_exact_witness:
  "t_stopped_dependencies (st_tasks (ctx_state example_context) ! 1) = 1 \<and>
   st_pending_tasks (ctx_state example_context) =
     of_nat (length (filter t_counted_in_pending_tasks (st_tasks (ctx_state example_context))))"
proof -
  have "t_stopped_dependencies (st_tasks (ctx_state example_context) ! 1) = 1" by code_simp
  then show ?thesis
    using counters_are_exact [OF example_runs [of "(=)"] example_descriptions_ok, of 1]
    by (simp add: example_all_tasks)
qed

text \<open>C8: A task may be told to start only when its dependencies are up, and to stop only when
  its dependants are stopped: what the counters say is true of the handles.\<close>

theorem counters_are_honest:
  assumes "runs os nature tds rs c" "descriptions_ok tds" "i < length (all_tasks tds)"
  shows "(t_should_work (st_tasks (ctx_state c) ! i) \<and> are_dependencies_running i (ctx_state c) \<longrightarrow>
      (\<forall>d \<in> set (td_dependencies (all_tasks tds ! i)).
         is_running d (ctx_state c) \<and> \<not> is_in_transition d (ctx_state c))) \<and>
    (\<not> t_should_work (st_tasks (ctx_state c) ! i) \<and> are_dependants_stopped i (ctx_state c) \<longrightarrow>
      (\<forall>u < length (all_tasks tds). i \<in> set (td_dependencies (all_tasks tds ! u)) \<longrightarrow>
         \<not> is_running u (ctx_state c) \<and> \<not> is_in_transition u (ctx_state c)))"
proof (intro conjI impI ballI allI)
  let ?s = "ctx_state c"
  note sched = runs_sched_inv(2) [OF assms(1,2)] and len = runs_sched_inv(3) [OF assms(1,2)]
  note wf = sched_invD(1) [OF sched] and cnt = sched_invD(2) [OF sched]
  note deps = runs_dependencies [OF assms(1,2)]
  have il: "i < length (st_tasks ?s)" using assms(3) len by simp
  show "is_running d ?s" "\<not> is_in_transition d ?s"
    if ready: "t_should_work (st_tasks ?s ! i) \<and> are_dependencies_running i ?s"
      and d: "d \<in> set (td_dependencies (all_tasks tds ! i))" for d
  proof -
    have d': "d \<in> set (t_dependencies (st_tasks ?s ! i))" using d deps [OF assms(3)] by simp
    have "t_counted_in_dependants (st_tasks ?s ! d)"
      using ready d' are_dependencies_running_iff [OF wf cnt il] by blast
    moreover have "t_should_work (st_tasks ?s ! d)"
      using sched_invD(3) [OF sched] il ready d' by (auto simp: closed_marks_def)
    ultimately have "t_up (st_tasks ?s ! d)"
      using sched_invD(5) [OF sched, of d] graph_wfD(1) [OF wf il d'] by (auto simp: told_def)
    then show "is_running d ?s" "\<not> is_in_transition d ?s" by (simp_all add: task_views)
  qed
  show "\<not> is_running u ?s" "\<not> is_in_transition u ?s"
    if free: "\<not> t_should_work (st_tasks ?s ! i) \<and> are_dependants_stopped i ?s"
      and u: "u < length (all_tasks tds)" "i \<in> set (td_dependencies (all_tasks tds ! u))" for u
  proof -
    have u': "u < length (st_tasks ?s)" "i \<in> set (t_dependencies (st_tasks ?s ! u))"
      using u deps [OF u(1)] len by simp_all
    then have "\<not> t_counted_in_dependencies (st_tasks ?s ! u)"
      using free are_dependants_stopped_iff [OF wf cnt il] graph_wfD(3) [OF wf u'(1) il] by blast
    moreover have "\<not> t_should_work (st_tasks ?s ! u)"
      using sched_invD(3) [OF sched] u' free by (auto simp: closed_marks_def)
    ultimately have "\<not> t_active (st_tasks ?s ! u)"
      using sched_invD(5) [OF sched u'(1)] by (auto simp: told_def)
    then show "\<not> is_running u ?s" "\<not> is_in_transition u ?s" by (simp_all add: task_views)
  qed
qed

theorem counters_are_honest_witness:
  "are_dependencies_running 1 (ctx_state example_up) \<and> is_running 0 (ctx_state example_up)"
proof -
  obtain rs where rs: "runs simple_os (=) example_descriptions rs example_up"
    using example_up_runs by blast
  have "t_should_work (st_tasks (ctx_state example_up) ! 1) \<and>
      are_dependencies_running 1 (ctx_state example_up)" by code_simp
  moreover have "0 \<in> set (td_dependencies (all_tasks example_descriptions ! 1))" by code_simp
  ultimately show ?thesis
    using counters_are_honest [OF rs example_descriptions_ok, of 1] by (simp add: example_all_tasks)
qed






section \<open>Commands and connections\<close>

text \<open>C11: A request for a run level that does not exist throws and leaves the scheduler
  as it was, but it has already set the target back to running: a reboot or power off that
  was under way, or even complete, is cancelled, and the loop no longer ends.\<close>

theorem unknown_level_cancels_shutdown:
  assumes "mm_find (st_run_levels (ctx_state c)) name = None"
  shows "set_runlevel os name c =
      (c\<lparr>ctx_target := Target_running\<rparr>, Threw (''run level \"'' @ name @ ''\" is not found'')) \<and>
    is_active (fst (set_runlevel os name c))"
  using assms by (simp add: set_runlevel_def on_state_def set_run_level_def is_active_def)

theorem unknown_level_cancels_shutdown_witness:
  "\<not> is_active example_down \<and> is_active (fst (set_runlevel simple_os ''single'' example_down))"
proof -
  have "mm_find (st_run_levels (ctx_state example_down)) ''single'' = None" "\<not> is_active example_down"
    by code_simp+
  then show ?thesis
    using unknown_level_cancels_shutdown [of example_down "''single''" simple_os] by blast
qed

text \<open>C12: Whatever \<^verbatim>\<open>initctl\<close> serialises, the server reads back: in whichever pieces the
  bytes arrive, nothing happens before the last piece, and then exactly the message sent is
  executed. Only a run level name whose encoding exceeds the limit is excluded.\<close>

theorem command_survives_pieces:
  assumes "msg_fits m" and "fst (serialize pad m []) = concat ds" and "ds \<noteq> []" "last ds \<noteq> []"
  shows "snd (serialize pad m []) = Done \<and> parse_control (concat ds) = Message m \<and>
    connection_pieces os i ds [] c = connection_on_ready os i (concat ds) c \<and>
    (\<forall>p q. concat ds = p @ q \<and> q \<noteq> [] \<longrightarrow> connection_on_ready os i p c = ((Some p, c), Done))"
proof (intro conjI allI impI)
  show "snd (serialize pad m []) = Done" by (simp add: serialize_ok [OF assms(1)])
  show "parse_control (concat ds) = Message m"
    using parse_control_serialized [OF assms(1), of pad] serialize_ok [OF assms(1), of pad] assms(2) by simp
  show "connection_pieces os i ds [] c = connection_on_ready os i (concat ds) c"
    using connection_pieces_message [OF assms(1), of pad "[]" ds] assms(2-4) by simp
  show "connection_on_ready os i p c = ((Some p, c), Done)" if "concat ds = p @ q \<and> q \<noteq> []" for p q
    using that take_serialized [OF assms(1), of pad p q] assms(2) by (simp add: connection_on_ready_def)
qed

theorem command_survives_pieces_witness:
  "parse_control (concat [[1, 0, 0], [0, 1, 0, 0, 0, 7]]) = Message Reboot_msg"
proof -
  have "fst (serialize 7 Reboot_msg []) = concat [[1, 0, 0], [0, 1, 0, 0, 0, 7]]" by code_simp
  then show ?thesis
    using command_survives_pieces [of Reboot_msg 7 "[[1, 0, 0], [0, 1, 0, 0, 0, 7]]" simple_os 2 example_up]
    by (simp add: msg_fits_def)
qed

text \<open>C13: A command is executed only if it ends exactly with what has been received: if a
  client sends two commands without a pause, so that the second arrives with the first, the
  first is not executed either and the connection is dropped.\<close>

theorem pipelined_commands_are_lost:
  assumes "msg_fits m" and "extra \<noteq> []"
  shows "connection_on_ready os i (fst (serialize pad m []) @ extra) c = ((None, c), Done)"
proof -
  have "parse_control (fst (serialize pad m []) @ extra) =
      Bad (''expected eof, but '' @ show_nat (length extra) @ '' bytes left'')"
    using assms by (simp add: serialize_ok parse_control_followed)
  then show ?thesis by (simp add: connection_on_ready_def)
qed

theorem pipelined_commands_are_lost_witness:
  "connection_on_ready simple_os 2
     (fst (serialize 0 Reboot_msg []) @ fst (serialize 0 Power_off_msg [])) example_up =
   ((None, example_up), Done)"
  by (rule pipelined_commands_are_lost) (simp_all add: msg_fits_def serialize_ok uint32_bytes_def)

text \<open>C14: A reboot or power off that is requested through the control socket destroys the
  connection it arrived on, because stopping the control task destroys its task object at
  once; the callback then goes on to use the connection. This happens whenever no other
  task that is running, starting or stopping depends on the control task.\<close>

theorem shutdown_command_uses_destroyed_connection:
  assumes "runs os nature tds rs c" "descriptions_ok tds" "i < length (all_tasks tds)"
    and "control_task_alive i c" "is_running i (ctx_state c)"
    and "\<forall>u < length (all_tasks tds). i \<in> set (td_dependencies (all_tasks tds ! u)) \<longrightarrow>
      \<not> is_running u (ctx_state c) \<and> \<not> is_in_transition u (ctx_state c)"
    and "parse_control buf = Message m" "m = Reboot_msg \<or> m = Power_off_msg"
    and "snd (execute os m c) = Done"
  shows "connection_on_ready os i buf c =
    ((None, fst (execute os m c)), Aborted ''clear_buffer() of a destroyed connection'')"
proof -
  have unused: "\<forall>u < length (all_tasks tds). i \<in> set (t_dependencies (st_tasks (ctx_state c) ! u)) \<longrightarrow>
      \<not> t_active (st_tasks (ctx_state c) ! u)"
    using assms(6) runs_dependencies [OF assms(1,2)] by (simp add: task_views)
  obtain c' where c': "execute os m c = (c', Done)"
    using assms(9) by (metis prod.collapse)
  have "\<not> control_task_alive i c'"
    using reboot_destroys_control_task [OF runs_full_inv [OF assms(1,2)] assms(3-5) unused] c' assms(8)
    by (auto simp: reboot_def power_off_def)
  then show ?thesis
    by (simp add: connection_on_ready_def assms(7) c')
qed

theorem shutdown_command_uses_destroyed_connection_witness:
  "\<exists>c'. connection_on_ready simple_os 2 (fst (serialize 0 Reboot_msg [])) example_up =
    ((None, c'), Aborted ''clear_buffer() of a destroyed connection'')"
proof -
  obtain rs where rs: "runs simple_os (=) example_descriptions rs example_up"
    using example_up_runs by blast
  have alive: "control_task_alive 2 example_up" "is_running 2 (ctx_state example_up)" by code_simp+
  have deps: "\<forall>td \<in> set (all_tasks example_descriptions). 2 \<notin> set (td_dependencies td)" by code_simp
  have parse: "parse_control (fst (serialize 0 Reboot_msg [])) = Message Reboot_msg" by code_simp
  have ok: "snd (execute simple_os Reboot_msg example_up) = Done" by code_simp
  show ?thesis
    using shutdown_command_uses_destroyed_connection [OF rs example_descriptions_ok _ alive _ parse _ ok] deps
    by (fastforce simp: example_all_tasks)
qed

text \<open>C15: A change of the run level leaves the control task and its connections alone as
  long as the new level contains the control task, even if a system call fails on the way:
  a level that exists is then answered by clearing the buffer, or by dropping the
  connection if the change threw.\<close>

theorem level_command_keeps_connection:
  assumes "runs os nature tds rs c" "descriptions_ok tds" "i < length (all_tasks tds)"
    and "control_task_alive i c" "is_running i (ctx_state c)"
    and "mm_find (st_run_levels (ctx_state c)) name = Some requisites"
    and "\<exists>r \<in> set requisites. (r, i) \<in> (description_edges tds)\<^sup>*"
    and "process_table os live" "keeps_live live nature"
    and "parse_control buf = Message (Set_runlevel_msg name)"
  shows "connection_on_ready os i buf c =
    ((if snd (set_runlevel os name c) = Done then Some [] else None, fst (set_runlevel os name c)), Done)"
proof -
  have alive: "control_task_alive i (fst (set_runlevel os name c))"
    using level_keeps_control_task [OF runs_full_inv [OF assms(1,2)] assms(3-6)] assms(7)
    by (simp add: runs_edges [OF assms(1,2)])
  have "\<not> aborted (set_runlevel os name c)"
    using accounted_set_levels(2) [OF assms(8) runs_accounted [OF assms(1,2,8,9)]]
    by (simp add: set_runlevel_def)
  with alive show ?thesis
    by (cases "set_runlevel os name c"; cases "snd (set_runlevel os name c)")
       (simp_all add: connection_on_ready_def assms(10) aborted_def)
qed

theorem level_command_keeps_connection_witness:
  "fst (fst (connection_on_ready simple_os 2 (fst (serialize 0 (Set_runlevel_msg ''default'') [])) example_up)) =
   Some []"
proof -
  obtain rs where rs: "runs simple_os (=) example_descriptions rs example_up"
    using example_up_runs by blast
  have alive: "control_task_alive 2 example_up" "is_running 2 (ctx_state example_up)" by code_simp+
  have level: "mm_find (st_run_levels (ctx_state example_up)) ''default'' = Some [1, 2]" by code_simp
  have parse: "parse_control (fst (serialize 0 (Set_runlevel_msg ''default'') [])) =
      Message (Set_runlevel_msg ''default'')"
    using parse_control_serialized [of "Set_runlevel_msg ''default''" 0]
      serialize_ok [of "Set_runlevel_msg ''default''" 0] by (simp add: msg_fits_def)
  have "keeps_live set (=)" by (simp add: keeps_live_def)
  moreover have "snd (set_runlevel simple_os ''default'' example_up) = Done" by code_simp
  ultimately show ?thesis
    using level_command_keeps_connection [OF rs example_descriptions_ok _ alive level _
        simple_os_process_table _ parse] by (simp add: example_all_tasks)
qed

section \<open>Handles and queues\<close>

text \<open>C16: Requests and completions in any order: when a handle that was where it should be
  has nothing under way any more, it is where the last request wanted it, for every kind of
  task.\<close>

theorem handle_obeys_last_request:
  assumes "snd (th.drive os i rs h e) = Done"
    and "h_is_in_transition h \<or> h_is_running h = h_get_should_work h"
    and "\<not> h_is_in_transition (fst (fst (th.drive os i rs h e)))"
  shows "h_is_running (fst (fst (th.drive os i rs h e))) = th.last_request (h_get_should_work h) rs"
  using th.drive_settled [OF assms(1)] th.drive_goal [OF assms(1)] assms(2,3)
  by (auto simp: th.settled_def)

definition example_requests :: "bool option list" where
  "example_requests = [Some True, Some False, None, None]"

theorem handle_obeys_last_request_witness:
  "\<not> h_is_running (fst (fst (th.drive simple_os 0 example_requests
     (create_async_task_handle (service ''/bin/db'')) \<lparr>env_world = [], env_handlers = (\<lambda>_. None)\<rparr>)))"
proof -
  let ?r = "th.drive simple_os 0 example_requests
     (create_async_task_handle (service ''/bin/db'')) \<lparr>env_world = [], env_handlers = (\<lambda>_. None)\<rparr>"
  have "snd ?r = Done" "\<not> h_is_in_transition (fst (fst ?r))"
    by (simp_all add: example_requests_def th.drive.simps service_def new_start_stop_task_def
        ss_set_should_work_def ss_enqueue_job_def ss_launch_def ss_operation_finished_def
        sigchild_add_def sigchild_remove_def simple_os_def ss_is_in_transition_def)
  then show ?thesis
    using handle_obeys_last_request [of simple_os 0 example_requests "create_async_task_handle (service ''/bin/db'')"
        "\<lparr>env_world = [], env_handlers = (\<lambda>_. None)\<rparr>"]
    by (simp add: example_requests_def th.last_request.simps)
qed

text \<open>C17: However pushes and wake-ups alternate on a callback queue, a wake-up never takes
  from an empty queue.\<close>

theorem queue_wake_ups_are_safe: "\<exists>q. fq_run fq_new es = Inr q \<and> fq_invar q"
  by (rule fq_run_safe [OF fq.invar_fresh])



section \<open>The configuration file\<close>

text \<open>C19: From the file to the processes: if a configuration file is read without an error,
  then whatever happens later, a task that is running, starting or stopping has every task
  running that the declarations of the file name as its dependency.\<close>

theorem file_order_is_kept:
  assumes "read_descriptions u = Inr (tds, [])" "length u < 2 ^ 64" "runs os nature tds rs c"
  shows "\<exists>t. parse_text u = Inr (t, []) \<and> denotes_tree t tds \<and>
    (\<forall>i < length (all_tasks tds). \<forall>j < length (all_tasks tds).
       is_running i (ctx_state c) \<or> is_in_transition i (ctx_state c) \<longrightarrow>
       td_name (all_tasks tds ! j) \<in> set (declared_dependencies t (td_name (all_tasks tds ! i))) \<longrightarrow>
       is_running j (ctx_state c) \<and> \<not> is_in_transition j (ctx_state c))"
  by (rule configured_order [OF assms])

theorem file_order_is_kept_witness:
  "\<exists>t. parse_text example_text = Inr (t, []) \<and> denotes_tree t text_descriptions \<and>
     is_running 1 (ctx_state text_up) \<and>
     (td_name (all_tasks text_descriptions ! 0) \<in> set (declared_dependencies t ''web'') \<longrightarrow>
      is_running 0 (ctx_state text_up) \<and> \<not> is_in_transition 0 (ctx_state text_up))"
proof -
  obtain rs where rs: "runs simple_os (=) text_descriptions rs text_up" using text_up_runs by blast
  obtain t where t: "parse_text example_text = Inr (t, [])" "denotes_tree t text_descriptions"
    and order: "\<forall>i < length (all_tasks text_descriptions). \<forall>j < length (all_tasks text_descriptions).
       is_running i (ctx_state text_up) \<or> is_in_transition i (ctx_state text_up) \<longrightarrow>
       td_name (all_tasks text_descriptions ! j) \<in> set (declared_dependencies t (td_name (all_tasks text_descriptions ! i))) \<longrightarrow>
       is_running j (ctx_state text_up) \<and> \<not> is_in_transition j (ctx_state text_up)"
    using file_order_is_kept [OF example_text_read example_text_length rs] by (elim exE conjE)
  show ?thesis
    using t text_up_state(4) order [rule_format, of 1 0] by (intro exI [of _ t]) (simp add: text_up_state(1,3) del: One_nat_def)
qed

text \<open>A small tree and a layout of it.\<close>

definition small_identifier :: "string \<Rightarrow> identifier_token" where
  "small_identifier s = \<lparr>id_range = no_range, id_text = s\<rparr>"

definition small_tree :: top_level_node where
  "small_tree = \<lparr>top_tasks = [\<lparr>tn_name = small_identifier ''a'', tn_value = Some (Struct_node (small_identifier ''null'') [])\<rparr>],
     top_dependencies = [], top_run_levels = []\<rparr>"




text \<open>C21: A file is read without any error exactly if it parses without one and its tree means
  something: names of tasks and run levels are given once, every value stands for the data
  of a task, and every name that is referred to is declared.\<close>

theorem clean_iff_meaningful:
  "(\<exists>tds. read_descriptions u = Inr (tds, [])) \<longleftrightarrow> (\<exists>t. parse_text u = Inr (t, []) \<and> meaningful t)"
  by (rule read_descriptions_clean(1))

text \<open>C22: The reader implements the meaning of the tree: what is read without an error has the
  names, the data, the dependencies in the order of their declarations and the run levels
  of the tree, and the tasks in the order of their names.\<close>

theorem reader_implements_meaning:
  assumes "read_descriptions u = Inr (tds, [])"
  shows "\<exists>t. parse_text u = Inr (t, []) \<and> denotes_tree t tds"
  by (rule read_descriptions_clean(2) [OF assms])

theorem reader_implements_meaning_witness:
  "\<exists>t. parse_text example_text = Inr (t, []) \<and> denotes_tree t text_descriptions"
  by (rule reader_implements_meaning [OF example_text_read])

text \<open>C23: The readers of task values are exact. They end on every tree, without a failed
  assertion; on a complete one they give data and no error exactly if the value stands for that
  data, and leave an error whenever they give none.\<close>

theorem task_reader_exact:
  "\<exists>x fs. (\<forall>es. read_task node es = Inr (x, es @ fs)) \<and>
     (task_complete node \<longrightarrow> (\<forall>d. x = Some d \<and> fs = [] \<longleftrightarrow> task_of node d) \<and> (x = None \<longrightarrow> fs \<noteq> []))"
  using read_task_meets [of node]
  by (simp add: meets_def results_def gives_def task_complete_def task_of_def)

theorem task_reader_exact_witness:
  "\<exists>x fs. (\<forall>es. read_task (hd (top_tasks small_tree)) es = Inr (x, es @ fs)) \<and>
     (\<forall>d. x = Some d \<and> fs = [] \<longleftrightarrow> task_of (hd (top_tasks small_tree)) d)"
proof -
  have "task_complete (hd (top_tasks small_tree))" by (simp add: task_complete_def small_tree_def)
  then show ?thesis using task_reader_exact [of "hd (top_tasks small_tree)"] by blast
qed

text \<open>C24: What is read is what the scheduler asks for, errors or not: every pointer to a task
  is to a task of the descriptions, the index holds exactly the tasks under their names, and
  nothing outgrows the counters, because the tree is not larger than the text.\<close>

theorem descriptions_fit_scheduler:
  assumes "read_descriptions u = Inr (tds, es)" "length u < 2 ^ 64"
  shows "descriptions_ok tds \<and>
    length (all_tasks tds) + sum_list (map (\<lambda>d. length (td_dependencies d)) (all_tasks tds)) \<le> length u"
  using read_descriptions_ok [OF assms] read_descriptions_sizes [OF assms(1)] by blast

theorem descriptions_fit_scheduler_witness: "descriptions_ok text_descriptions"
  using descriptions_fit_scheduler [OF example_text_read example_text_length] by blast



section \<open>The start of the program\<close>

text \<open>C26: The members of the context exist all or not at all. Nothing fails an assertion; they
  exist exactly if no system call failed; then the epoll instance watches the termination signals,
  the exited children and the queues of the synchronous tasks beside what it watched before, each
  for its own object, and the three signals are blocked. If a call failed, descriptors,
  registrations, signal mask, guards and the pointer to the handler are as before, and so they are
  when the members are destroyed, in whatever state that holds the same.\<close>

theorem startup_all_or_nothing:
  assumes "startable base an la (queued_tasks tds) p" "ma_unmask an = None"
  shows "\<not> aborted (members_construct e an la (queued_tasks tds) p) \<and>
    (snd (members_construct e an la (queued_tasks tds) p) = Done \<longleftrightarrow> calls_succeed an (queued_tasks tds)) \<and>
    (if calls_succeed an (queued_tasks tds)
     then started base an la (queued_tasks tds) p (fst (members_construct e an la (queued_tasks tds) p)) \<and>
       (\<forall>q. same_process q (fst (members_construct e an la (queued_tasks tds) p)) \<longrightarrow>
          snd (members_destroy e an la (queued_tasks tds) q) = Done \<and>
          same_process (fst (members_destroy e an la (queued_tasks tds) q)) p)
     else same_process (fst (members_construct e an la (queued_tasks tds) p)) p)"
proof -
  note U = proc.undone_byD [OF members_undone [OF assms(2), where e = e] assms(1)]
  note iff = members_exist [OF assms(1), of e]
  have "same_process (fst (members_construct e an la (queued_tasks tds) p)) p"
    if "\<not> calls_succeed an (queued_tasks tds)"
    using U(1,2) iff that by (cases "snd (members_construct e an la (queued_tasks tds) p)") (auto simp: aborted_def)
  then show ?thesis using U(1,3,4) iff members_started [OF assms(1), of e] by auto
qed

text \<open>In the example the signal descriptors are 5 and 6, and the one queue is that of the control task.\<close>

definition example_answers :: "(errno + int) \<Rightarrow> member_answers" where
  "example_answers queue =
     \<lparr>ma_epoll = Inr 4, ma_term_mask = None, ma_term = Inr 5, ma_term_add = None, ma_child_mask = None,
      ma_child = Inr 6, ma_child_add = None, ma_queue = (\<lambda>i. queue), ma_queue_add = (\<lambda>i. None),
      ma_close = None, ma_unmask = None\<rparr>"

definition example_addresses :: member_addresses where
  "example_addresses = \<lparr>la_epoll = 0, la_term = 1, la_child = 2, la_queue = (\<lambda>i. 3 + i)\<rparr>"

definition example_process :: process where
  "example_process =
     \<lparr>pr_res = \<lparr>res_open = {0, 1, 2}, res_interest = Map.empty, res_fds = Map.empty, res_regs = Map.empty, res_cerr = []\<rparr>,
      pr_mask = {}, pr_term_guard = None, pr_child_guard = None, pr_instance = None\<rparr>"

theorem startup_all_or_nothing_witness:
  "(let p = fst (members_construct (\<lambda>_. ''error'') (example_answers (Inr 7)) example_addresses
        (queued_tasks example_descriptions) example_process) in
      res_interest (pr_res p) 5 = Some (epollin, 1) \<and> res_interest (pr_res p) 7 = Some (epollin, 5) \<and>
      SIGCHLD \<in> pr_mask p) \<and>
   pr_mask (fst (members_construct (\<lambda>_. ''error'') (example_answers (Inl EMFILE)) example_addresses
        (queued_tasks example_descriptions) example_process)) = {}"
proof -
  have q: "queued_tasks example_descriptions = [2]" by code_simp
  have st: "startable {0, 1, 2} (example_answers x) example_addresses (queued_tasks example_descriptions) example_process"
    if "x = Inr 7 \<or> x = Inl EMFILE" for x
    using that unfolding q
    by (auto simp: startable_def prepared_def queue_answers_def example_answers_def example_addresses_def
        example_process_def resources_ok_def fds_ok_iff owned_def listed_def regs_own_def vacant_def fresh_answer_def)
  have un: "ma_unmask (example_answers x) = None" for x by (simp add: example_answers_def)
  have "calls_succeed (example_answers (Inr 7)) (queued_tasks example_descriptions)"
    "\<not> calls_succeed (example_answers (Inl EMFILE)) (queued_tasks example_descriptions)"
    unfolding q by (simp_all add: calls_succeed_def example_answers_def)
  with startup_all_or_nothing [OF st [of "Inr 7"] un, of "\<lambda>_. ''error''"]
    startup_all_or_nothing [OF st [of "Inl EMFILE"] un, of "\<lambda>_. ''error''"]
  have "started {0, 1, 2} (example_answers (Inr 7)) example_addresses (queued_tasks example_descriptions) example_process
      (fst (members_construct (\<lambda>_. ''error'') (example_answers (Inr 7)) example_addresses
        (queued_tasks example_descriptions) example_process))"
    "same_process (fst (members_construct (\<lambda>_. ''error'') (example_answers (Inl EMFILE)) example_addresses
        (queued_tasks example_descriptions) example_process)) example_process"
    by simp_all
  then show ?thesis
    unfolding q by (simp add: started_def same_process_def example_answers_def example_addresses_def example_process_def)
qed

section \<open>The lexer and the parser\<close>

text \<open>C27: The lexer and the parser end on every text: the fuel that bounds the recursion of the
  grammar, three times the number of characters left and one, is never used up.\<close>

theorem parser_terminates: "parse_text u \<noteq> Inl Out_of_fuel"
  by (rule parse_text_fueled)

text \<open>C28: Every error of the lexer and the parser lies in the text, and so does its end.\<close>

theorem errors_lie_in_text:
  assumes "parse_text u = Inr (t, es)" "e \<in> set es"
  shows "range_start (err_range e) \<le> range_end (err_range e) \<and> range_end (err_range e) \<le> length u"
  using parse_text_errors [OF assms(1)] assms(2) by (auto simp: errors_within_def range_within_def)

theorem errors_lie_in_text_witness:
  "\<exists>t e. parse_text ''task'' = Inr (t, [e]) \<and> range_end (err_range e) \<le> 4"
proof -
  have "case parse_text ''task'' of Inr (t, es) \<Rightarrow> length es = 1 | Inl f \<Rightarrow> False" by code_simp
  then obtain t e where "parse_text ''task'' = Inr (t, [e])"
    by (auto simp: length_Suc_conv split: sum.splits)
  then show ?thesis using errors_lie_in_text [of "''task''" t "[e]" e] by auto
qed

text \<open>C29: A tree without errors has no holes: every task has a value, every property in it has
  one, and every run level has its name.\<close>

theorem no_errors_no_holes:
  assumes "parse_text u = Inr (t, [])"
  shows "complete_tree t"
  by (rule parse_text_complete [OF assms])

theorem no_errors_no_holes_witness:
  "\<exists>t. parse_text ''task a = null {};'' = Inr (t, []) \<and> complete_tree t"
proof -
  have "case parse_text ''task a = null {};'' of Inr (t, es) \<Rightarrow> es = [] | Inl f \<Rightarrow> False" by code_simp
  then obtain t where "parse_text ''task a = null {};'' = Inr (t, [])" by (auto split: sum.splits)
  then show ?thesis using no_errors_no_holes by blast
qed



text \<open>C31: Integer literals are exact up to the largest \<^verbatim>\<open>int\<close>: the lexer gives the decimal value of
  the digits and steps over exactly them, and above that the multiplication or addition
  overflows, which C++ leaves undefined.\<close>

theorem integer_literals_exact:
  assumes "is_number c" "\<forall>d \<in> set ds. is_number d" "rest = [] \<or> \<not> is_number (hd rest)"
  shows "read_next_token L (c # ds @ rest) es =
    (if digits_value 0 (c # ds) \<le> int_max
     then Inr (Some (Integer_literal_token (text_range_of (L - length (c # ds @ rest)) (L - length rest))
       (digits_value 0 (c # ds))), rest, es)
     else Inl (Undefined_behaviour ''signed integer overflow''))"
  by (rule read_digits [OF assms])

theorem integer_literals_exact_witness:
  "read_next_token 11 ''2147483647;'' [] =
     Inr (Some (Integer_literal_token (text_range_of 0 10) int_max), '';'', []) \<and>
   read_next_token 11 ''2147483648;'' [] = Inl (Undefined_behaviour ''signed integer overflow'')"
proof -
  have digits: "digits_value 0 ''2147483647'' = int_max" "digits_value 0 ''2147483648'' = int_max + 1" by code_simp+
  have num: "is_number (CHR ''2'')" "\<forall>d \<in> set ''147483647''. is_number d" "\<forall>d \<in> set ''147483648''. is_number d"
    "\<not> is_number (CHR '';'')" by code_simp+
  show ?thesis
    using integer_literals_exact [OF num(1,2), of "'';''" 11 "[]"] integer_literals_exact [OF num(1,3), of "'';''" 11 "[]"]
      digits num(4) by simp
qed

section \<open>The readers\<close>

text \<open>C32: How many duplicate definitions are reported: none exactly if all names differ, and
  otherwise one for every repetition and one for the first of the first repeated name, where
  one for the first of every repeated name is meant.\<close>

theorem duplicates_reported:
  "length (report_duplicates (tasks_by_name (top_tasks t))) =
    (if distinct (tree_names t) then 0 else Suc (length (top_tasks t) - card (set (tree_names t))))"
proof -
  have "length (tasks_by_name (top_tasks t)) = length (top_tasks t)"
    using mm.length_entries_from_list [of "map (\<lambda>n. (id_text (tn_name n), n)) (top_tasks t)"]
    by (simp add: tasks_by_name_eq)
  moreover have "fst ` set (tasks_by_name (top_tasks t)) = set (tree_names t)"
    using tasks_by_name_facts(2) [of t] by simp
  ultimately show ?thesis
    using length_report_duplicates [OF tasks_by_name_facts(3) [of t]] tasks_by_name_facts(1) [of t] by simp
qed

text \<open>C33: Every list of arguments can be written as a command line: quoted, it is split into
  exactly those arguments, whatever characters they have, quotes and blanks included.\<close>

theorem command_lines_split: "split_arguments (quote_arguments as) = Inr as"
  by (rule split_quoted_arguments)

section \<open>The output of errors\<close>

text \<open>C34: The line map counts: the line of a position is the number of newlines before it and
  its column the number of characters since the last of them; no assertion fails.\<close>

theorem positions_are_counted:
  assumes "pos \<le> length u"
  shows "get_position (new_line_map u) pos =
    Inr \<lparr>line = of_nat (length (filter (\<lambda>c. c = CHR 0x0A) (take pos u))),
         column = of_nat (length (takeWhile (\<lambda>c. c \<noteq> CHR 0x0A) (rev (take pos u))))\<rparr>"
  using get_position_correct(1) [OF assms] by (simp add: lines_before_def column_of_def)

theorem positions_are_counted_witness:
  "get_position (new_line_map [CHR ''a'', CHR 0x0A, CHR ''b'', CHR ''c'']) 3 = Inr \<lparr>line = 1, column = 1\<rparr>"
  using positions_are_counted [of 3 "[CHR ''a'', CHR 0x0A, CHR ''b'', CHR ''c'']"]
  by (simp add: numeral_eq_Suc)

text \<open>C35: An error at a point is printed with its line and column, the line it is on and a mark
  below the place; except at the end of a text whose last line is empty, where the string of
  the line is built from a range that is inverted or starts before the text.\<close>

theorem point_errors_printed:
  assumes "Suc (length u) < 2 ^ 32" "range_start (err_range e) = pos" "range_end (err_range e) = pos" "pos \<le> length u"
  shows "print_error f (new_line_map u) e =
    (if pos = length u \<and> ends_line u then Inl (Undefined_behaviour
        (if u = [] then ''read before the start of the file'' else ''string of an inverted range''))
     else Inr (f @ '':'' @ show_nat (lines_before u pos) @ '':'' @ show_nat (column_of u pos) @ '': '' @ err_message e @ newline @
       line_around u pos @ newline @ replicate (column_of u pos) (CHR '' '') @ ''^'' @ newline))"
  using print_point [OF assms] by (simp add: past_last_line_def)

theorem point_errors_printed_witness:
  "print_error ''f'' (new_line_map ''ab'') (error_tag_of (make_empty 1) ''oops'') =
     Inr (''f:0:1: oops'' @ newline @ ''ab'' @ newline @ '' ^'' @ newline)"
proof -
  have "show_nat (lines_before ''ab'' 1) = ''0''" "show_nat (column_of ''ab'' 1) = ''1''" "column_of ''ab'' 1 = 1"
    "line_around ''ab'' 1 = ''ab''" "\<not> ends_line ''ab''" by code_simp+
  then show ?thesis
    using point_errors_printed [of "''ab''" "error_tag_of (make_empty 1) ''oops''" 1 "''f''"]
    by (simp add: error_tag_of_def make_empty_def text_range_of_def)
qed

section \<open>The two views of the system\<close>




section \<open>Refinement of an abstract scheduler\<close>

text \<open>C37: The program implements the abstract scheduler of \<open>Scheduler_Refinement\<close>. A task is
  stopped, starting, running or stopping, in this circle; it may leave the first phase only while
  all it needs is running and the third only while all that need it are stopped. Every state of the
  event loop is reached by such moves from the state in which everything is stopped, and every
  round of the loop, whatever it is asked and however it ends, is a sequence of such moves.\<close>

theorem loop_refines_scheduler:
  assumes "runs os nature tds rs c" "descriptions_ok tds"
  shows "moves (needs_of tds) (replicate (length (all_tasks tds)) Stopped) (phases (ctx_state c)) \<and>
    (\<forall>r c'. step os nature r c c' \<longrightarrow>
       moves (needs_of tds) (phases (ctx_state c)) (phases (ctx_state c')))"
  using runs_moves [OF assms] step_moves [OF assms] by blast

theorem loop_refines_scheduler_witness:
  "moves (needs_of example_descriptions) [Stopped, Stopped, Stopped] (phases (ctx_state example_up)) \<and>
   phases (ctx_state example_up) ! 1 = Running"
proof -
  obtain rs where rs: "runs simple_os (=) example_descriptions rs example_up"
    using example_up_runs by blast
  have "length (all_tasks example_descriptions) = 3" by code_simp
  moreover have "phases (ctx_state example_up) ! 1 = Running" by code_simp
  ultimately show ?thesis
    using loop_refines_scheduler [OF rs example_descriptions_ok] by (simp add: numeral_3_eq_3)
qed

section \<open>Descriptors, registrations and sockets\<close>

text \<open>C38: However the program opens, moves, watches and closes descriptors, and however system
  calls fail, every open descriptor belongs to exactly one object or to another part of the
  program, the interest list of the kernel holds exactly the registrations that exist, an event
  reaches the object that owns the descriptor, and no operation aborts: nothing is closed twice,
  no destructor throws. Three uses that the program does not make are excluded by the operations
  and their guard: a timer that cannot be set, which leaks (\<open>timerfd_leaks\<close>), the move of a socket
  that watches (\<open>moved_socket_calls_old_object\<close>), and the update of a socket without a descriptor.\<close>

theorem resources_are_owned:
  assumes "io_runs e base s" "-1 \<notin> base"
  shows "(\<forall>fd. fd \<in> res_open s \<longleftrightarrow> fd \<in> base \<or> fd \<noteq> -1 \<and> (\<exists>!a. res_fds s a = Some fd)) \<and>
    (\<forall>fd ev a. res_interest s fd = Some (ev, a) \<longleftrightarrow>
       (\<exists>r. res_regs s a = Some r \<and> rg_ep r \<and> rg_fd r = fd \<and> rg_events r = ev)) \<and>
    (\<forall>a r. res_regs s a = Some r \<and> rg_ep r \<longrightarrow>
       res_fds s a = Some (rg_fd r) \<and> rg_callback r = Some a) \<and>
    (\<forall>op. allowed op s \<longrightarrow> \<not> aborted (perform e op s))"
proof -
  note ok = io_runs_ok [OF assms]
  have "\<exists>!a. res_fds s a = Some fd" if "fd \<noteq> -1" "res_fds s a = Some fd" for fd a
    using that fds_okD(1) [OF resources_okD(1) [OF ok]] by blast
  moreover have "fd \<in> res_open s \<longleftrightarrow> fd \<in> base \<or> fd \<noteq> -1 \<and> (\<exists>a. res_fds s a = Some fd)" for fd
    using resources_okD(1) [OF ok] unfolding fds_ok_iff by blast
  ultimately have "fd \<in> res_open s \<longleftrightarrow> fd \<in> base \<or> fd \<noteq> -1 \<and> (\<exists>!a. res_fds s a = Some fd)" for fd
    by blast
  moreover have "res_interest s fd = Some (ev, a) \<longleftrightarrow>
      (\<exists>r. res_regs s a = Some r \<and> rg_ep r \<and> rg_fd r = fd \<and> rg_events r = ev)" for fd ev a
    using resources_okD(7,8) [OF ok] by blast
  moreover have "res_fds s a = Some (rg_fd r) \<and> rg_callback r = Some a"
    if "res_regs s a = Some r" "rg_ep r" for a r
    using resources_okD(4,6) [OF ok that] by blast
  moreover have "\<not> aborted (perform e op s)" if "allowed op s" for op
    using perform_ok [OF ok that] by blast
  ultimately show ?thesis by auto
qed

theorem resources_are_owned_witness:
  "let s = fst (perform (\<lambda>_. []) (New_eventfd (Inr 5) None None 7) (start_resources {0, 1, 2})) in
   (\<exists>!a. res_fds s a = Some 5) \<and> \<not> aborted (perform (\<lambda>_. []) (Destroy_watched None 7) s)"
proof -
  define s where "s = fst (perform (\<lambda>_. []) (New_eventfd (Inr 5) None None 7) (start_resources {0, 1, 2}))"
  have "allowed (New_eventfd (Inr 5) None None 7) (start_resources {0, 1, 2})"
    by (simp add: vacant_def fresh_answer_def start_resources_def)
  then have runs: "io_runs (\<lambda>_. []) {0, 1, 2} s"
    unfolding s_def by (intro io_runs.perform io_runs.start)
  have s: "5 \<in> res_open s" "allowed (Destroy_watched None 7) s"
    by (simp_all add: s_def eventfd_construct_def open_eventfd_def fd_receive_def fd_construct_def watch_def
        getfd_def reg_construct_def epoll_add_def sys_epoll_add_def throw_error_def put_reg_def
        start_resources_def watched_def)
  have no: "-1 \<notin> {0, 1, 2 :: int}" by simp
  have "\<exists>!a. res_fds s a = Some 5" using resources_are_owned [OF runs no] s(1) by simp
  moreover have "\<not> aborted (perform (\<lambda>_. []) (Destroy_watched None 7) s)"
    using resources_are_owned [OF runs no] s(2) by blast
  ultimately show ?thesis by (simp only: s_def [symmetric] Let_def simp_thms)
qed



text \<open>C40: Reading the configuration file leaves descriptors, objects and registrations as they
  were, whichever call fails; and it gives descriptions exactly if the file could be opened, its
  size could be asked for, one read gave as much, and the text of the file is read without a fault
  and its errors can be printed.\<close>

theorem config_file_is_read_and_closed:
  assumes "io_runs e base s" "-1 \<notin> base" "vacant a s" "fresh_answer (fa_open fa) s"
  shows "same_resources (snd (read_descriptions_file e fa f a s)) s \<and>
    (\<forall>tds out. fst (read_descriptions_file e fa f a s) = Inr (Inr (tds, out)) \<longleftrightarrow>
       (\<exists>fd u es. fa_open fa = Inr fd \<and> fa_stat fa = Inr (length u) \<and> fa_read fa = Inr u \<and>
          read_descriptions u = Inr (tds, es) \<and> error_report f u es = Inr out))"
proof -
  note spec = read_entire_file_spec [OF io_runs_ok [OF assms(1,2)] assms(3,4), of e f]
  obtain r s' where r: "read_entire_file e fa f a s = (r, s')" by force
  have "same_resources (snd (read_descriptions_file e fa f a s)) s"
    using spec(1) by (simp add: read_descriptions_file_def r split: sum.splits)
  moreover have "fst (read_descriptions_file e fa f a s) = Inr (Inr (tds, out)) \<longleftrightarrow>
      (\<exists>u es. r = Inr u \<and> read_descriptions u = Inr (tds, es) \<and> error_report f u es = Inr out)" for tds out
    by (cases r) (auto simp: read_descriptions_file_def r bind_faulty_Inr_iff)
  ultimately show ?thesis using spec(2) by (simp add: r)
qed

theorem config_file_is_read_and_closed_witness:
  "same_resources (snd (read_descriptions_file (\<lambda>_. [])
      \<lparr>fa_open = Inr 3, fa_stat = Inr 9, fa_read = Inl EIO, fa_close = None\<rparr> ''f'' 0 (start_resources {0, 1, 2})))
    (start_resources {0, 1, 2})"
  using config_file_is_read_and_closed [OF io_runs.start [of "\<lambda>_. []" "{0, 1, 2}"],
      of 0 "\<lparr>fa_open = Inr 3, fa_stat = Inr 9, fa_read = Inl EIO, fa_close = None\<rparr>" "''f''"]
  by (simp add: vacant_def fresh_answer_def start_resources_def)

end
